(* ===== verification/Prelude.thy ===== *)
theory Prelude
  imports Main "HOL-Library.Word" "HOL-Library.Monad_Syntax" "HOL-Library.List_Lexorder"
begin

text \<open>
  The vocabulary every component shares: the fixed-width integer types of
  \<^verbatim>\<open>kernel/Source/constants.h\<close>, the two readings of a byte as a C character,
  and C's truncating signed division and range-checked signed arithmetic.

  A computation that may fault or never return has type \<open>'a option\<close>: \<open>None\<close> is an access
  outside mapped memory, an operation the language leaves undefined (signed overflow,
  division by zero), or a loop that does not end. The collection \<open>word_arith\<close> holds the
  facts about 64-bit arithmetic the pointer proofs use.
\<close>

unbundle bit_operations_syntax

named_theorems word_arith \<open>facts on 64-bit addresses and counters\<close>
named_theorems run_simps \<open>equations that run a loop of the model one step\<close>

text \<open>
  Memories and heaps are functions, updated in place in long chains. An update is looked
  up by comparing addresses, and is not unfolded under a binder.
\<close>

declare fun_upd_apply [simp del] fun_upd_same [simp] fun_upd_other [simp]

subsection \<open>Integer types\<close>

type_synonym u8 = "8 word"
type_synonym u16 = "16 word"
type_synonym u32 = "32 word"
type_synonym u64 = "64 word"
type_synonym usize = "64 word"
type_synonym addr = "64 word"

text \<open>\<open>(size_t)-1\<close>, the marker several routines compare with.\<close>

abbreviation (input) size_max :: usize where
  "size_max \<equiv> - 1"

text \<open>
  A byte read through \<^verbatim>\<open>char\<close> is signed on the x86-64 target; read through
  \<^verbatim>\<open>unsigned char\<close> it is not. Both promote to \<^verbatim>\<open>int\<close>.
\<close>

abbreviation (input) char_val :: "u8 \<Rightarrow> int" where
  "char_val b \<equiv> sint b"

abbreviation (input) uchar_val :: "u8 \<Rightarrow> int" where
  "uchar_val b \<equiv> uint b"

lemma sint_ascii: "0 \<le> k \<Longrightarrow> k < 128 \<Longrightarrow> sint (word_of_int k :: u8) = k"
  by (simp add: int_word_sint)

subsection \<open>Signed arithmetic\<close>

text \<open>
  A value of a \<open>w\<close>-bit signed type is an \<^typ>\<open>int\<close> in range; an operation whose exact
  result leaves the range has no defined result.
\<close>

definition in_signed :: "nat \<Rightarrow> int \<Rightarrow> bool" where
  "in_signed w x \<longleftrightarrow> - (2 ^ (w - 1)) \<le> x \<and> x < 2 ^ (w - 1)"

definition chk :: "nat \<Rightarrow> int \<Rightarrow> int option" where
  "chk w x = (if in_signed w x then Some x else None)"

text \<open>C's \<open>/\<close> and \<open>%\<close> truncate towards zero and are undefined for divisor zero.\<close>

definition quot :: "int \<Rightarrow> int \<Rightarrow> int" where
  "quot a b = sgn a * sgn b * (\<bar>a\<bar> div \<bar>b\<bar>)"

definition remd :: "int \<Rightarrow> int \<Rightarrow> int" where
  "remd a b = a - quot a b * b"

lemma quot_nonneg [simp]: "0 \<le> a \<Longrightarrow> 0 < b \<Longrightarrow> quot a b = a div b"
  by (cases "a = 0") (simp_all add: quot_def)

lemma remd_nonneg [simp]: "0 \<le> a \<Longrightarrow> 0 < b \<Longrightarrow> remd a b = a mod b"
  by (simp add: remd_def minus_div_mult_eq_mod)

lemma chk_SomeD: "chk w x = Some y \<Longrightarrow> y = x \<and> in_signed w x"
  by (auto simp: chk_def split: if_splits)

lemma chk_in [simp]: "in_signed w x \<Longrightarrow> chk w x = Some x"
  by (simp add: chk_def)

lemma chk_out [simp]: "\<not> in_signed w x \<Longrightarrow> chk w x = None"
  by (simp add: chk_def)

lemma in_signed_nonneg: "0 \<le> x \<Longrightarrow> in_signed w x \<longleftrightarrow> x < 2 ^ (w - 1)"
  by (simp add: in_signed_def) (smt (verit) zero_le_power)

lemma in_signed_between: "0 \<le> x \<Longrightarrow> x \<le> y \<Longrightarrow> in_signed w y \<Longrightarrow> in_signed w x"
  by (simp add: in_signed_nonneg)

lemma in_signed_uminus: "0 \<le> x \<Longrightarrow> in_signed w x \<Longrightarrow> in_signed w (- x)"
  by (simp add: in_signed_def)

lemma in_signed_0 [simp]: "in_signed w 0"
  by (simp add: in_signed_def)

subsection \<open>Counters of 64 bits\<close>

lemma unat_of_nat_64 [word_arith]:
  "n < 2 ^ 64 \<Longrightarrow> unat (of_nat n :: u64) = n"
  by (simp add: unat_of_nat)

lemma of_nat_64_eq_0 [word_arith]:
  "n < 2 ^ 64 \<Longrightarrow> (of_nat n = (0 :: u64)) = (n = 0)"
  using unat_of_nat_64 [of n] unat_eq_zero [of "of_nat n :: u64"] by simp

lemma of_nat_Suc_minus_1 [word_arith]:
  "(of_nat (Suc n) :: u64) - 1 = of_nat n"
  by simp

lemma of_nat_64_inj [word_arith]:
  "m < 2 ^ 64 \<Longrightarrow> n < 2 ^ 64 \<Longrightarrow> (of_nat m = (of_nat n :: u64)) = (m = n)"
  by (metis unat_of_nat_64)

lemma unat_less_size: "unat (x :: u64) < 2 ^ 64"
  using unsigned_less [of x] by simp

lemma of_nat_unat_64 [word_arith]: "of_nat (unat x) = (x :: u64)"
  by (simp add: word_unat_eq_iff)

lemma unat_eq_size_max: "unat n = 2 ^ 64 - 1 \<Longrightarrow> n = size_max"
  by (simp add: word_unat_eq_iff unsigned_minus_1_eq_mask mask_eq_exp_minus_1)

lemma unat_size_max [word_arith]: "unat size_max = 2 ^ 64 - 1"
  by (simp add: unsigned_minus_1_eq_mask mask_eq_exp_minus_1)

text \<open>Adding to an address within its object does not wrap.\<close>

lemma unat_add_of_nat [word_arith]:
  assumes "unat p + n < 2 ^ 64"
  shows "unat (p + of_nat n :: u64) = unat p + n"
  using assms by (simp add: unat_word_ariths unat_of_nat)

text \<open>A counter below a bound does not wrap at its increment, so a loop over it ends.\<close>

lemma unat_incr [word_arith]:
  assumes "i < (n :: u64)"
  shows "unat (i + 1) = Suc (unat i)"
proof -
  have "unat i + 1 < 2 ^ 64" using assms unat_less_size [of n] by (simp add: word_less_nat_alt)
  then show ?thesis using unat_add_of_nat [of i 1] by simp
qed

lemma count_up_less: "i < (n :: u64) \<Longrightarrow> unat n - unat (i + 1) < unat n - unat i"
  by (simp add: unat_incr word_less_nat_alt)

end
