(* ===== verification/Memory.thy ===== *)
theory Memory
  imports Prelude
begin

text \<open>
  The byte-addressed memory the C routines of \<^verbatim>\<open>kernel/Source/util/string.c\<close> read and
  write. An address is a 64-bit word and wraps; \<open>None\<close> marks an unmapped address, and an
  access there faults. A contiguous object is described by the bytes it holds
  (\<open>bytes_at\<close>), a C string by its characters before the terminating NUL (\<open>cstr_at\<close>);
  \<open>region\<close> is the set of addresses of an object and \<open>put_bytes\<close> the memory after storing
  a run of bytes.
\<close>

type_synonym mem = "addr \<rightharpoonup> u8"

definition write8 :: "mem \<Rightarrow> addr \<Rightarrow> u8 \<Rightarrow> mem option" where
  "write8 m p b = (if m p = None then None else Some (m(p \<mapsto> b)))"

fun bytes_at :: "mem \<Rightarrow> addr \<Rightarrow> u8 list \<Rightarrow> bool" where
  "bytes_at m p [] = True"
| "bytes_at m p (b # bs) = (m p = Some b \<and> bytes_at m (p + 1) bs)"

fun mapped :: "mem \<Rightarrow> addr \<Rightarrow> nat \<Rightarrow> bool" where
  "mapped m p 0 = True"
| "mapped m p (Suc n) = (m p \<noteq> None \<and> mapped m (p + 1) n)"

fun put_bytes :: "mem \<Rightarrow> addr \<Rightarrow> u8 list \<Rightarrow> mem" where
  "put_bytes m p [] = m"
| "put_bytes m p (b # bs) = put_bytes (m(p \<mapsto> b)) (p + 1) bs"

definition cstr_at :: "mem \<Rightarrow> addr \<Rightarrow> u8 list \<Rightarrow> bool" where
  "cstr_at m p s \<longleftrightarrow> 0 \<notin> set s \<and> bytes_at m p (s @ [0])"

definition region :: "addr \<Rightarrow> nat \<Rightarrow> addr set" where
  "region p n = (\<lambda>i. p + of_nat i) ` {..<n}"

subsection \<open>Regions\<close>

lemma region_0 [simp]: "region p 0 = {}"
  by (simp add: region_def)

lemma region_Suc [simp]: "region p (Suc n) = insert p (region (p + 1) n)"
  by (simp add: region_def lessThan_Suc_eq_insert_0 image_image add.assoc)

lemma region_numeral [simp]:
  "region p (numeral k) = insert p (region (p + 1) (pred_numeral k))"
  by (simp add: numeral_eq_Suc)

lemma mapped_numeral [simp]:
  "mapped m p (numeral k) = (m p \<noteq> None \<and> mapped m (p + 1) (pred_numeral k))"
  by (simp add: numeral_eq_Suc)

lemma region_add: "region p (m + n) = region p m \<union> region (p + of_nat m) n"
  by (induction m arbitrary: p) (simp_all add: add.assoc)

lemma in_region: "i < n \<Longrightarrow> p + of_nat i \<in> region p n"
  by (auto simp: region_def)

lemma start_in_region [simp]: "0 < n \<Longrightarrow> p \<in> region p n"
  using in_region [of 0 n p] by simp

lemma region_mono: "m \<le> n \<Longrightarrow> region p m \<subseteq> region p n"
  by (auto simp: region_def)

lemma not_in_rest:
  assumes "Suc n \<le> 2 ^ 64"
  shows "p \<notin> region (p + 1) n"
proof
  assume "p \<in> region (p + 1) n"
  then obtain i where i: "i < n" and "p = p + 1 + of_nat i"
    by (auto simp: region_def)
  then have "(of_nat (Suc i) :: u64) = 0"
    by (simp add: add.assoc)
  moreover have "Suc i < 2 ^ 64" using i assms by simp
  ultimately show False using of_nat_64_eq_0 [of "Suc i"] by simp
qed

lemma end_not_in_region:
  assumes "n < 2 ^ 64"
  shows "p + of_nat n \<notin> region p n"
proof
  assume "p + of_nat n \<in> region p n"
  then obtain i where i: "i < n" and "(of_nat n :: u64) = of_nat i"
    by (auto simp: region_def)
  then have "n = i"
    using assms of_nat_64_inj [of n i] by simp
  with i show False by simp
qed

lemma region_split_disjoint:
  assumes "m + n \<le> 2 ^ 64"
  shows "region p m \<inter> region (p + of_nat m) n = {}"
proof (rule ccontr)
  assume "region p m \<inter> region (p + of_nat m) n \<noteq> {}"
  then obtain i j where ij: "i < m" "j < n" and "p + of_nat i = p + of_nat m + of_nat j"
    by (auto simp: region_def)
  then have "(of_nat i :: u64) = of_nat (m + j)" by (simp add: add.assoc)
  then have "i = m + j" using ij assms of_nat_64_inj [of i "m + j"] by simp
  with ij show False by simp
qed

lemma region_sub: "i + k \<le> n \<Longrightarrow> region (p + of_nat i) k \<subseteq> region p n"
  using region_add [of p i k] region_mono [of "i + k" n p] by blast

text \<open>A region that does not wrap holds exactly the addresses between its ends.\<close>

lemma in_region_iff:
  assumes "unat p + n \<le> 2 ^ 64"
  shows "q \<in> region p n \<longleftrightarrow> unat p \<le> unat q \<and> unat q < unat p + n"
proof
  assume "q \<in> region p n"
  then obtain i where "i < n" "q = p + of_nat i"
    by (auto simp: region_def)
  with assms unat_add_of_nat [of p i] show "unat p \<le> unat q \<and> unat q < unat p + n"
    by simp
next
  assume q: "unat p \<le> unat q \<and> unat q < unat p + n"
  define i where "i = unat q - unat p"
  have i: "i < n" "unat p + i = unat q"
    using q by (auto simp: i_def)
  with assms unat_add_of_nat [of p i] unat_less_size [of q] have "unat (p + of_nat i) = unat q"
    by simp
  then have "q = p + of_nat i" by (simp only: word_unat_eq_iff)
  then show "q \<in> region p n" using i(1) in_region by simp
qed

subsection \<open>Reading and writing runs of bytes\<close>

lemma bytes_at_append:
  "bytes_at m p (xs @ ys) \<longleftrightarrow> bytes_at m p xs \<and> bytes_at m (p + of_nat (length xs)) ys"
  by (induction xs arbitrary: p) (auto simp: add.assoc)

lemma bytes_at_nth: "bytes_at m p bs \<Longrightarrow> i < length bs \<Longrightarrow> m (p + of_nat i) = Some (bs ! i)"
proof (induction bs arbitrary: p i)
  case Nil
  then show ?case by simp
next
  case (Cons b bs)
  then show ?case by (cases i) (auto simp flip: add.assoc)
qed

lemma bytes_at_cong:
  "(\<And>q. q \<in> region p (length bs) \<Longrightarrow> m q = m' q) \<Longrightarrow> bytes_at m p bs = bytes_at m' p bs"
  by (induction bs arbitrary: p) auto

lemma bytes_at_upd [simp]:
  "q \<notin> region p (length bs) \<Longrightarrow> bytes_at (m(q \<mapsto> b)) p bs = bytes_at m p bs"
  by (rule bytes_at_cong) (auto simp: fun_upd_apply)

lemma bytes_at_update:
  assumes "bytes_at m p bs" "k < length bs" "length bs \<le> 2 ^ 64"
  shows "bytes_at (m(p + of_nat k \<mapsto> b)) p (bs[k := b])"
proof -
  have bs: "bs = take k bs @ bs ! k # drop (Suc k) bs" using assms(2) by (rule id_take_nth_drop)
  let ?q = "p + of_nat k"
  have split: "bytes_at m p (take k bs)" "bytes_at m (?q + 1) (drop (Suc k) bs)"
    using assms(1,2) by (subst (asm) bs, simp add: bytes_at_append)+
  have "?q \<notin> region p k" using assms(2,3) by (intro end_not_in_region) simp
  moreover have "?q \<notin> region (?q + 1) (length (drop (Suc k) bs))"
    using assms(2,3) by (intro not_in_rest) simp
  moreover have "bs[k := b] = take k bs @ b # drop (Suc k) bs"
    using assms(2) by (simp add: upd_conv_take_nth_drop)
  ultimately show ?thesis using split assms(2) by (simp add: bytes_at_append)
qed

lemma bytes_at_unique:
  "bytes_at m p xs \<Longrightarrow> bytes_at m p ys \<Longrightarrow> length xs = length ys \<Longrightarrow> xs = ys"
proof (induction xs arbitrary: p ys)
  case Nil
  then show ?case by simp
next
  case (Cons x xs)
  then show ?case by (cases ys) auto
qed

lemma bytes_at_mapped: "bytes_at m p bs \<Longrightarrow> mapped m p (length bs)"
  by (induction bs arbitrary: p) auto

lemma mapped_iff: "mapped m p n \<longleftrightarrow> region p n \<subseteq> dom m"
  by (induction n arbitrary: p) auto

lemma mapped_upd [simp]: "mapped m p n \<Longrightarrow> mapped (m(q \<mapsto> b)) p n"
  by (auto simp: mapped_iff)

lemma mapped_add: "mapped m p (k + n) \<longleftrightarrow> mapped m p k \<and> mapped m (p + of_nat k) n"
  by (simp add: mapped_iff region_add)

lemma mapped_sub: "mapped m p n \<Longrightarrow> i + k \<le> n \<Longrightarrow> mapped m (p + of_nat i) k"
  using region_sub [of i k n p] by (auto simp: mapped_iff)

lemma write8_mapped [simp]: "m p = Some c \<Longrightarrow> write8 m p b = Some (m(p \<mapsto> b))"
  by (simp add: write8_def)

lemma write8_unmapped [simp]: "m p = None \<Longrightarrow> write8 m p b = None"
  by (simp add: write8_def)

lemma put_bytes_append:
  "put_bytes m p (xs @ ys) = put_bytes (put_bytes m p xs) (p + of_nat (length xs)) ys"
  by (induction xs arbitrary: m p) (auto simp: add.assoc)

lemma put_bytes_other [simp]:
  "q \<notin> region p (length bs) \<Longrightarrow> put_bytes m p bs q = m q"
  by (induction bs arbitrary: m p) auto

lemma dom_put_bytes: "dom (put_bytes m p bs) = region p (length bs) \<union> dom m"
  by (induction bs arbitrary: m p) auto

lemma mapped_put_bytes [simp]: "mapped m q n \<Longrightarrow> mapped (put_bytes m p bs) q n"
  by (auto simp: mapped_iff dom_put_bytes)

lemma mapped_put_replicate: "mapped (put_bytes m p (replicate n b)) p n"
  by (simp add: mapped_iff dom_put_bytes)

lemma put_bytes_defined: "m q \<noteq> None \<Longrightarrow> put_bytes m p bs q \<noteq> None"
  using dom_put_bytes [of m p bs] by blast

lemma bytes_at_put_bytes:
  "length bs \<le> 2 ^ 64 \<Longrightarrow> bytes_at (put_bytes m p bs) p bs"
proof (induction bs arbitrary: m p)
  case Nil
  then show ?case by simp
next
  case (Cons b bs)
  then have "p \<notin> region (p + 1) (length bs)"
    by (intro not_in_rest) simp
  with Cons show ?case by simp
qed

lemma bytes_at_put_bytes_other:
  "region p (length bs) \<inter> region q (length cs) = {} \<Longrightarrow>
     bytes_at (put_bytes m q cs) p bs = bytes_at m p bs"
  by (intro bytes_at_cong put_bytes_other) blast

lemma put_bytes_upd_other:
  "q \<notin> region p (length bs) \<Longrightarrow> put_bytes (m(q \<mapsto> b)) p bs = (put_bytes m p bs)(q \<mapsto> b)"
proof (induction bs arbitrary: m p)
  case Nil
  then show ?case by simp
next
  case (Cons c bs)
  then have "q \<noteq> p" and rest: "q \<notin> region (p + 1) (length bs)" by auto
  then have swap: "(m(q \<mapsto> b))(p \<mapsto> c) = (m(p \<mapsto> c))(q \<mapsto> b)"
    by (intro fun_upd_twist) auto
  have "put_bytes (m(q \<mapsto> b)) p (c # bs) = put_bytes ((m(p \<mapsto> c))(q \<mapsto> b)) (p + 1) bs"
    by (simp only: put_bytes.simps swap)
  also have "\<dots> = (put_bytes (m(p \<mapsto> c)) (p + 1) bs)(q \<mapsto> b)"
    by (rule Cons.IH [OF rest])
  finally show ?case by (simp only: put_bytes.simps)
qed

subsection \<open>C strings\<close>

lemma cstr_at_Nil [simp]: "cstr_at m p [] \<longleftrightarrow> m p = Some 0"
  by (simp add: cstr_at_def)

lemma cstr_at_Cons [simp]:
  "cstr_at m p (c # s) \<longleftrightarrow> m p = Some c \<and> c \<noteq> 0 \<and> cstr_at m (p + 1) s"
  by (auto simp: cstr_at_def)

lemma cstr_at_unique: "cstr_at m p s \<Longrightarrow> cstr_at m p t \<Longrightarrow> s = t"
proof (induction s arbitrary: p t)
  case Nil
  then show ?case by (cases t) auto
next
  case (Cons c s)
  then show ?case by (cases t) auto
qed

lemma cstr_at_nonzero: "cstr_at m p s \<Longrightarrow> c \<in> set s \<Longrightarrow> c \<noteq> 0"
  by (auto simp: cstr_at_def)

lemma cstr_at_append:
  "cstr_at m p (s @ t) \<longleftrightarrow> 0 \<notin> set s \<and> bytes_at m p s \<and> cstr_at m (p + of_nat (length s)) t"
  by (auto simp: cstr_at_def bytes_at_append)

lemma cstr_at_mapped: "cstr_at m p s \<Longrightarrow> mapped m p (Suc (length s))"
  using bytes_at_mapped [of m p "s @ [0]"] by (simp add: cstr_at_def)

lemma cstr_at_upd [simp]:
  "q \<notin> region p (Suc (length s)) \<Longrightarrow> cstr_at (m(q \<mapsto> b)) p s = cstr_at m p s"
  by (simp add: cstr_at_def)

lemma cstr_at_put_bytes_other:
  "region p (Suc (length s)) \<inter> region q (length cs) = {} \<Longrightarrow>
     cstr_at (put_bytes m q cs) p s = cstr_at m p s"
  by (simp add: cstr_at_def bytes_at_put_bytes_other)

text \<open>
  A string cannot be longer than the address space: its characters lie at different
  addresses, or the NUL would be one of them.
\<close>

lemma cstr_at_drop: "cstr_at m p s \<Longrightarrow> i \<le> length s \<Longrightarrow> cstr_at m (p + of_nat i) (drop i s)"
  using cstr_at_append [of m p "take i s" "drop i s"] by simp

lemma cstr_at_length: assumes "cstr_at m p s" shows "length s < 2 ^ 64"
proof (rule ccontr)
  assume "\<not> length s < 2 ^ 64"
  then have le: "2 ^ 64 \<le> length s" by simp
  have "(of_nat (2 ^ 64) :: u64) = 0" by simp
  then have "cstr_at m p (drop (2 ^ 64) s)"
    using cstr_at_drop [OF assms le] by (metis add.right_neutral)
  with assms have "s = drop (2 ^ 64) s" by (rule cstr_at_unique)
  then have "length s = length s - 2 ^ 64" by (metis length_drop)
  with le show False by simp
qed

subsection \<open>Loads of several bytes\<close>

text \<open>The target is little-endian: the byte at the address is the least significant.\<close>

fun read_le :: "mem \<Rightarrow> addr \<Rightarrow> nat \<Rightarrow> u64 option" where
  "read_le m p 0 = Some 0"
| "read_le m p (Suc n) = do {
     b \<leftarrow> m p;
     r \<leftarrow> read_le m (p + 1) n;
     Some (ucast b OR push_bit 8 r)
   }"

definition read64 :: "mem \<Rightarrow> addr \<Rightarrow> u64 option" where
  "read64 m p = read_le m p 8"

definition read32 :: "mem \<Rightarrow> addr \<Rightarrow> u32 option" where
  "read32 m p = map_option ucast (read_le m p 4)"

fun le_bytes :: "nat \<Rightarrow> u64 \<Rightarrow> u8 list" where
  "le_bytes 0 v = []"
| "le_bytes (Suc n) v = ucast v # le_bytes n (drop_bit 8 v)"

lemma length_le_bytes [simp]: "length (le_bytes n v) = n"
  by (induction n arbitrary: v) simp_all

lemma read_le_bytes:
  "bytes_at m p (le_bytes n v) \<Longrightarrow> read_le m p n = Some (take_bit (8 * n) v)"
proof (induction n arbitrary: p v)
  case (Suc n)
  have "ucast (ucast v :: u8) OR push_bit 8 (take_bit (8 * n) (drop_bit 8 v)) = take_bit (8 * Suc n) v"
    by (rule bit_word_eqI) (auto simp: bit_simps)
  moreover have "read_le m (p + 1) n = Some (take_bit (8 * n) (drop_bit 8 v))"
    using Suc by simp
  ultimately show ?case using Suc.prems by simp
qed simp

lemma read64_bytes: "bytes_at m p (le_bytes 8 v) \<Longrightarrow> read64 m p = Some v"
  using read_le_bytes [of m p 8 v] by (simp add: read64_def take_bit_word_eq_self)

lemma read64_unmapped: "m p = None \<Longrightarrow> read64 m p = None"
  by (simp add: read64_def eval_nat_numeral)

lemma read64_mapped: "mapped m p 8 \<Longrightarrow> \<exists>v. read64 m p = Some v"
  by (auto simp: read64_def eval_nat_numeral)

text \<open>Storing a word.\<close>

definition write64 :: "mem \<Rightarrow> addr \<Rightarrow> u64 \<Rightarrow> mem option" where
  "write64 m p v = (if mapped m p 8 then Some (put_bytes m p (le_bytes 8 v)) else None)"

end
