(* ===== verification/StrMem.thy ===== *)
theory StrMem
  imports Memory
begin

text \<open>
  The \<open>mem*\<close> routines of \<^verbatim>\<open>kernel/Source/util/string.c\<close>. Each counted loop is a
  recursive function on the 64-bit counter \<open>n\<close>; \<^verbatim>\<open>n--\<close> is the subtraction of one, so the
  loops stop by themselves and only an access outside mapped memory makes them fault.
  \<open>memcpy\<close> is shown to copy between disjoint objects, \<open>memmove\<close> between any two objects
  that do not wrap the address space, \<open>memset\<close> to fill, \<open>memcmp\<close> to order byte strings
  lexicographically and \<open>memchr\<close> to find the first occurrence.
\<close>

abbreviation (input) nullptr :: addr where
  "nullptr \<equiv> 0"

function copy_up :: "mem \<Rightarrow> addr \<Rightarrow> addr \<Rightarrow> usize \<Rightarrow> mem option" where
  "copy_up m d s n =
     (if n = 0 then Some m
      else do { b \<leftarrow> m s; m' \<leftarrow> write8 m d b; copy_up m' (d + 1) (s + 1) (n - 1) })"
  by pat_completeness auto
termination
  by (relation "measure (\<lambda>(m, d, s, n). unat n)") (auto intro: measure_unat)

function copy_down :: "mem \<Rightarrow> addr \<Rightarrow> addr \<Rightarrow> usize \<Rightarrow> mem option" where
  "copy_down m d s n =
     (if n = 0 then Some m
      else do { b \<leftarrow> m (s - 1); m' \<leftarrow> write8 m (d - 1) b; copy_down m' (d - 1) (s - 1) (n - 1) })"
  by pat_completeness auto
termination
  by (relation "measure (\<lambda>(m, d, s, n). unat n)") (auto intro: measure_unat)

definition memcpy :: "mem \<Rightarrow> addr \<Rightarrow> addr \<Rightarrow> usize \<Rightarrow> (mem \<times> addr) option" where
  "memcpy m dest src n = do { m' \<leftarrow> copy_up m dest src n; Some (m', dest) }"

definition memmove :: "mem \<Rightarrow> addr \<Rightarrow> addr \<Rightarrow> usize \<Rightarrow> (mem \<times> addr) option" where
  "memmove m dest src n = do {
     m' \<leftarrow> (if dest < src then copy_up m dest src n
            else copy_down m (dest + n) (src + n) n);
     Some (m', dest) }"

function memset_loop :: "mem \<Rightarrow> addr \<Rightarrow> u8 \<Rightarrow> usize \<Rightarrow> mem option" where
  "memset_loop m p c n =
     (if n = 0 then Some m
      else do { m' \<leftarrow> write8 m p c; memset_loop m' (p + 1) c (n - 1) })"
  by pat_completeness auto
termination
  by (relation "measure (\<lambda>(m, p, c, n). unat n)") (auto intro: measure_unat)

text \<open>The \<^verbatim>\<open>int\<close> value is converted to \<^verbatim>\<open>unsigned char\<close> by the assignment.\<close>

definition memset :: "mem \<Rightarrow> addr \<Rightarrow> int \<Rightarrow> usize \<Rightarrow> (mem \<times> addr) option" where
  "memset m s c n = do { m' \<leftarrow> memset_loop m s (word_of_int c) n; Some (m', s) }"

function memcmp :: "mem \<Rightarrow> addr \<Rightarrow> addr \<Rightarrow> usize \<Rightarrow> int option" where
  "memcmp m p1 p2 n =
     (if n = 0 then Some 0
      else do {
        a \<leftarrow> m p1; b \<leftarrow> m p2;
        if a \<noteq> b then Some (uchar_val a - uchar_val b)
        else memcmp m (p1 + 1) (p2 + 1) (n - 1) })"
  by pat_completeness auto
termination
  by (relation "measure (\<lambda>(m, p1, p2, n). unat n)") (auto intro: measure_unat)

text \<open>The byte is compared with the \<^verbatim>\<open>int\<close> argument as it is: no conversion of \<open>c\<close>.\<close>

function memchr :: "mem \<Rightarrow> addr \<Rightarrow> int \<Rightarrow> usize \<Rightarrow> addr option" where
  "memchr m s c n =
     (if n = 0 then Some nullptr
      else do { b \<leftarrow> m s; if uchar_val b = c then Some s else memchr m (s + 1) c (n - 1) })"
  by pat_completeness auto
termination
  by (relation "measure (\<lambda>(m, s, c, n). unat n)") (auto intro: measure_unat)

declare copy_up.simps [simp del] copy_down.simps [simp del] memset_loop.simps [simp del]
  memcmp.simps [simp del] memchr.simps [simp del]

lemmas mem_loops = copy_up.simps copy_down.simps memset_loop.simps memcmp.simps memchr.simps

declare mem_loops [run_simps]

subsection \<open>Copying\<close>

text \<open>
  The ascending loop reads byte \<open>i\<close> after it has written bytes \<open>0, \<dots>, i - 1\<close>: it copies
  correctly when no byte is overwritten before it is read.
\<close>

fun up_ok :: "addr \<Rightarrow> addr \<Rightarrow> nat \<Rightarrow> bool" where
  "up_ok d s 0 = True"
| "up_ok d s (Suc n) = (d \<notin> region (s + 1) n \<and> up_ok (d + 1) (s + 1) n)"

lemma up_ok_disjoint: "region d n \<inter> region s n = {} \<Longrightarrow> up_ok d s n"
proof (induction n arbitrary: d s)
  case 0
  then show ?case by simp
next
  case (Suc n)
  then show ?case by (intro iffD2 [OF up_ok.simps(2)] conjI Suc.IH) auto
qed

lemma up_ok_below:
  assumes "unat d < unat s" "unat s + n \<le> 2 ^ 64"
  shows "up_ok d s n"
  using assms
proof (induction n arbitrary: d s)
  case 0
  then show ?case by simp
next
  case (Suc n)
  show ?case
  proof (cases "n = 0")
    case True
    then show ?thesis by simp
  next
    case False
    then have s1: "unat (s + 1) = unat s + 1" and d1: "unat (d + 1) = unat d + 1"
      using Suc.prems unat_add_of_nat [of s 1] unat_add_of_nat [of d 1] by simp_all
    have "d \<notin> region (s + 1) n"
      using Suc.prems s1 by (subst in_region_iff) simp_all
    moreover have "up_ok (d + 1) (s + 1) n"
      using Suc.prems s1 d1 by (intro Suc.IH) simp_all
    ultimately show ?thesis by simp
  qed
qed

lemma copy_up_correct:
  "bytes_at m s bs \<Longrightarrow> mapped m d (length bs) \<Longrightarrow> up_ok d s (length bs) \<Longrightarrow>
     length bs < 2 ^ 64 \<Longrightarrow> copy_up m d s (of_nat (length bs)) = Some (put_bytes m d bs)"
proof (induction bs arbitrary: m d s)
  case Nil
  then show ?case by (simp add: copy_up.simps)
next
  case (Cons b bs)
  then obtain c where "m d = Some c" by auto
  moreover have "(of_nat (length (b # bs)) :: u64) \<noteq> 0"
    using Cons.prems(4) of_nat_64_eq_0 [of "length (b # bs)"] by simp
  moreover have "copy_up (m(d \<mapsto> b)) (d + 1) (s + 1) (of_nat (length bs))
      = Some (put_bytes (m(d \<mapsto> b)) (d + 1) bs)"
    using Cons.IH [of "m(d \<mapsto> b)" "s + 1" "d + 1"] Cons.prems by simp
  ultimately show ?case
    using Cons.prems(1) by (subst copy_up.simps) simp
qed

lemma copy_down_correct:
  "bytes_at m s bs \<Longrightarrow> mapped m d (length bs) \<Longrightarrow> unat s \<le> unat d \<Longrightarrow>
     unat d + length bs \<le> 2 ^ 64 \<Longrightarrow> length bs < 2 ^ 64 \<Longrightarrow>
     copy_down m (d + of_nat (length bs)) (s + of_nat (length bs)) (of_nat (length bs))
       = Some (put_bytes m d bs)"
proof (induction bs arbitrary: m rule: rev_induct)
  case Nil
  then show ?case by (simp add: copy_down.simps)
next
  case (snoc b bs)
  let ?k = "of_nat (length bs) :: u64"
  from snoc.prems obtain c where rd: "m (s + ?k) = Some b" and wr: "m (d + ?k) = Some c"
    by (auto simp: bytes_at_append mapped_add [of m d "length bs" 1, simplified])
  have nz: "(of_nat (length (bs @ [b])) :: u64) \<noteq> 0"
    using snoc.prems(5) of_nat_64_eq_0 [of "length (bs @ [b])"] by simp
  have "unat (d + ?k) = unat d + length bs"
    using snoc.prems by (intro unat_add_of_nat) simp
  then have "d + ?k \<notin> region s (length bs)"
    using snoc.prems by (subst in_region_iff) simp_all
  then have "copy_down (m(d + ?k \<mapsto> b)) (d + ?k) (s + ?k) ?k
      = Some (put_bytes (m(d + ?k \<mapsto> b)) d bs)"
    using snoc.IH [of "m(d + ?k \<mapsto> b)"] snoc.prems
    by (simp add: bytes_at_append mapped_add [of m d "length bs" 1, simplified])
  moreover have "put_bytes (m(d + ?k \<mapsto> b)) d bs = put_bytes m d (bs @ [b])"
    using snoc.prems by (simp add: put_bytes_append put_bytes_upd_other end_not_in_region)
  ultimately show ?case
    using rd wr nz by (subst copy_down.simps) (simp add: add.commute add.left_commute)
qed

text \<open>
  \<open>memcpy\<close> between disjoint objects stores exactly the source's bytes at the
  destination, changes nothing else and returns the destination pointer.
\<close>

theorem memcpy_correct:
  assumes "bytes_at m src bs" and "mapped m dest (length bs)"
    and "length bs < 2 ^ 64"
    and "region dest (length bs) \<inter> region src (length bs) = {}"
  shows "memcpy m dest src (of_nat (length bs)) = Some (put_bytes m dest bs, dest)"
  using assms copy_up_correct [OF assms(1,2) up_ok_disjoint] by (simp add: memcpy_def)

theorem memcpy_correct_witness:
  "memcpy (put_bytes Map.empty 16 [1, 2, 3, 9, 9, 9]) 19 16 (of_nat (length [1, 2, 3 :: u8]))
     = Some (put_bytes (put_bytes Map.empty 16 [1, 2, 3, 9, 9, 9]) 19 [1, 2, 3], 19)"
  by (rule memcpy_correct) simp_all

text \<open>
  C3: \<open>memmove\<close> gives the destination the bytes the source held before the call, however
  the two objects overlap: the direction it copies in never overwrites a byte it has yet
  to read. Neither object may wrap the address space.
\<close>

theorem memmove_correct:
  assumes "bytes_at m src bs" and "mapped m dest (length bs)"
    and "unat src + length bs \<le> 2 ^ 64" and "unat dest + length bs \<le> 2 ^ 64"
    and "length bs < 2 ^ 64"
  shows "memmove m dest src (of_nat (length bs)) = Some (put_bytes m dest bs, dest)"
proof (cases "dest < src")
  case True
  then have "up_ok dest src (length bs)"
    using assms by (intro up_ok_below) (simp_all add: word_less_nat_alt)
  with True assms show ?thesis
    by (simp add: memmove_def copy_up_correct)
next
  case False
  then have "unat src \<le> unat dest" by (simp add: word_less_nat_alt)
  with False assms show ?thesis
    by (simp add: memmove_def copy_down_correct)
qed

theorem memmove_correct_witness:
  "memmove (put_bytes Map.empty 16 [1, 2, 3, 4, 5]) 18 16 (of_nat (length [1, 2, 3 :: u8]))
     = Some (put_bytes (put_bytes Map.empty 16 [1, 2, 3, 4, 5]) 18 [1, 2, 3], 18)"
  by (rule memmove_correct) simp_all

lemma memset_loop_correct:
  "mapped m p n \<Longrightarrow> n < 2 ^ 64 \<Longrightarrow>
     memset_loop m p c (of_nat n) = Some (put_bytes m p (replicate n c))"
proof (induction n arbitrary: m p)
  case 0
  then show ?case by (simp add: memset_loop.simps)
next
  case (Suc n)
  then obtain d where "m p = Some d" by auto
  with Suc.prems show ?case
    using Suc.IH [of "m(p \<mapsto> c)" "p + 1"] of_nat_64_eq_0 [of "Suc n"]
    by (subst memset_loop.simps) simp
qed

lemma memset_correct:
  assumes "mapped m s n" "n < 2 ^ 64"
  shows "memset m s c (of_nat n) = Some (put_bytes m s (replicate n (word_of_int c)), s)"
  using assms by (simp add: memset_def memset_loop_correct)

subsection \<open>Comparing and searching\<close>

text \<open>
  The value the comparison routines return: the difference of the first two bytes that
  differ, read as \<^verbatim>\<open>unsigned char\<close>.
\<close>

fun byte_diff :: "u8 list \<Rightarrow> u8 list \<Rightarrow> int" where
  "byte_diff (x # xs) (y # ys) = (if x = y then byte_diff xs ys else uint x - uint y)"
| "byte_diff _ _ = 0"

lemma byte_diff_eq: "length xs = length ys \<Longrightarrow> byte_diff xs ys = 0 \<longleftrightarrow> xs = ys"
  by (induction xs ys rule: byte_diff.induct) (auto simp: word_uint_eq_iff)

lemma byte_diff_less: "length xs = length ys \<Longrightarrow> byte_diff xs ys < 0 \<longleftrightarrow> xs < ys"
  by (induction xs ys rule: byte_diff.induct) (auto simp: word_less_def)

lemma memcmp_byte_diff:
  "bytes_at m p xs \<Longrightarrow> bytes_at m q ys \<Longrightarrow> length xs = length ys \<Longrightarrow> length xs < 2 ^ 64 \<Longrightarrow>
     memcmp m p q (of_nat (length xs)) = Some (byte_diff xs ys)"
proof (induction xs arbitrary: p q ys)
  case Nil
  then show ?case by (simp add: memcmp.simps)
next
  case (Cons x xs)
  then obtain y ys' where "ys = y # ys'" by (cases ys) auto
  with Cons.prems show ?case
    using Cons.IH [of "p + 1" "q + 1" ys'] of_nat_64_eq_0 [of "Suc (length xs)"]
    by (subst memcmp.simps) simp
qed

text \<open>
  C19: \<open>memcmp\<close> of two objects of \<open>n\<close> bytes is zero exactly when they hold the same bytes
  and negative exactly when the first is lexicographically smaller, bytes read unsigned.
\<close>

theorem memcmp_lexicographic:
  assumes "bytes_at m p xs" and "bytes_at m q ys" and "length xs = length ys"
    and "length xs < 2 ^ 64"
  shows "\<exists>r. memcmp m p q (of_nat (length xs)) = Some r
    \<and> (r = 0 \<longleftrightarrow> xs = ys) \<and> (r < 0 \<longleftrightarrow> xs < ys)"
  using memcmp_byte_diff [OF assms] byte_diff_eq [OF assms(3)] byte_diff_less [OF assms(3)]
  by simp

theorem memcmp_lexicographic_witness:
  "\<exists>r. memcmp (put_bytes Map.empty 16 [1, 2, 1, 200]) 16 18 (of_nat (length [1, 2 :: u8])) = Some r
    \<and> (r = 0 \<longleftrightarrow> [1, 2 :: u8] = [1, 200]) \<and> (r < 0 \<longleftrightarrow> [1, 2 :: u8] < [1, 200])"
  by (rule memcmp_lexicographic) simp_all

lemma memchr_found:
  "bytes_at m s (xs @ [b]) \<Longrightarrow> uint b = c \<Longrightarrow> \<forall>x \<in> set xs. uint x \<noteq> c \<Longrightarrow>
     length xs < unat n \<Longrightarrow> memchr m s c n = Some (s + of_nat (length xs))"
proof (induction xs arbitrary: s n)
  case Nil
  then have "n \<noteq> 0" by auto
  with Nil show ?case by (subst memchr.simps) simp
next
  case (Cons x xs)
  then have "n \<noteq> 0" by auto
  moreover from this Cons.prems(4) have "length xs < unat (n - 1)"
    by (simp add: unat_minus_one)
  ultimately show ?case
    using Cons by (subst memchr.simps) (simp add: add.assoc)
qed

lemma memchr_absent:
  "bytes_at m s xs \<Longrightarrow> \<forall>x \<in> set xs. uint x \<noteq> c \<Longrightarrow> length xs < 2 ^ 64 \<Longrightarrow>
     memchr m s c (of_nat (length xs)) = Some nullptr"
proof (induction xs arbitrary: s)
  case Nil
  then show ?case by (simp add: memchr.simps)
next
  case (Cons x xs)
  then show ?case
    using of_nat_64_eq_0 [of "Suc (length xs)"] by (subst memchr.simps) simp
qed

text \<open>
  A search for a value outside the range of a byte never succeeds: \<open>c\<close> is not converted
  to \<^verbatim>\<open>unsigned char\<close> first, as the standard's \<^verbatim>\<open>memchr\<close> does, so a plain negative
  \<^verbatim>\<open>char\<close> is never found.
\<close>

lemma memchr_no_conversion:
  assumes "bytes_at m s xs" "length xs < 2 ^ 64" "c < 0 \<or> 255 < c"
  shows "memchr m s c (of_nat (length xs)) = Some nullptr"
proof (rule memchr_absent [OF assms(1) _ assms(2)], rule ballI)
  fix x :: u8
  have "uint x < 256" using uint_lt2p [of x] by simp
  then show "uint x \<noteq> c" using assms(3) uint_ge_0 [of x] by auto
qed

end
