(* ===== verification/StrFun.thy ===== *)
theory StrFun
  imports StrMem
begin

text \<open>
  The routines of \<^verbatim>\<open>kernel/Source/util/string.c\<close> on NUL-terminated strings. A loop that
  stops at the NUL is a \<open>partial_function\<close>: it may read an unmapped address, and where the
  whole address space holds no zero byte it never returns; both are \<open>None\<close>. That each
  routine returns on a C string (\<open>cstr_at\<close>) is part of every correctness lemma.
\<close>

subsection \<open>Length\<close>

partial_function (option) strlen_loop :: "mem \<Rightarrow> addr \<Rightarrow> addr option" where
  "strlen_loop m p = do { c \<leftarrow> m p; if c \<noteq> 0 then strlen_loop m (p + 1) else Some p }"

definition strlen :: "mem \<Rightarrow> addr \<Rightarrow> usize option" where
  "strlen m s = do { p \<leftarrow> strlen_loop m s; Some (p - s) }"

function strnlen_loop :: "mem \<Rightarrow> addr \<Rightarrow> usize \<Rightarrow> addr option" where
  "strnlen_loop m p maxlen = do {
     c \<leftarrow> m p;
     if c = 0 then Some p
     else if maxlen = 0 then Some p
     else strnlen_loop m (p + 1) (maxlen - 1) }"
  by pat_completeness auto
termination
  by (relation "measure (\<lambda>(m, p, n). unat n)") (auto intro: measure_unat)

definition strnlen :: "mem \<Rightarrow> addr \<Rightarrow> usize \<Rightarrow> usize option" where
  "strnlen m s maxlen =
     (if maxlen = size_max then do { p \<leftarrow> strlen_loop m s; Some (p - s) }
      else do { p \<leftarrow> strnlen_loop m s maxlen; Some (p - s) })"

subsection \<open>Copying and concatenation\<close>

partial_function (option) strcpy_loop :: "mem \<Rightarrow> addr \<Rightarrow> addr \<Rightarrow> mem option" where
  "strcpy_loop m d s = do {
     c \<leftarrow> m s; m' \<leftarrow> write8 m d c;
     if c \<noteq> 0 then strcpy_loop m' (d + 1) (s + 1) else Some m' }"

definition strcpy :: "mem \<Rightarrow> addr \<Rightarrow> addr \<Rightarrow> (mem \<times> addr) option" where
  "strcpy m dest src = do { m' \<leftarrow> strcpy_loop m dest src; Some (m', dest) }"

text \<open>
  The first loop of \<open>strncpy\<close> gives the memory, the pointer \<open>d\<close> and the counter it leaves
  behind: the iteration that copies the NUL advances \<open>d\<close> and does not decrement \<open>n\<close>.
\<close>

function strncpy_copy :: "mem \<Rightarrow> addr \<Rightarrow> addr \<Rightarrow> usize \<Rightarrow> (mem \<times> addr \<times> usize) option" where
  "strncpy_copy m d s n =
     (if n = 0 then Some (m, d, n)
      else do {
        c \<leftarrow> m s; m' \<leftarrow> write8 m d c;
        if c \<noteq> 0 then strncpy_copy m' (d + 1) (s + 1) (n - 1) else Some (m', d + 1, n) })"
  by pat_completeness auto
termination
  by (relation "measure (\<lambda>(m, d, s, n). unat n)") (auto intro: measure_unat)

definition strncpy :: "mem \<Rightarrow> addr \<Rightarrow> addr \<Rightarrow> usize \<Rightarrow> (mem \<times> addr) option" where
  "strncpy m dest src n = do {
     (m1, d, n1) \<leftarrow> strncpy_copy m dest src n;
     m2 \<leftarrow> memset_loop m1 d 0 n1;
     Some (m2, dest) }"

definition strcat :: "mem \<Rightarrow> addr \<Rightarrow> addr \<Rightarrow> (mem \<times> addr) option" where
  "strcat m dest src = do {
     d \<leftarrow> strlen_loop m dest;
     m' \<leftarrow> strcpy_loop m d src;
     Some (m', dest) }"

function strncat_copy :: "mem \<Rightarrow> addr \<Rightarrow> addr \<Rightarrow> usize \<Rightarrow> (mem \<times> addr \<times> usize) option" where
  "strncat_copy m d s n =
     (if n = 0 then Some (m, d, n - 1)
      else do {
        c \<leftarrow> m s; m' \<leftarrow> write8 m d c;
        if c \<noteq> 0 then strncat_copy m' (d + 1) (s + 1) (n - 1) else Some (m', d + 1, n - 1) })"
  by pat_completeness auto
termination
  by (relation "measure (\<lambda>(m, d, s, n). unat n)") (auto intro: measure_unat)

definition strncat :: "mem \<Rightarrow> addr \<Rightarrow> addr \<Rightarrow> usize \<Rightarrow> (mem \<times> addr) option" where
  "strncat m dest src n = do {
     d \<leftarrow> strlen_loop m dest;
     (m1, d1, n1) \<leftarrow> strncat_copy m d src n;
     m2 \<leftarrow> (if n1 = size_max then write8 m1 d1 0 else Some m1);
     Some (m2, dest) }"

subsection \<open>Comparison\<close>

partial_function (option) strcmp :: "mem \<Rightarrow> addr \<Rightarrow> addr \<Rightarrow> int option" where
  "strcmp m s1 s2 = do {
     a \<leftarrow> m s1; b \<leftarrow> m s2;
     if a \<noteq> 0 \<and> a = b then strcmp m (s1 + 1) (s2 + 1)
     else Some (uchar_val a - uchar_val b) }"

function strncmp_loop :: "mem \<Rightarrow> addr \<Rightarrow> addr \<Rightarrow> usize \<Rightarrow> int option" where
  "strncmp_loop m s1 s2 n = do {
     a \<leftarrow> m s1; b \<leftarrow> m s2;
     if n \<noteq> 0 \<and> a \<noteq> 0 \<and> a = b \<and> n - 1 \<noteq> 0 then strncmp_loop m (s1 + 1) (s2 + 1) (n - 1)
     else Some (uchar_val a - uchar_val b) }"
  by pat_completeness auto
termination
  by (relation "measure (\<lambda>(m, s1, s2, n). unat n)") (auto intro: measure_unat)

definition strncmp :: "mem \<Rightarrow> addr \<Rightarrow> addr \<Rightarrow> usize \<Rightarrow> int option" where
  "strncmp m s1 s2 n = (if n = 0 then Some 0 else strncmp_loop m s1 s2 n)"

subsection \<open>Searching\<close>

partial_function (option) strchr :: "mem \<Rightarrow> addr \<Rightarrow> int \<Rightarrow> addr option" where
  "strchr m s c = do {
     b \<leftarrow> m s;
     if b \<noteq> 0 then (if char_val b = c then Some s else strchr m (s + 1) c)
     else Some (if c = 0 then s else nullptr) }"

partial_function (option) strrchr_loop :: "mem \<Rightarrow> addr \<Rightarrow> int \<Rightarrow> addr \<Rightarrow> addr option" where
  "strrchr_loop m s c last_p = do {
     b \<leftarrow> m s;
     if b \<noteq> 0 then strrchr_loop m (s + 1) c (if char_val b = c then s else last_p)
     else Some (if char_val b = c then s else last_p) }"

definition strrchr :: "mem \<Rightarrow> addr \<Rightarrow> int \<Rightarrow> addr option" where
  "strrchr m s c = strrchr_loop m s c nullptr"

text \<open>
  The inner loop of \<open>strspn\<close> leaves the pointer \<open>a\<close> at the character or at the NUL; the
  result is the byte it points to.
\<close>

partial_function (option) accept_scan :: "mem \<Rightarrow> addr \<Rightarrow> u8 \<Rightarrow> u8 option" where
  "accept_scan m a c = do {
     x \<leftarrow> m a; if x \<noteq> 0 \<and> x \<noteq> c then accept_scan m (a + 1) c else Some x }"

partial_function (option) strspn_loop :: "mem \<Rightarrow> addr \<Rightarrow> addr \<Rightarrow> addr option" where
  "strspn_loop m p accept = do {
     c \<leftarrow> m p;
     if c \<noteq> 0 then do {
       x \<leftarrow> accept_scan m accept c;
       if x = 0 then Some p else strspn_loop m (p + 1) accept }
     else Some p }"

definition strspn :: "mem \<Rightarrow> addr \<Rightarrow> addr \<Rightarrow> usize option" where
  "strspn m s accept = do { p \<leftarrow> strspn_loop m s accept; Some (p - s) }"

text \<open>The inner loop of \<open>strcspn\<close> and \<open>strpbrk\<close>: whether the character is in the set.\<close>

partial_function (option) reject_scan :: "mem \<Rightarrow> addr \<Rightarrow> u8 \<Rightarrow> bool option" where
  "reject_scan m r c = do {
     x \<leftarrow> m r;
     if x \<noteq> 0 then (if c = x then Some True else reject_scan m (r + 1) c) else Some False }"

partial_function (option) strcspn_loop :: "mem \<Rightarrow> addr \<Rightarrow> addr \<Rightarrow> addr option" where
  "strcspn_loop m p reject = do {
     c \<leftarrow> m p;
     if c \<noteq> 0 then do {
       hit \<leftarrow> reject_scan m reject c;
       if hit then Some p else strcspn_loop m (p + 1) reject }
     else Some p }"

definition strcspn :: "mem \<Rightarrow> addr \<Rightarrow> addr \<Rightarrow> usize option" where
  "strcspn m s reject = do { p \<leftarrow> strcspn_loop m s reject; Some (p - s) }"

partial_function (option) strpbrk :: "mem \<Rightarrow> addr \<Rightarrow> addr \<Rightarrow> addr option" where
  "strpbrk m s accept = do {
     c \<leftarrow> m s;
     if c \<noteq> 0 then do {
       hit \<leftarrow> reject_scan m accept c;
       if hit then Some s else strpbrk m (s + 1) accept }
     else Some nullptr }"

text \<open>The comparison loop of \<open>strstr\<close>: whether it ends at the needle's NUL.\<close>

partial_function (option) strstr_match :: "mem \<Rightarrow> addr \<Rightarrow> addr \<Rightarrow> bool option" where
  "strstr_match m h n = do {
     a \<leftarrow> m h; b \<leftarrow> m n;
     if a \<noteq> 0 \<and> b \<noteq> 0 \<and> a = b then strstr_match m (h + 1) (n + 1) else Some (b = 0) }"

partial_function (option) strstr_loop :: "mem \<Rightarrow> addr \<Rightarrow> addr \<Rightarrow> addr option" where
  "strstr_loop m haystack needle = do {
     c \<leftarrow> m haystack;
     if c \<noteq> 0 then do {
       n0 \<leftarrow> m needle;
       if c \<noteq> n0 then strstr_loop m (haystack + 1) needle
       else do {
         hit \<leftarrow> strstr_match m haystack needle;
         if hit then Some haystack else strstr_loop m (haystack + 1) needle } }
     else Some nullptr }"

definition strstr :: "mem \<Rightarrow> addr \<Rightarrow> addr \<Rightarrow> addr option" where
  "strstr m haystack needle = do {
     n0 \<leftarrow> m needle;
     if n0 = 0 then Some haystack else strstr_loop m haystack needle }"

declare strnlen_loop.simps [simp del] strncpy_copy.simps [simp del]
  strncat_copy.simps [simp del] strncmp_loop.simps [simp del]

lemmas str_loops = strlen_loop.simps strnlen_loop.simps strcpy_loop.simps strncpy_copy.simps
  strncat_copy.simps strcmp.simps strncmp_loop.simps strchr.simps strrchr_loop.simps
  accept_scan.simps strspn_loop.simps reject_scan.simps strcspn_loop.simps strpbrk.simps
  strstr_match.simps strstr_loop.simps

declare str_loops [run_simps]

subsection \<open>Length\<close>

lemma strlen_loop_cstr: "cstr_at m p s \<Longrightarrow> strlen_loop m p = Some (p + of_nat (length s))"
proof (induction s arbitrary: p)
  case Nil
  then show ?case by (subst strlen_loop.simps) simp
next
  case (Cons c s)
  then show ?case by (subst strlen_loop.simps) (simp add: add.assoc)
qed

lemma strlen_correct: "cstr_at m p s \<Longrightarrow> strlen m p = Some (of_nat (length s))"
  by (simp add: strlen_def strlen_loop_cstr)

lemma strnlen_loop_cstr:
  "cstr_at m p s \<Longrightarrow> strnlen_loop m p n = Some (p + of_nat (min (length s) (unat n)))"
proof (induction s arbitrary: p n)
  case Nil
  then show ?case by (subst strnlen_loop.simps) simp
next
  case (Cons c s)
  show ?case
  proof (cases "n = 0")
    case True
    with Cons.prems show ?thesis by (subst strnlen_loop.simps) simp
  next
    case False
    then obtain k where k: "unat n = Suc k" by (metis not0_implies_Suc unat_eq_zero)
    then have "unat (n - 1) = k" using False by (simp add: unat_minus_one)
    with False k Cons show ?thesis by (subst strnlen_loop.simps) (simp add: add.assoc)
  qed
qed

text \<open>\<open>strnlen\<close> of a C string is the smaller of its length and the bound.\<close>

theorem strnlen_correct:
  assumes "cstr_at m p s"
  shows "strnlen m p n = Some (of_nat (min (length s) (unat n)))"
proof (cases "n = size_max")
  case True
  then have "unat n = 2 ^ 64 - 1" by (simp only: unat_size_max)
  with True cstr_at_length [OF assms] assms show ?thesis
    by (simp add: strnlen_def strlen_loop_cstr min_def)
next
  case False
  with assms show ?thesis by (simp add: strnlen_def strnlen_loop_cstr)
qed

theorem strnlen_correct_witness:
  "strnlen (put_bytes Map.empty 16 [65, 66, 67, 0]) 16 2 = Some (of_nat (min (length [65, 66, 67 :: u8]) (unat (2 :: usize))))"
  by (rule strnlen_correct) simp

text \<open>
  The loop tests the byte before the bound, so a buffer of exactly \<open>n\<close> bytes without a
  NUL is read one byte past its end.
\<close>

lemma strnlen_loop_overread:
  "bytes_at m p xs \<Longrightarrow> 0 \<notin> set xs \<Longrightarrow> m (p + of_nat (length xs)) = None \<Longrightarrow>
     length xs \<le> unat n \<Longrightarrow> strnlen_loop m p n = None"
proof (induction xs arbitrary: p n)
  case Nil
  then show ?case by (subst strnlen_loop.simps) simp
next
  case (Cons x xs)
  then have "n \<noteq> 0" by auto
  with Cons.prems(4) have "length xs \<le> unat (n - 1)" by (simp add: unat_minus_one)
  with \<open>n \<noteq> 0\<close> Cons show ?case by (subst strnlen_loop.simps) (simp add: add.assoc)
qed

text \<open>
  On a buffer of \<open>n\<close> non-NUL bytes whose end is not mapped, \<open>strnlen\<close> with the bound
  \<open>n\<close> faults instead of returning \<open>n\<close>: it dereferences \<open>s[n]\<close>.
\<close>

theorem strnlen_reads_past_bound:
  assumes "bytes_at m p xs" and "0 \<notin> set xs" and "n = of_nat (length xs)"
    and "length xs < 2 ^ 64 - 1" and "m (p + n) = None"
  shows "strnlen m p n = None"
proof -
  have u: "unat n = length xs"
    using assms(3,4) unat_of_nat_64 [of "length xs"] by simp
  have "n \<noteq> size_max"
  proof
    assume "n = size_max"
    then have "unat n = 2 ^ 64 - 1" by (simp only: unat_size_max)
    with u assms(4) show False by simp
  qed
  with assms u strnlen_loop_overread [of m p xs n] show ?thesis
    by (simp add: strnlen_def)
qed

theorem strnlen_reads_past_bound_witness: "strnlen (put_bytes Map.empty 16 [65, 66]) 16 2 = None"
  by (rule strnlen_reads_past_bound [of _ _ "[65, 66]"]) simp_all

subsection \<open>Copying and concatenation\<close>

lemma strcpy_loop_cstr:
  "cstr_at m s str \<Longrightarrow> mapped m d (Suc (length str)) \<Longrightarrow>
     region d (Suc (length str)) \<inter> region s (Suc (length str)) = {} \<Longrightarrow>
     strcpy_loop m d s = Some (put_bytes m d (str @ [0]))"
proof (induction str arbitrary: m d s)
  case Nil
  then show ?case by (subst strcpy_loop.simps) auto
next
  case (Cons c str)
  then obtain x where "m d = Some x" by auto
  moreover have "d \<notin> region (s + 1) (Suc (length str))"
    using Cons.prems(3) by auto
  moreover have "region (d + 1) (Suc (length str)) \<inter> region (s + 1) (Suc (length str)) = {}"
    using Cons.prems(3) by auto
  ultimately show ?case
    using Cons.IH [of "m(d \<mapsto> c)" "s + 1" "d + 1"] Cons.prems(1,2)
    by (subst strcpy_loop.simps) simp
qed

lemma strcpy_correct:
  assumes "cstr_at m src s" "mapped m dest (Suc (length s))"
    and "region dest (Suc (length s)) \<inter> region src (Suc (length s)) = {}"
  shows "strcpy m dest src = Some (put_bytes m dest (s @ [0]), dest)"
  using assms by (simp add: strcpy_def strcpy_loop_cstr del: region_Suc mapped.simps)

lemma cstr_at_put_bytes:
  "0 \<notin> set s \<Longrightarrow> length s < 2 ^ 64 \<Longrightarrow> cstr_at (put_bytes m d (s @ [0])) d s"
  by (simp add: cstr_at_def bytes_at_put_bytes)

text \<open>The two ways the first loop of \<open>strncpy\<close> ends: the bound is reached, or the NUL.\<close>

lemma strncpy_copy_long:
  "cstr_at m s str \<Longrightarrow> k \<le> length str \<Longrightarrow> k < 2 ^ 64 \<Longrightarrow> mapped m d k \<Longrightarrow>
     region d k \<inter> region s (Suc (length str)) = {} \<Longrightarrow>
     strncpy_copy m d s (of_nat k) = Some (put_bytes m d (take k str), d + of_nat k, 0)"
proof (induction k arbitrary: m d s str)
  case 0
  then show ?case by (simp add: strncpy_copy.simps)
next
  case (Suc k)
  then obtain c str' where str: "str = c # str'" by (cases str) auto
  from Suc.prems obtain x where "m d = Some x" by auto
  moreover have "(of_nat (Suc k) :: u64) \<noteq> 0"
    using Suc.prems(3) of_nat_64_eq_0 [of "Suc k"] by simp
  moreover have "d \<notin> region (s + 1) (Suc (length str'))"
    and "region (d + 1) k \<inter> region (s + 1) (Suc (length str')) = {}"
    using Suc.prems(5) str by auto
  ultimately show ?case
    using Suc.IH [of "m(d \<mapsto> c)" "s + 1" str' "d + 1"] Suc.prems(1-4) str
    by (subst strncpy_copy.simps) (simp add: add.assoc)
qed

lemma strncpy_copy_short:
  "cstr_at m s str \<Longrightarrow> length str < unat n \<Longrightarrow> mapped m d (Suc (length str)) \<Longrightarrow>
     region d (Suc (length str)) \<inter> region s (Suc (length str)) = {} \<Longrightarrow>
     strncpy_copy m d s n =
       Some (put_bytes m d (str @ [0]), d + of_nat (Suc (length str)), n - of_nat (length str))"
proof (induction str arbitrary: m d s n)
  case Nil
  then show ?case by (subst strncpy_copy.simps) auto
next
  case (Cons c str)
  then obtain x where "m d = Some x" by auto
  moreover from Cons.prems(2) have nz: "n \<noteq> 0" by auto
  moreover from nz Cons.prems(2) have "length str < unat (n - 1)"
    by (simp add: unat_minus_one)
  moreover have "d \<notin> region (s + 1) (Suc (length str))"
    and "region (d + 1) (Suc (length str)) \<inter> region (s + 1) (Suc (length str)) = {}"
    using Cons.prems(4) by auto
  ultimately show ?case
    using Cons.IH [of "m(d \<mapsto> c)" "s + 1" "n - 1" "d + 1"] Cons.prems(1,3)
    by (subst strncpy_copy.simps) (simp add: algebra_simps)
qed

lemma strncpy_long:
  assumes "cstr_at m src s" "unat n \<le> length s" "mapped m dest (unat n)"
    and "region dest (unat n) \<inter> region src (Suc (length s)) = {}"
  shows "strncpy m dest src n = Some (put_bytes m dest (take (unat n) s), dest)"
  using assms strncpy_copy_long [of m src s "unat n" dest] unat_less_size [of n]
  by (simp add: strncpy_def memset_loop.simps del: region_Suc)

text \<open>
  When the string is shorter than the bound, the loop that pads runs once too often: the
  string, its NUL and \<open>n\<close> minus the length further NULs are \<open>n + 1\<close> bytes.
\<close>

lemma strncpy_short:
  assumes "cstr_at m src s" and "length s < unat n" and "mapped m dest (Suc (unat n))"
    and "region dest (Suc (length s)) \<inter> region src (Suc (length s)) = {}"
  shows "strncpy m dest src n
    = Some (put_bytes m dest (s @ replicate (Suc (unat n - length s)) 0), dest)"
proof -
  let ?k = "unat n - length s" and ?m1 = "put_bytes m dest (s @ [0])"
  let ?d1 = "dest + of_nat (Suc (length s))"
  have split: "Suc (unat n) = Suc (length s) + ?k" using assms(2) by simp
  then have map1: "mapped m dest (Suc (length s))" and map2: "mapped m ?d1 ?k"
    using assms(3) mapped_add [of m dest "Suc (length s)" ?k] by (auto simp only: split)
  have n1: "n - of_nat (length s) = of_nat ?k"
    using assms(2) by (simp add: of_nat_unat_64)
  have "?k < 2 ^ 64" using unat_less_size [of n] by simp
  then have "memset_loop ?m1 ?d1 0 (of_nat ?k) = Some (put_bytes ?m1 ?d1 (replicate ?k 0))"
    using map2 by (intro memset_loop_correct) simp_all
  moreover have "put_bytes ?m1 ?d1 (replicate ?k 0)
      = put_bytes m dest (s @ replicate (Suc ?k) 0)"
    using put_bytes_append [of m dest "s @ [0]" "replicate ?k 0"] by simp
  moreover have "strncpy_copy m dest src n = Some (?m1, ?d1, of_nat ?k)"
    using strncpy_copy_short [OF assms(1,2) map1 assms(4)] n1 by simp
  ultimately show ?thesis by (simp add: strncpy_def)
qed

text \<open>
  \<open>strncpy\<close> of a string shorter than the bound fills the \<open>n\<close> bytes of the destination
  as it should, with the string and NULs, and then overwrites one byte past them: the byte
  at \<open>dest + n\<close> is zero afterwards, whatever it was.
\<close>

theorem strncpy_writes_past_bound:
  assumes "cstr_at m src s" and "length s < unat n" and "n \<noteq> size_max"
    and "mapped m dest (Suc (unat n))"
    and "region dest (Suc (length s)) \<inter> region src (Suc (length s)) = {}"
  shows "\<exists>m'. strncpy m dest src n = Some (m', dest)
    \<and> bytes_at m' dest (s @ replicate (unat n - length s) 0) \<and> m' (dest + n) = Some 0"
proof -
  let ?bs = "s @ replicate (unat n - length s) (0 :: u8)"
  have "unat n \<noteq> 2 ^ 64 - 1" using assms(3) unat_eq_size_max by blast
  then have "unat n < 2 ^ 64 - 1" using unat_less_size [of n] by simp
  then have "bytes_at (put_bytes m dest (?bs @ [0])) dest (?bs @ [0])"
    using assms(2) by (intro bytes_at_put_bytes) simp
  then have "bytes_at (put_bytes m dest (?bs @ [0])) dest ?bs"
    and "put_bytes m dest (?bs @ [0]) (dest + of_nat (length ?bs)) = Some 0"
    by (simp_all only: bytes_at_append bytes_at.simps)
  moreover have "s @ replicate (Suc (unat n - length s)) 0 = ?bs @ [0 :: u8]"
    by (simp add: replicate_append_same)
  ultimately show ?thesis
    using strncpy_short [OF assms(1,2,4,5)] assms(2) by simp
qed

theorem strncpy_writes_past_bound_witness:
  "\<exists>m'. strncpy (put_bytes Map.empty 16 [65, 0, 9, 9, 9, 9]) 18 16 3 = Some (m', 18)
    \<and> bytes_at m' 18 ([65] @ replicate (unat (3 :: usize) - length [65 :: u8]) 0)
    \<and> m' (18 + 3) = Some 0"
  by (rule strncpy_writes_past_bound) simp_all

text \<open>
  Appending to a string: when the terminated text \<open>t\<close> is stored over the NUL of \<open>a\<close>, the
  destination holds the concatenation.
\<close>

lemma cstr_at_append_put:
  assumes "cstr_at m d a" and "0 \<notin> set t" and "length a + length t < 2 ^ 64"
  shows "cstr_at (put_bytes m (d + of_nat (length a)) (t @ [0])) d (a @ t)"
proof -
  let ?e = "d + of_nat (length a)"
  have disj: "region d (length a) \<inter> region ?e (Suc (length t)) = {}"
    using assms(3) by (intro region_split_disjoint) simp
  have "0 \<notin> set a" "bytes_at m d a"
    using assms(1) by (auto simp: cstr_at_def bytes_at_append)
  moreover have "cstr_at (put_bytes m ?e (t @ [0])) ?e t"
    using assms by (intro cstr_at_put_bytes) simp_all
  ultimately show ?thesis
    using disj bytes_at_put_bytes_other [of d a ?e "t @ [0]" m]
    by (simp add: cstr_at_append del: region_Suc)
qed

text \<open>
  \<open>strcat\<close> leaves the concatenation of the two strings at the destination, provided the
  destination object has room for it and does not overlap the source string.
\<close>

theorem strcat_concatenates:
  assumes "cstr_at m dest a" and "cstr_at m src b"
    and "mapped m dest (Suc (length a + length b))" and "length a + length b < 2 ^ 64"
    and "region dest (Suc (length a + length b)) \<inter> region src (Suc (length b)) = {}"
  shows "\<exists>m'. strcat m dest src = Some (m', dest) \<and> cstr_at m' dest (a @ b)"
proof -
  let ?e = "dest + of_nat (length a)"
  have sub: "length a + Suc (length b) \<le> Suc (length a + length b)" by simp
  have "strcpy_loop m ?e src = Some (put_bytes m ?e (b @ [0]))"
    using assms mapped_sub [OF assms(3) sub] region_sub [OF sub, of dest]
    by (intro strcpy_loop_cstr) blast+
  moreover have "cstr_at (put_bytes m ?e (b @ [0])) dest (a @ b)"
    using assms by (intro cstr_at_append_put) (auto simp: cstr_at_def)
  ultimately show ?thesis
    using strlen_loop_cstr [OF assms(1)] by (simp add: strcat_def)
qed

theorem strcat_concatenates_witness:
  "\<exists>m'. strcat (put_bytes Map.empty 16 [65, 0, 9, 66, 0]) 16 19 = Some (m', 16)
    \<and> cstr_at m' 16 ([65] @ [66])"
  by (rule strcat_concatenates) simp_all

lemma strncat_copy_long:
  "cstr_at m s str \<Longrightarrow> k \<le> length str \<Longrightarrow> k < 2 ^ 64 \<Longrightarrow> mapped m d k \<Longrightarrow>
     region d k \<inter> region s (Suc (length str)) = {} \<Longrightarrow>
     strncat_copy m d s (of_nat k) = Some (put_bytes m d (take k str), d + of_nat k, size_max)"
proof (induction k arbitrary: m d s str)
  case 0
  then show ?case by (simp add: strncat_copy.simps)
next
  case (Suc k)
  then obtain c str' where str: "str = c # str'" by (cases str) auto
  from Suc.prems obtain x where "m d = Some x" by auto
  moreover have "(of_nat (Suc k) :: u64) \<noteq> 0"
    using Suc.prems(3) of_nat_64_eq_0 [of "Suc k"] by simp
  moreover have "d \<notin> region (s + 1) (Suc (length str'))"
    and "region (d + 1) k \<inter> region (s + 1) (Suc (length str')) = {}"
    using Suc.prems(5) str by auto
  ultimately show ?case
    using Suc.IH [of "m(d \<mapsto> c)" "s + 1" str' "d + 1"] Suc.prems(1-4) str
    by (subst strncat_copy.simps) (simp add: add.assoc)
qed

lemma strncat_copy_short:
  "cstr_at m s str \<Longrightarrow> length str < unat n \<Longrightarrow> mapped m d (Suc (length str)) \<Longrightarrow>
     region d (Suc (length str)) \<inter> region s (Suc (length str)) = {} \<Longrightarrow>
     \<exists>d1 n1. strncat_copy m d s n = Some (put_bytes m d (str @ [0]), d1, n1) \<and> n1 \<noteq> size_max"
proof (induction str arbitrary: m d s n)
  case Nil
  then have "n \<noteq> 0" by auto
  then have "n - 1 \<noteq> size_max" by simp
  with Nil show ?case by (subst strncat_copy.simps) auto
next
  case (Cons c str)
  then obtain x where "m d = Some x" by auto
  moreover from Cons.prems(2) have nz: "n \<noteq> 0" by auto
  moreover from nz Cons.prems(2) have "length str < unat (n - 1)"
    by (simp add: unat_minus_one)
  moreover have "d \<notin> region (s + 1) (Suc (length str))"
    and "region (d + 1) (Suc (length str)) \<inter> region (s + 1) (Suc (length str)) = {}"
    using Cons.prems(4) by auto
  ultimately show ?case
    using Cons.IH [of "m(d \<mapsto> c)" "s + 1" "n - 1" "d + 1"] Cons.prems(1,3)
    by (subst strncat_copy.simps) (simp add: algebra_simps)
qed

text \<open>Both ways the loop ends, the text appended is at most \<open>n\<close> characters and a NUL.\<close>

lemma strncat_put:
  assumes "cstr_at m dest a" and "cstr_at m src b" and "k = min (unat n) (length b)"
    and "mapped m dest (Suc (length a + k))" and "length a + k < 2 ^ 64"
    and "region dest (Suc (length a + k)) \<inter> region src (Suc (length b)) = {}"
  shows "strncat m dest src n
    = Some (put_bytes m (dest + of_nat (length a)) (take (unat n) b @ [0]), dest)"
proof -
  let ?e = "dest + of_nat (length a)"
  have sub: "length a + Suc k \<le> Suc (length a + k)" by simp
  have mp: "mapped m ?e (Suc k)" by (rule mapped_sub [OF assms(4) sub])
  have dj: "region ?e (Suc k) \<inter> region src (Suc (length b)) = {}"
    using region_sub [OF sub, of dest] assms(6) by blast
  show ?thesis
  proof (cases "unat n \<le> length b")
    case True
    then have k: "k = unat n" using assms(3) by simp
    have "mapped m ?e k" and "region ?e k \<inter> region src (Suc (length b)) = {}"
      using mp dj mapped_sub [of m ?e "Suc k" 0 k] region_mono [of k "Suc k" ?e] by auto
    then have copy: "strncat_copy m ?e src n
        = Some (put_bytes m ?e (take (unat n) b), ?e + n, size_max)"
      using strncat_copy_long [OF assms(2) True unat_less_size] k by (simp add: of_nat_unat_64)
    have "m (?e + of_nat k) \<noteq> None"
      using mp mapped_add [of m ?e k 1] by simp
    then have "put_bytes m ?e (take (unat n) b) (?e + n) \<noteq> None"
      using mapped_put_bytes [of m "?e + n" 1 ?e] k by (simp add: of_nat_unat_64)
    then show ?thesis
      using copy strlen_loop_cstr [OF assms(1)] True k
      by (auto simp: strncat_def put_bytes_append of_nat_unat_64 min_def)
  next
    case False
    then have k: "k = length b" using assms(3) by simp
    then show ?thesis
      using strncat_copy_short [of m src b n ?e] assms(2) False mp dj strlen_loop_cstr [OF assms(1)]
      by (auto simp: strncat_def simp del: region_Suc mapped.simps)
  qed
qed

text \<open>
  \<open>strncat\<close> appends at most \<open>n\<close> characters of the source and always terminates the
  result, also where the counter wraps around to \<open>(size_t)-1\<close>.
\<close>

theorem strncat_concatenates:
  assumes "cstr_at m dest a" and "cstr_at m src b" and "k = min (unat n) (length b)"
    and "mapped m dest (Suc (length a + k))" and "length a + k < 2 ^ 64"
    and "region dest (Suc (length a + k)) \<inter> region src (Suc (length b)) = {}"
  shows "\<exists>m'. strncat m dest src n = Some (m', dest) \<and> cstr_at m' dest (a @ take (unat n) b)"
proof -
  have "0 \<notin> set (take (unat n) b)"
    using assms(2) by (auto simp: cstr_at_def dest: in_set_takeD)
  then have "cstr_at (put_bytes m (dest + of_nat (length a)) (take (unat n) b @ [0])) dest
      (a @ take (unat n) b)"
    using assms by (intro cstr_at_append_put) (simp_all add: min.commute)
  with strncat_put [OF assms] show ?thesis by simp
qed

theorem strncat_concatenates_witness:
  "\<exists>m'. strncat (put_bytes Map.empty 16 [65, 0, 9, 66, 67, 0]) 16 19 1 = Some (m', 16)
    \<and> cstr_at m' 16 ([65] @ take (unat (1 :: usize)) [66, 67])"
  by (rule strncat_concatenates [where k = 1]) simp_all

subsection \<open>Comparison\<close>

lemma strcmp_byte_diff:
  "cstr_at m p s \<Longrightarrow> cstr_at m q t \<Longrightarrow> strcmp m p q = Some (byte_diff (s @ [0]) (t @ [0]))"
proof (induction s arbitrary: p q t)
  case Nil
  then show ?case by (cases t; subst strcmp.simps) auto
next
  case (Cons c s)
  then show ?case by (cases t; subst strcmp.simps) auto
qed

lemma byte_diff_strings:
  "0 \<notin> set s \<Longrightarrow> 0 \<notin> set t \<Longrightarrow> byte_diff (s @ [0]) (t @ [0]) = 0 \<longleftrightarrow> s = t"
proof (induction s arbitrary: t)
  case Nil
  then show ?case by (cases t) (auto simp: uint_0_iff)
next
  case (Cons c s)
  then show ?case by (cases t) (auto simp: word_uint_eq_iff)
qed

lemma byte_diff_strings_less:
  "0 \<notin> set s \<Longrightarrow> 0 \<notin> set t \<Longrightarrow> byte_diff (s @ [0]) (t @ [0]) < 0 \<longleftrightarrow> s < t"
proof (induction s arbitrary: t)
  case Nil
  then show ?case
  proof (cases t)
    case (Cons d t')
    with Nil have "uint d \<noteq> 0" by (auto simp: uint_0_iff)
    then have "0 < uint d" using uint_ge_0 [of d] by linarith
    with Cons Nil show ?thesis by auto
  qed simp
next
  case (Cons c s)
  then show ?case by (cases t) (auto simp: word_less_def not_less)
qed

text \<open>
  \<open>strcmp\<close> of two C strings is zero exactly when they are equal and negative exactly
  when the first is lexicographically smaller, characters read as \<^verbatim>\<open>unsigned char\<close>.
\<close>

theorem strcmp_lexicographic:
  assumes "cstr_at m p s" and "cstr_at m q t"
  shows "\<exists>r. strcmp m p q = Some r \<and> (r = 0 \<longleftrightarrow> s = t) \<and> (r < 0 \<longleftrightarrow> s < t)"
  using strcmp_byte_diff [OF assms] assms byte_diff_strings byte_diff_strings_less
  by (simp add: cstr_at_def)

theorem strcmp_lexicographic_witness:
  "\<exists>r. strcmp (put_bytes Map.empty 16 [65, 0, 65, 200, 0]) 16 18 = Some r
    \<and> (r = 0 \<longleftrightarrow> [65 :: u8] = [65, 200]) \<and> (r < 0 \<longleftrightarrow> [65 :: u8] < [65, 200])"
  by (rule strcmp_lexicographic) simp_all

lemma strncmp_loop_byte_diff:
  "cstr_at m p s \<Longrightarrow> cstr_at m q t \<Longrightarrow> n \<noteq> 0 \<Longrightarrow>
     strncmp_loop m p q n = Some (byte_diff (take (unat n) (s @ [0])) (take (unat n) (t @ [0])))"
proof (induction s arbitrary: p q t n)
  case Nil
  then obtain k where "unat n = Suc k" by (metis not0_implies_Suc unat_eq_zero)
  with Nil show ?case by (cases t; subst strncmp_loop.simps) auto
next
  case (Cons c s)
  obtain k where k: "unat n = Suc k"
    using Cons.prems(3) by (metis not0_implies_Suc unat_eq_zero)
  then have k1: "unat (n - 1) = k" using Cons.prems(3) by (simp add: unat_minus_one)
  show ?case
  proof (cases "n - 1 = 0")
    case True
    with k1 have "k = 0" by simp
    with True k Cons.prems show ?thesis by (cases t; subst strncmp_loop.simps) auto
  next
    case False
    show ?thesis
    proof (cases t)
      case Nil
      with k Cons.prems show ?thesis by (subst strncmp_loop.simps) auto
    next
      case (Cons d t')
      with Cons.prems Cons.IH [of "p + 1" "q + 1" t' "n - 1"] False k k1 show ?thesis
        by (subst strncmp_loop.simps) auto
    qed
  qed
qed

text \<open>Comparing prefixes with their NULs, where they have one, is comparing the prefixes.\<close>

lemma byte_diff_prefixes:
  "0 \<notin> set s \<Longrightarrow> 0 \<notin> set t \<Longrightarrow>
     byte_diff (take n (s @ [0])) (take n (t @ [0])) = 0 \<longleftrightarrow> take n s = take n t"
proof (induction n arbitrary: s t)
  case 0
  then show ?case by simp
next
  case (Suc n)
  then show ?case by (cases s; cases t) (auto simp: word_uint_eq_iff)
qed

lemma byte_diff_prefixes_less:
  "0 \<notin> set s \<Longrightarrow> 0 \<notin> set t \<Longrightarrow>
     byte_diff (take n (s @ [0])) (take n (t @ [0])) < 0 \<longleftrightarrow> take n s < take n t"
proof (induction n arbitrary: s t)
  case 0
  then show ?case by simp
next
  case (Suc n)
  then show ?case
    by (cases s; cases t) (auto simp: word_less_def word_neq_0_conv not_less)
qed

text \<open>\<open>strncmp\<close> compares the first \<open>n\<close> characters of the two strings.\<close>

theorem strncmp_lexicographic:
  assumes "cstr_at m p s" and "cstr_at m q t"
  shows "\<exists>r. strncmp m p q n = Some r \<and> (r = 0 \<longleftrightarrow> take (unat n) s = take (unat n) t)
    \<and> (r < 0 \<longleftrightarrow> take (unat n) s < take (unat n) t)"
proof (cases "n = 0")
  case True
  then show ?thesis by (simp add: strncmp_def)
next
  case False
  with assms strncmp_loop_byte_diff [OF assms False] show ?thesis
    by (simp add: strncmp_def byte_diff_prefixes byte_diff_prefixes_less cstr_at_def
        del: take_append)
qed

theorem strncmp_lexicographic_witness:
  "\<exists>r. strncmp (put_bytes Map.empty 16 [65, 0, 65, 200, 0]) 16 18 1 = Some r
    \<and> (r = 0 \<longleftrightarrow> take (unat (1 :: usize)) [65 :: u8] = take (unat (1 :: usize)) [65, 200])
    \<and> (r < 0 \<longleftrightarrow> take (unat (1 :: usize)) [65 :: u8] < take (unat (1 :: usize)) [65, 200])"
  by (rule strncmp_lexicographic) simp_all

subsection \<open>Searching\<close>

lemma strchr_cstr:
  "cstr_at m p s \<Longrightarrow> strchr m p c = Some (
     if \<exists>x \<in> set s. sint x = c then p + of_nat (length (takeWhile (\<lambda>x. sint x \<noteq> c) s))
     else if c = 0 then p + of_nat (length s) else nullptr)"
proof (induction s arbitrary: p)
  case Nil
  then show ?case by (subst strchr.simps) simp
next
  case (Cons x s)
  then show ?case by (subst strchr.simps) (auto simp: add.assoc)
qed

lemma strrchr_loop_absent:
  "cstr_at m p s \<Longrightarrow> \<forall>x \<in> set s. sint x \<noteq> c \<Longrightarrow> c \<noteq> 0 \<Longrightarrow>
     strrchr_loop m p c l = Some l"
proof (induction s arbitrary: p)
  case Nil
  then show ?case by (subst strrchr_loop.simps) simp
next
  case (Cons x s)
  then show ?case by (subst strrchr_loop.simps) auto
qed

lemma strrchr_loop_found:
  "cstr_at m p (xs @ x # ys) \<Longrightarrow> sint x = c \<Longrightarrow> \<forall>y \<in> set ys. sint y \<noteq> c \<Longrightarrow>
     strrchr_loop m p c l = Some (p + of_nat (length xs))"
proof (induction xs arbitrary: p l)
  case Nil
  then have "c \<noteq> 0" by (auto simp: signed_eq_0_iff)
  with Nil strrchr_loop_absent [of m "p + 1" ys c p] show ?case
    by (subst strrchr_loop.simps) simp
next
  case (Cons z xs)
  then show ?case by (subst strrchr_loop.simps) (simp add: add.assoc)
qed

lemma strrchr_loop_nul:
  "cstr_at m p s \<Longrightarrow> strrchr_loop m p 0 l = Some (p + of_nat (length s))"
proof (induction s arbitrary: p l)
  case Nil
  then show ?case by (subst strrchr_loop.simps) simp
next
  case (Cons z s)
  then show ?case by (subst strrchr_loop.simps) (simp add: add.assoc)
qed

lemma strchr_strrchr_nul:
  assumes "cstr_at m p s"
  shows "strchr m p 0 = Some (p + of_nat (length s)) \<and> strrchr m p 0 = Some (p + of_nat (length s))"
proof -
  have "sint z \<noteq> 0" if "z \<in> set s" for z
    using that assms by (auto simp: cstr_at_def signed_eq_0_iff)
  then show ?thesis
    using assms strchr_cstr [OF assms, of 0] by (auto simp: strrchr_def strrchr_loop_nul)
qed

lemma strchr_strrchr_absent:
  assumes "cstr_at m p s" "\<forall>z \<in> set s. sint z \<noteq> c" "c \<noteq> 0"
  shows "strchr m p c = Some nullptr \<and> strrchr m p c = Some nullptr"
  using assms strchr_cstr [OF assms(1), of c] by (auto simp: strrchr_def strrchr_loop_absent)

text \<open>
  \<open>strchr\<close> returns the address of the first occurrence of a character in the string,
  \<open>strrchr\<close> the address of the last one.
\<close>

theorem strchr_strrchr_occurrence:
  assumes "cstr_at m p s" and "s = xs @ x # ys" and "x \<notin> set xs"
    and "s = us @ x # vs" and "x \<notin> set vs"
  shows "strchr m p (sint x) = Some (p + of_nat (length xs))
    \<and> strrchr m p (sint x) = Some (p + of_nat (length us))"
proof -
  have "\<forall>z \<in> set xs. sint z \<noteq> sint x" "\<forall>z \<in> set vs. sint z \<noteq> sint x"
    using assms(3,5) by (auto dest: signed_word_eqI)
  then show ?thesis
    using strchr_cstr [OF assms(1), of "sint x"] assms(1,2)
      strrchr_loop_found [of m p us x vs "sint x" nullptr, folded assms(4)]
    by (auto simp: strrchr_def)
qed

theorem strchr_strrchr_occurrence_witness:
  "strchr (put_bytes Map.empty 16 [65, 66, 66, 67, 0]) 16 (sint (66 :: u8))
       = Some (16 + of_nat (length [65 :: u8]))
    \<and> strrchr (put_bytes Map.empty 16 [65, 66, 66, 67, 0]) 16 (sint (66 :: u8))
       = Some (16 + of_nat (length [65, 66 :: u8]))"
  by (rule strchr_strrchr_occurrence [where s = "[65, 66, 66, 67]" and ys = "[66, 67]" and vs = "[67]"])
    simp_all

lemma accept_scan_cstr:
  "cstr_at m a acc \<Longrightarrow> c \<noteq> 0 \<Longrightarrow> accept_scan m a c = Some (if c \<in> set acc then c else 0)"
proof (induction acc arbitrary: a)
  case Nil
  then show ?case by (subst accept_scan.simps) simp
next
  case (Cons x acc)
  then show ?case by (subst accept_scan.simps) auto
qed

lemma reject_scan_cstr: "cstr_at m r rej \<Longrightarrow> reject_scan m r c = Some (c \<in> set rej)"
proof (induction rej arbitrary: r)
  case Nil
  then show ?case by (subst reject_scan.simps) simp
next
  case (Cons x rej)
  then show ?case by (subst reject_scan.simps) auto
qed

lemma strspn_loop_cstr:
  "cstr_at m p s \<Longrightarrow> cstr_at m a acc \<Longrightarrow>
     strspn_loop m p a = Some (p + of_nat (length (takeWhile (\<lambda>c. c \<in> set acc) s)))"
proof (induction s arbitrary: p)
  case Nil
  then show ?case by (subst strspn_loop.simps) simp
next
  case (Cons c s)
  then show ?case by (subst strspn_loop.simps) (simp add: accept_scan_cstr add.assoc)
qed

lemma strcspn_loop_cstr:
  "cstr_at m p s \<Longrightarrow> cstr_at m r rej \<Longrightarrow>
     strcspn_loop m p r = Some (p + of_nat (length (takeWhile (\<lambda>c. c \<notin> set rej) s)))"
proof (induction s arbitrary: p)
  case Nil
  then show ?case by (subst strcspn_loop.simps) simp
next
  case (Cons c s)
  then show ?case by (subst strcspn_loop.simps) (simp add: reject_scan_cstr add.assoc)
qed

text \<open>
  \<open>strspn\<close> is the length of the longest prefix of characters in the set, \<open>strcspn\<close>
  that of the longest prefix of characters outside it.
\<close>

theorem strspn_strcspn_prefix:
  assumes "cstr_at m p s" and "cstr_at m a acc"
  shows "strspn m p a = Some (of_nat (length (takeWhile (\<lambda>c. c \<in> set acc) s)))
    \<and> strcspn m p a = Some (of_nat (length (takeWhile (\<lambda>c. c \<notin> set acc) s)))"
  using assms by (simp add: strspn_def strcspn_def strspn_loop_cstr strcspn_loop_cstr)

theorem strspn_strcspn_prefix_witness:
  "strspn (put_bytes Map.empty 16 [65, 66, 67, 0, 66, 65, 0]) 16 20
     = Some (of_nat (length (takeWhile (\<lambda>c. c \<in> set [66, 65]) [65, 66, 67 :: u8])))
    \<and> strcspn (put_bytes Map.empty 16 [65, 66, 67, 0, 66, 65, 0]) 16 20
     = Some (of_nat (length (takeWhile (\<lambda>c. c \<notin> set [66, 65]) [65, 66, 67 :: u8])))"
  by (rule strspn_strcspn_prefix) simp_all

lemma strpbrk_cstr:
  "cstr_at m p s \<Longrightarrow> cstr_at m a acc \<Longrightarrow> strpbrk m p a = Some (
     if \<exists>c \<in> set s. c \<in> set acc
     then p + of_nat (length (takeWhile (\<lambda>c. c \<notin> set acc) s)) else nullptr)"
proof (induction s arbitrary: p)
  case Nil
  then show ?case by (subst strpbrk.simps) simp
next
  case (Cons c s)
  then show ?case by (subst strpbrk.simps) (auto simp: reject_scan_cstr add.assoc)
qed

text \<open>Whether the needle occurs at the start of the haystack.\<close>

abbreviation starts_with :: "u8 list \<Rightarrow> u8 list \<Rightarrow> bool" where
  "starts_with hs ns \<equiv> take (length ns) hs = ns"

lemma strstr_match_cstr:
  "cstr_at m h hs \<Longrightarrow> cstr_at m n ns \<Longrightarrow> strstr_match m h n = Some (starts_with hs ns)"
proof (induction ns arbitrary: h n hs)
  case Nil
  then show ?case by (cases hs; subst strstr_match.simps) auto
next
  case (Cons c ns)
  then show ?case by (cases hs; subst strstr_match.simps) auto
qed

lemma strstr_loop_cstr:
  assumes "cstr_at m n ns" "ns \<noteq> []"
  shows "cstr_at m h hs \<Longrightarrow>
    (\<exists>i. strstr_loop m h n = Some (h + of_nat i) \<and> starts_with (drop i hs) ns
         \<and> (\<forall>j < i. \<not> starts_with (drop j hs) ns))
    \<or> (strstr_loop m h n = Some nullptr \<and> (\<forall>i. \<not> starts_with (drop i hs) ns))"
proof (induction hs arbitrary: h)
  case Nil
  then show ?case using assms(2) by (subst (2) strstr_loop.simps) simp
next
  case (Cons c hs)
  obtain n0 ns' where ns: "ns = n0 # ns'" using assms(2) by (cases ns) auto
  show ?case
  proof (cases "starts_with (c # hs) ns")
    case True
    then have "strstr_loop m h n = Some h"
      using Cons.prems assms(1) strstr_match_cstr [OF Cons.prems assms(1)] ns
      by (subst strstr_loop.simps) simp
    then have "strstr_loop m h n = Some (h + of_nat 0) \<and> starts_with (drop 0 (c # hs)) ns
        \<and> (\<forall>j < 0. \<not> starts_with (drop j (c # hs)) ns)"
      using True by simp
    then show ?thesis by blast
  next
    case False
    then have step: "strstr_loop m h n = strstr_loop m (h + 1) n"
      using Cons.prems assms(1) strstr_match_cstr [OF Cons.prems assms(1)] ns
      by (subst strstr_loop.simps) simp
    have "cstr_at m (h + 1) hs" using Cons.prems by simp
    from Cons.IH [OF this] show ?thesis
    proof
      assume "\<exists>i. strstr_loop m (h + 1) n = Some (h + 1 + of_nat i) \<and> starts_with (drop i hs) ns
         \<and> (\<forall>j < i. \<not> starts_with (drop j hs) ns)"
      then obtain i where i: "strstr_loop m (h + 1) n = Some (h + 1 + of_nat i)"
        "starts_with (drop i hs) ns" "\<forall>j < i. \<not> starts_with (drop j hs) ns" by blast
      have "\<not> starts_with (drop j (c # hs)) ns" if "j < Suc i" for j
        using that i(3) False by (cases j) auto
      then have "strstr_loop m h n = Some (h + of_nat (Suc i))
        \<and> starts_with (drop (Suc i) (c # hs)) ns \<and> (\<forall>j < Suc i. \<not> starts_with (drop j (c # hs)) ns)"
        using step i(1,2) by (simp add: add.assoc)
      then show ?thesis by blast
    next
      assume none: "strstr_loop m (h + 1) n = Some nullptr \<and> (\<forall>i. \<not> starts_with (drop i hs) ns)"
      have "\<not> starts_with (drop i (c # hs)) ns" for i
        using none False by (cases i) auto
      with none step show ?thesis by simp
    qed
  qed
qed

text \<open>
  C20: \<open>strstr\<close> returns the first position of the haystack at which the needle occurs, and
  nullptr exactly where it occurs nowhere; the empty needle occurs at the start.
\<close>

theorem strstr_first_occurrence:
  assumes "cstr_at m h hs" and "cstr_at m n ns"
  shows "(\<exists>i. strstr m h n = Some (h + of_nat i) \<and> starts_with (drop i hs) ns
         \<and> (\<forall>j < i. \<not> starts_with (drop j hs) ns))
    \<or> (strstr m h n = Some nullptr \<and> (\<forall>i. \<not> starts_with (drop i hs) ns))"
proof (cases ns)
  case Nil
  then have "strstr m h n = Some (h + of_nat 0) \<and> starts_with (drop 0 hs) ns
         \<and> (\<forall>j < 0. \<not> starts_with (drop j hs) ns)"
    using assms by (simp add: strstr_def)
  then show ?thesis by blast
next
  case (Cons n0 ns')
  then have "strstr m h n = strstr_loop m h n" using assms(2) by (simp add: strstr_def)
  with strstr_loop_cstr [OF assms(2) _ assms(1)] Cons show ?thesis by simp
qed

theorem strstr_first_occurrence_witness:
  "\<exists>i. strstr (put_bytes Map.empty 16 [65, 66, 67, 0, 66, 0]) 16 20 = Some (16 + of_nat i)
     \<and> starts_with (drop i [65, 66, 67]) [66]"
proof -
  let ?m = "put_bytes Map.empty 16 [65, 66, 67, 0, 66, 0]"
  have "starts_with (drop 1 [65, 66, 67 :: u8]) [66]" by simp
  then show ?thesis
    using strstr_first_occurrence [of ?m 16 "[65, 66, 67]" 20 "[66]"] by fastforce
qed

end
