(* ===== verification/StrTok.thy ===== *)
theory StrTok
  imports StrFun
begin

text \<open>
  \<open>strtok\<close> of \<^verbatim>\<open>kernel/Source/util/string.c\<close>, the one routine of the file that keeps
  state between calls: its static pointer. The sequence of calls a caller makes, the string
  first and nullptr from then on, is the relation \<open>tok_run\<close>; it is shown to yield exactly the
  tokens of the string, as C strings in the memory the calls leave behind.
\<close>

text \<open>
  \<open>strtok\<close> takes and returns the static pointer \<open>last_p\<close>: the result is the memory, the new
  \<open>last_p\<close> and the token.
\<close>

definition strtok :: "mem \<Rightarrow> addr \<Rightarrow> addr \<Rightarrow> addr \<Rightarrow> (mem \<times> addr \<times> addr) option" where
  "strtok m last_p str delim =
     (let str = (if str = nullptr then last_p else str) in
      if str = nullptr then Some (m, last_p, nullptr)
      else do {
        k \<leftarrow> strspn m str delim;
        let str = str + k;
        c \<leftarrow> m str;
        if c = 0 then Some (m, nullptr, nullptr)
        else do {
          token_end \<leftarrow> strpbrk m str delim;
          if token_end \<noteq> nullptr then do {
            m' \<leftarrow> write8 m token_end 0;
            Some (m', token_end + 1, str) }
          else Some (m, nullptr, str) } })"

subsection \<open>One call\<close>

text \<open>
  A text read from its start: the delimiters before the first token, that token, and what
  follows it (nothing, or the text from the next delimiter on).
\<close>

definition delims :: "u8 list \<Rightarrow> u8 list \<Rightarrow> u8 list" where
  "delims ds s = takeWhile (\<lambda>c. c \<in> set ds) s"

definition skip :: "u8 list \<Rightarrow> u8 list \<Rightarrow> u8 list" where
  "skip ds s = dropWhile (\<lambda>c. c \<in> set ds) s"

definition token :: "u8 list \<Rightarrow> u8 list \<Rightarrow> u8 list" where
  "token ds s = takeWhile (\<lambda>c. c \<notin> set ds) s"

definition after :: "u8 list \<Rightarrow> u8 list \<Rightarrow> u8 list" where
  "after ds s = dropWhile (\<lambda>c. c \<notin> set ds) s"

lemma delims_skip: "delims ds s @ skip ds s = s"
  by (simp add: delims_def skip_def)

lemma token_after: "token ds s @ after ds s = s"
  by (simp add: token_def after_def)

lemma length_delims_skip: "length (delims ds s) + length (skip ds s) = length s"
  using delims_skip [of ds s] by (metis length_append)

lemma length_token_after: "length (token ds s) + length (after ds s) = length s"
  using token_after [of ds s] by (metis length_append)

lemma has_delim_iff: "(\<exists>c \<in> set s. c \<in> set ds) = (after ds s \<noteq> [])"
  by (auto simp: after_def)

lemma skip_at:
  assumes "cstr_at m p s"
  shows "cstr_at m (p + of_nat (length (delims ds s))) (skip ds s)"
  using assms cstr_at_append [of m p "delims ds s" "skip ds s"] by (simp add: delims_skip)

lemma strtok_scan:
  assumes "(if a = nullptr then l else a) = p" "p \<noteq> nullptr"
    and "strspn m p d = Some k" "m (p + k) = Some c" "c \<noteq> 0" "strpbrk m (p + k) d = Some e"
  shows "strtok m l a d = (if e \<noteq> nullptr then do { m' \<leftarrow> write8 m e 0; Some (m', e + 1, p + k) }
    else Some (m, nullptr, p + k))"
  using assms by (simp add: strtok_def Let_def)

lemma strspn_delims:
  "cstr_at m p s \<Longrightarrow> cstr_at m d ds \<Longrightarrow> strspn m p d = Some (of_nat (length (delims ds s)))"
  using strspn_loop_cstr by (simp add: strspn_def delims_def)

lemma strpbrk_token:
  "cstr_at m p s \<Longrightarrow> cstr_at m d ds \<Longrightarrow> strpbrk m p d =
     Some (if after ds s = [] then nullptr else p + of_nat (length (token ds s)))"
  using strpbrk_cstr [of m p s d ds] unfolding has_delim_iff token_def by simp

lemma strtok_none_left:
  assumes "cstr_at m p s" "cstr_at m d ds" "(if a = nullptr then l else a) = p" "p \<noteq> nullptr"
    and "skip ds s = []"
  shows "strtok m l a d = Some (m, nullptr, nullptr)"
proof -
  have "m (p + of_nat (length (delims ds s))) = Some 0"
    using skip_at [OF assms(1), of ds] assms(5) by simp
  then show ?thesis
    using assms strspn_delims [OF assms(1,2)] by (simp add: strtok_def Let_def)
qed

lemma strtok_step:
  assumes "cstr_at m p s" and "cstr_at m d ds" and "(if a = nullptr then l else a) = p"
    and "nullptr \<notin> region p (Suc (length s))" and "skip ds s \<noteq> []"
    and "t = p + of_nat (length (delims ds s))"
    and "e = t + of_nat (length (token ds (skip ds s)))"
  shows "strtok m l a d = Some (if after ds (skip ds s) = [] then (m, nullptr, t)
    else (m(e \<mapsto> 0), e + 1, t))"
proof -
  let ?r = "skip ds s"
  have p: "p \<noteq> nullptr" using assms(4) by auto
  obtain c r where r: "?r = c # r" using assms(5) by (cases ?r) auto
  have at: "cstr_at m t ?r" unfolding assms(6) by (rule skip_at [OF assms(1)])
  then have c: "m t = Some c" "c \<noteq> 0" unfolding r by simp_all
  note scan = strtok_scan [OF assms(3) p strspn_delims [OF assms(1,2)], folded assms(6),
      OF c strpbrk_token [OF at assms(2)], folded assms(7)]
  show ?thesis
  proof (cases "after ds ?r = []")
    case True
    with scan show ?thesis by simp
  next
    case False
    have at_e: "cstr_at m e (after ds ?r)"
      using at cstr_at_append [of m t "token ds ?r" "after ds ?r"]
      unfolding assms(7) by (simp add: token_after)
    have e: "e = p + of_nat (length (delims ds s) + length (token ds ?r))"
      unfolding assms(6,7) by (simp add: add.assoc)
    have "length (delims ds s) + length (token ds ?r) < Suc (length s)"
      using length_delims_skip [of ds s] length_token_after [of ds ?r] by simp
    then have "e \<in> region p (Suc (length s))" unfolding e by (rule in_region)
    then have "e \<noteq> nullptr" using assms(4) by auto
    moreover obtain x where "m e = Some x"
      using at_e False by (cases "after ds ?r") auto
    ultimately show ?thesis using scan False by simp
  qed
qed

subsection \<open>A sequence of calls\<close>

text \<open>
  The calls of a caller that takes all the tokens: the first call gets the string, each
  further one nullptr, until a call returns nullptr. The tokens found are in order.
\<close>

inductive tok_run :: "mem \<Rightarrow> addr \<Rightarrow> addr \<Rightarrow> addr \<Rightarrow> mem \<Rightarrow> addr list \<Rightarrow> bool" where
  finished: "strtok m l a d = Some (m', l', nullptr) \<Longrightarrow> tok_run m l a d m' []"
| found: "strtok m l a d = Some (m1, l1, t) \<Longrightarrow> t \<noteq> nullptr \<Longrightarrow>
    tok_run m1 l1 nullptr d m' ts \<Longrightarrow> tok_run m l a d m' (t # ts)"

text \<open>The tokens of a text: the maximal runs of characters outside the delimiter set.\<close>

function tokens :: "u8 list \<Rightarrow> u8 list \<Rightarrow> u8 list list" where
  "tokens ds s =
     (if skip ds s = [] then []
      else token ds (skip ds s) # tokens ds (drop 1 (after ds (skip ds s))))"
  by pat_completeness auto
termination
proof (relation "measure (\<lambda>(ds, s). length s)", simp)
  fix ds s :: "u8 list"
  assume "skip ds s \<noteq> []"
  moreover have "length (after ds (skip ds s)) \<le> length s"
    using length_delims_skip [of ds s] length_token_after [of ds "skip ds s"] by simp
  moreover have "s \<noteq> []" using calculation(1) by (auto simp: skip_def)
  ultimately show "((ds, drop 1 (after ds (skip ds s))), ds, s) \<in> measure (\<lambda>(ds, s). length s)"
    by (cases s) auto
qed

declare tokens.simps [simp del]

lemma strtok_exhausted: "strtok m nullptr nullptr d = Some (m, nullptr, nullptr)"
  by (simp add: strtok_def)

text \<open>
  What one call leaves behind when it found a delimiter after the token: the token is a C
  string, the rest of the text is one behind it, and the two do not overlap.
\<close>

lemma cut_token:
  assumes "cstr_at m p s" and "skip ds s \<noteq> []"
    and "after ds (skip ds s) = x # post"
    and "t = p + of_nat (length (delims ds s))"
    and "e = t + of_nat (length (token ds (skip ds s)))"
  shows "e \<in> region p (Suc (length s))"
    and "region (e + 1) (Suc (length post)) \<subseteq> region p (Suc (length s))"
    and "region t (Suc (length (token ds (skip ds s)))) \<inter> region (e + 1) (Suc (length post)) = {}"
    and "cstr_at (m(e \<mapsto> 0)) t (token ds (skip ds s))"
    and "cstr_at (m(e \<mapsto> 0)) (e + 1) post"
proof -
  let ?r = "skip ds s"
  let ?pre = "delims ds s" and ?tok = "token ds ?r"
  have at: "cstr_at m t ?r" unfolding assms(4) by (rule skip_at [OF assms(1)])
  have len: "length ?pre + length ?r = length s" by (rule length_delims_skip)
  have lenr: "length ?tok + Suc (length post) = length ?r"
    using length_token_after [of ds ?r] assms(3) by simp
  have r: "?tok @ x # post = ?r" using token_after [of ds ?r] assms(3) by simp
  have sub: "region t (Suc (length ?r)) \<subseteq> region p (Suc (length s))"
    unfolding assms(4) using len by (intro region_sub) simp
  have bytes: "bytes_at m t ?tok" "cstr_at m e (x # post)"
    using at r unfolding assms(5) by (metis cstr_at_append)+
  have "length s < 2 ^ 64" by (rule cstr_at_length [OF assms(1)])
  then have small: "Suc (length ?tok) + Suc (length post) \<le> 2 ^ 64" using len lenr by simp
  have e1: "e + 1 = t + of_nat (Suc (length ?tok))" by (simp add: assms(5) add.assoc)
  show disj: "region t (Suc (length ?tok)) \<inter> region (e + 1) (Suc (length post)) = {}"
    unfolding e1 by (rule region_split_disjoint [OF small])
  have ein: "e \<in> region t (Suc (length ?tok))"
    unfolding assms(5) by (rule in_region) simp
  have "region t (Suc (length ?tok)) \<subseteq> region p (Suc (length s))"
    using sub region_mono [of "Suc (length ?tok)" "Suc (length ?r)" t] lenr by auto
  with ein show "e \<in> region p (Suc (length s))" by auto
  show "region (e + 1) (Suc (length post)) \<subseteq> region p (Suc (length s))"
    using sub region_sub [of "Suc (length ?tok)" "Suc (length post)" "Suc (length ?r)" t] lenr
    unfolding e1 by auto
  have "e \<notin> region t (length ?tok)"
    unfolding assms(5) using small by (intro end_not_in_region) simp
  then have "bytes_at (m(e \<mapsto> 0)) t (?tok @ [0])"
    using bytes(1) unfolding bytes_at_append by (simp flip: assms(5))
  moreover have "0 \<notin> set ?tok" using at r by (metis Un_iff cstr_at_def set_append)
  ultimately show "cstr_at (m(e \<mapsto> 0)) t ?tok" by (simp add: cstr_at_def)
  show "cstr_at (m(e \<mapsto> 0)) (e + 1) post"
    using bytes(2) disj ein by (subst cstr_at_upd) auto
qed

text \<open>The last token, which no delimiter follows: the string is left as it is.\<close>

lemma tok_run_last:
  assumes "cstr_at m p s" and "cstr_at m d ds" and "(if a = nullptr then l else a) = p"
    and "nullptr \<notin> region p (Suc (length s))" and "skip ds s \<noteq> []"
    and "after ds (skip ds s) = []"
  shows "\<exists>ts. tok_run m l a d m ts \<and> list_all2 (cstr_at m) ts (tokens ds s)"
proof -
  let ?r = "skip ds s"
  define t where "t = p + of_nat (length (delims ds s))"
  define e where "e = t + of_nat (length (token ds ?r))"
  have at: "cstr_at m t ?r" unfolding t_def by (rule skip_at [OF assms(1)])
  have "length (delims ds s) < Suc (length s)" using length_delims_skip [of ds s] by simp
  then have "t \<in> region p (Suc (length s))" unfolding t_def by (rule in_region)
  then have t0: "t \<noteq> nullptr" using assms(4) by auto
  have "tok_run m nullptr nullptr d m []" by (rule finished [OF strtok_exhausted])
  then have "tok_run m l a d m [t]"
    using strtok_step [OF assms(1-5) t_def e_def] assms(6) t0 by (intro found) simp_all
  moreover have "cstr_at m t (token ds ?r)"
    using at token_after [of ds ?r] assms(6) by simp
  moreover have "tokens ds [] = []" by (subst tokens.simps) (simp add: skip_def)
  then have "tokens ds s = [token ds ?r]"
    using assms(5,6) by (subst tokens.simps) simp
  ultimately show ?thesis by (intro exI [of _ "[t]"]) simp
qed

text \<open>
  All the calls together: they find the tokens, and write only inside the string.
\<close>

lemma tok_run_tokens:
  assumes "cstr_at m p s" and "cstr_at m d ds" and "(if a = nullptr then l else a) = p"
    and "nullptr \<notin> region p (Suc (length s))"
    and "region p (Suc (length s)) \<inter> region d (Suc (length ds)) = {}"
  shows "\<exists>m' ts. tok_run m l a d m' ts \<and> list_all2 (cstr_at m') ts (tokens ds s)
    \<and> (\<forall>q. q \<notin> region p (Suc (length s)) \<longrightarrow> m' q = m q)"
  using assms
proof (induction ds s arbitrary: m p l a rule: tokens.induct)
  case (1 ds s)
  let ?r = "skip ds s"
  consider (none) "?r = []" | (last) "?r \<noteq> []" "after ds ?r = []"
    | (more) x post where "?r \<noteq> []" "after ds ?r = x # post" by (cases "after ds ?r") auto
  then show ?case
  proof cases
    case none
    have "p \<noteq> nullptr" using "1.prems"(4) by auto
    then have "tok_run m l a d m []"
      using none strtok_none_left [OF "1.prems"(1-3)] by (intro finished) simp
    with none show ?thesis by (subst tokens.simps) auto
  next
    case last
    then show ?thesis using tok_run_last [OF "1.prems"(1-4)] by blast
  next
    case more
    define t where "t = p + of_nat (length (delims ds s))"
    define e where "e = t + of_nat (length (token ds ?r))"
    note cut = cut_token [OF "1.prems"(1) more t_def e_def]
    let ?m1 = "m(e \<mapsto> 0)"
    have "cstr_at ?m1 d ds" using "1.prems"(2,5) cut(1) by (subst cstr_at_upd) auto
    moreover have "e + 1 \<noteq> nullptr" "nullptr \<notin> region (e + 1) (Suc (length post))"
      and "region (e + 1) (Suc (length post)) \<inter> region d (Suc (length ds)) = {}"
      using cut(2) "1.prems"(4,5) by auto
    ultimately obtain m' ts where IH: "tok_run ?m1 (e + 1) nullptr d m' ts"
      "list_all2 (cstr_at m') ts (tokens ds post)"
      "\<forall>q. q \<notin> region (e + 1) (Suc (length post)) \<longrightarrow> m' q = ?m1 q"
      using "1.IH" [OF more(1), of ?m1 "e + 1" nullptr "e + 1"] cut(5) more(2) by auto
    have "length (delims ds s) < Suc (length s)" using length_delims_skip [of ds s] by simp
    then have "t \<in> region p (Suc (length s))" unfolding t_def by (rule in_region)
    then have "t \<noteq> nullptr" using "1.prems"(4) by auto
    then have "tok_run m l a d m' (t # ts)"
      using strtok_step [OF "1.prems"(1-4) more(1) t_def e_def] more(2) IH(1)
      by (intro found) simp_all
    moreover have "m' q = ?m1 q" if "q \<in> region t (Suc (length (token ds ?r)))" for q
      using that cut(3) IH(3) by blast
    then have "cstr_at m' t (token ds ?r)"
      using cut(4) bytes_at_cong [of t "token ds ?r @ [0]" m' ?m1] by (simp add: cstr_at_def)
    moreover have "m' q = m q" if "q \<notin> region p (Suc (length s))" for q
    proof -
      have "q \<notin> region (e + 1) (Suc (length post))" "q \<noteq> e" using that cut(1,2) by auto
      with IH(3) show ?thesis by simp
    qed
    moreover have "tokens ds s = token ds ?r # tokens ds post"
      using more by (subst tokens.simps) simp
    ultimately show ?thesis using IH(2) by (intro exI conjI) auto
  qed
qed

text \<open>
  C4: Calling \<open>strtok\<close> first with a string and then with nullptr until it returns nullptr
  yields exactly the tokens of the string in order, each of them a C string in the memory
  after the last call. The sequence of calls ends.
\<close>

theorem strtok_yields_tokens:
  assumes "cstr_at m p s" and "cstr_at m d ds"
    and "nullptr \<notin> region p (Suc (length s))"
    and "region p (Suc (length s)) \<inter> region d (Suc (length ds)) = {}"
  shows "\<exists>m' ts. tok_run m l p d m' ts \<and> list_all2 (cstr_at m') ts (tokens ds s)"
proof -
  have "(if p = nullptr then l else p) = p" using assms(3) by auto
  from tok_run_tokens [OF assms(1,2) this assms(3,4)] show ?thesis by blast
qed

theorem strtok_yields_tokens_witness:
  "\<exists>m' ts. tok_run (put_bytes Map.empty 16 [44, 65, 44, 44, 66, 0, 44, 0]) 0 16 22 m' ts
     \<and> list_all2 (cstr_at m') ts (tokens [44] [44, 65, 44, 44, 66])"
  by (rule strtok_yields_tokens) simp_all

end
