(* ===== verification/Ctype.thy ===== *)
theory Ctype
  imports Prelude
begin

text \<open>
  The character classification of \<^verbatim>\<open>kernel/Source/util/string.c\<close>. The functions take the
  promoted \<^verbatim>\<open>int\<close>; the predicates' \<^verbatim>\<open>int\<close> results are only used as truth values.
\<close>

definition isalpha :: "int \<Rightarrow> bool" where
  "isalpha c \<longleftrightarrow> (65 \<le> c \<and> c \<le> 90) \<or> (97 \<le> c \<and> c \<le> 122)"

definition isdigit :: "int \<Rightarrow> bool" where
  "isdigit c \<longleftrightarrow> 48 \<le> c \<and> c \<le> 57"

definition isalnum :: "int \<Rightarrow> bool" where
  "isalnum c \<longleftrightarrow> isalpha c \<or> isdigit c"

definition iscntrl :: "int \<Rightarrow> bool" where
  "iscntrl c \<longleftrightarrow> (0 \<le> c \<and> c < 32) \<or> c = 127"

definition isgraph :: "int \<Rightarrow> bool" where
  "isgraph c \<longleftrightarrow> 32 < c \<and> c < 127"

definition islower :: "int \<Rightarrow> bool" where
  "islower c \<longleftrightarrow> 97 \<le> c \<and> c \<le> 122"

definition isprint :: "int \<Rightarrow> bool" where
  "isprint c \<longleftrightarrow> 32 \<le> c \<and> c < 127"

definition isspace :: "int \<Rightarrow> bool" where
  "isspace c \<longleftrightarrow> c = 32 \<or> c = 9 \<or> c = 10 \<or> c = 11 \<or> c = 12 \<or> c = 13"

definition ispunct :: "int \<Rightarrow> bool" where
  "ispunct c \<longleftrightarrow> isprint c \<and> \<not> isalnum c \<and> \<not> isspace c"

definition isupper :: "int \<Rightarrow> bool" where
  "isupper c \<longleftrightarrow> 65 \<le> c \<and> c \<le> 90"

definition isxdigit :: "int \<Rightarrow> bool" where
  "isxdigit c \<longleftrightarrow> (48 \<le> c \<and> c \<le> 57) \<or> (65 \<le> c \<and> c \<le> 70) \<or> (97 \<le> c \<and> c \<le> 102)"

definition tolower :: "int \<Rightarrow> int" where
  "tolower c = (if isupper c then c + 32 else c)"

definition toupper :: "int \<Rightarrow> int" where
  "toupper c = (if islower c then c - 32 else c)"

lemmas ctype_defs = isalpha_def isdigit_def isalnum_def iscntrl_def isgraph_def islower_def
  isprint_def isspace_def ispunct_def isupper_def isxdigit_def tolower_def toupper_def

text \<open>
  Every ASCII code is either a control character, the space, alphanumeric or
  punctuation, and exactly one of them; letters are the upper and lower case ones, and the
  case conversions are inverse to each other on letters and keep everything else.
\<close>

theorem ctype_partition:
  assumes "0 \<le> c" and "c < 128"
  shows "(iscntrl c \<longleftrightarrow> \<not> isprint c) \<and> (isprint c \<longleftrightarrow> isgraph c \<or> c = 32)
    \<and> (isgraph c \<longleftrightarrow> isalnum c \<or> ispunct c) \<and> \<not> (isalnum c \<and> ispunct c)
    \<and> (isalpha c \<longleftrightarrow> isupper c \<or> islower c) \<and> \<not> (isupper c \<and> islower c)
    \<and> (isupper c \<longrightarrow> islower (tolower c) \<and> toupper (tolower c) = c)
    \<and> (islower c \<longrightarrow> isupper (toupper c) \<and> tolower (toupper c) = c)
    \<and> (\<not> isalpha c \<longrightarrow> tolower c = c \<and> toupper c = c)"
  using assms by (auto simp: ctype_defs)

theorem ctype_partition_witness:
  "isalpha 65 \<and> (isalpha 65 \<longleftrightarrow> isupper 65 \<or> islower 65)"
  using ctype_partition [of 65] by (simp add: ctype_defs)

end
