(* ===== verification/NumConv.thy ===== *)
theory NumConv
  imports StrFun Ctype
begin

text \<open>
  The conversions between numbers and text of \<^verbatim>\<open>kernel/Source/util/string.c\<close>. The three
  copies of each routine differ only in the type of the number, so each is written once
  over the width \<open>w\<close> of that type: 32 bits for \<^verbatim>\<open>int\<close>, 64 for \<^verbatim>\<open>long\<close> and
  \<^verbatim>\<open>long long\<close>. Signed overflow and division by zero are \<open>None\<close>.
\<close>

subsection \<open>atoi, atol, atoll\<close>

partial_function (option) skip_space :: "mem \<Rightarrow> addr \<Rightarrow> addr option" where
  "skip_space m p = do {
     c \<leftarrow> m p; if isspace (char_val c) then skip_space m (p + 1) else Some p }"

partial_function (option) scan_dec :: "nat \<Rightarrow> mem \<Rightarrow> addr \<Rightarrow> int \<Rightarrow> int option" where
  "scan_dec w m p res = do {
     c \<leftarrow> m p;
     if isdigit (char_val c) then do {
       r10 \<leftarrow> chk w (res * 10);
       r \<leftarrow> chk w (r10 + (char_val c - 48));
       scan_dec w m (p + 1) r }
     else Some res }"

definition scan_sign :: "mem \<Rightarrow> addr \<Rightarrow> (int \<times> addr) option" where
  "scan_sign m p = do {
     c \<leftarrow> m p;
     Some (if c = 45 then (- 1, p + 1) else if c = 43 then (1, p + 1) else (1, p)) }"

definition ato :: "nat \<Rightarrow> mem \<Rightarrow> addr \<Rightarrow> int option" where
  "ato w m str = do {
     p \<leftarrow> skip_space m str;
     (sign, p) \<leftarrow> scan_sign m p;
     res \<leftarrow> scan_dec w m p 0;
     chk w (sign * res) }"

definition atoi :: "mem \<Rightarrow> addr \<Rightarrow> int option" where
  "atoi m str = ato 32 m str"

definition atol :: "mem \<Rightarrow> addr \<Rightarrow> int option" where
  "atol m str = ato 64 m str"

definition atoll :: "mem \<Rightarrow> addr \<Rightarrow> int option" where
  "atoll m str = ato 64 m str"

subsection \<open>itoa, ltoa, lltoa\<close>

text \<open>
  The indices of these loops count at most 65 characters, so they are natural numbers;
  \<^verbatim>\<open>reverse\<close> is only called with a positive length.
\<close>

function reverse_loop :: "mem \<Rightarrow> addr \<Rightarrow> nat \<Rightarrow> nat \<Rightarrow> mem option" where
  "reverse_loop m str i j =
     (if i < j then do {
        temp \<leftarrow> m (str + of_nat i);
        b \<leftarrow> m (str + of_nat j);
        m1 \<leftarrow> write8 m (str + of_nat i) b;
        m2 \<leftarrow> write8 m1 (str + of_nat j) temp;
        reverse_loop m2 str (i + 1) (j - 1) }
      else Some m)"
  by pat_completeness auto
termination
  by (relation "measure (\<lambda>(m, str, i, j). j - i)") auto

definition reverse :: "mem \<Rightarrow> addr \<Rightarrow> nat \<Rightarrow> mem option" where
  "reverse m str len = reverse_loop m str 0 (len - 1)"

definition digit_char :: "int \<Rightarrow> u8" where
  "digit_char r = word_of_int (if 9 < r then (r - 10) + 97 else r + 48)"

partial_function (option) digits_loop ::
    "nat \<Rightarrow> mem \<Rightarrow> addr \<Rightarrow> nat \<Rightarrow> int \<Rightarrow> int \<Rightarrow> (mem \<times> nat) option" where
  "digits_loop w m str i num base =
     (if num = 0 then Some (m, i)
      else if base = 0 then None
      else do {
        q \<leftarrow> chk w (quot num base);
        m' \<leftarrow> write8 m (str + of_nat i) (digit_char (remd num base));
        digits_loop w m' str (i + 1) q base })"

definition toa :: "nat \<Rightarrow> mem \<Rightarrow> int \<Rightarrow> addr \<Rightarrow> int \<Rightarrow> (mem \<times> addr) option" where
  "toa w m num str base =
     (if num = 0 then do {
        m1 \<leftarrow> write8 m str 48;
        m2 \<leftarrow> write8 m1 (str + 1) 0;
        Some (m2, str) }
      else do {
        let neg = (num < 0 \<and> base = 10);
        num \<leftarrow> (if neg then chk w (- num) else Some num);
        (m1, i) \<leftarrow> digits_loop w m str 0 num base;
        (m2, i) \<leftarrow> (if neg then do { m2 \<leftarrow> write8 m1 (str + of_nat i) 45; Some (m2, i + 1) }
                   else Some (m1, i));
        m3 \<leftarrow> write8 m2 (str + of_nat i) 0;
        m4 \<leftarrow> reverse m3 str i;
        Some (m4, str) })"

definition itoa :: "mem \<Rightarrow> int \<Rightarrow> addr \<Rightarrow> int \<Rightarrow> (mem \<times> addr) option" where
  "itoa m num str base = toa 32 m num str base"

definition ltoa :: "mem \<Rightarrow> int \<Rightarrow> addr \<Rightarrow> int \<Rightarrow> (mem \<times> addr) option" where
  "ltoa m num str base = toa 64 m num str base"

definition lltoa :: "mem \<Rightarrow> int \<Rightarrow> addr \<Rightarrow> int \<Rightarrow> (mem \<times> addr) option" where
  "lltoa m num str base = toa 64 m num str base"

subsection \<open>strtol, strtoll\<close>

definition digit_of :: "int \<Rightarrow> int option" where
  "digit_of c = (if isdigit c then Some (c - 48)
    else if isalpha c then Some (tolower c - 97 + 10) else None)"

text \<open>
  The loop gives the pointer, the value and the flag \<^verbatim>\<open>valid\<close> it ends with. \<open>limit\<close> is
  the smallest or largest value of the type, by the sign.
\<close>

partial_function (option) strto_loop ::
    "nat \<Rightarrow> mem \<Rightarrow> int \<Rightarrow> int \<Rightarrow> int \<Rightarrow> addr \<Rightarrow> int \<Rightarrow> bool \<Rightarrow> (addr \<times> int \<times> bool) option" where
  "strto_loop w m base limit threshold p result valid = do {
     c \<leftarrow> m p;
     if c = 0 then Some (p, result, valid)
     else case digit_of (char_val c) of
       None \<Rightarrow> Some (p, result, valid)
     | Some digit \<Rightarrow>
         (if base \<le> digit then Some (p, result, valid)
          else if result < threshold \<or> (result = threshold \<and> remd limit base < digit)
          then Some (p, limit, True)
          else do {
            r1 \<leftarrow> chk w (result * base);
            r2 \<leftarrow> chk w (r1 + digit);
            strto_loop w m base limit threshold (p + 1) r2 True }) }"

text \<open>
  The value, and the pointer for \<^verbatim>\<open>endptr\<close>; an invalid base returns before there is one.
\<close>

definition strto :: "nat \<Rightarrow> mem \<Rightarrow> addr \<Rightarrow> int \<Rightarrow> (int \<times> addr option) option" where
  "strto w m str base =
     (if base < 0 \<or> base = 1 \<or> 36 < base then Some (0, None)
      else do {
        p \<leftarrow> skip_space m str;
        (sign, p) \<leftarrow> scan_sign m p;
        let limit = (if sign = - 1 then - (2 ^ (w - 1)) else 2 ^ (w - 1) - 1);
        threshold \<leftarrow> (if base = 0 then None else chk w (quot limit base));
        (p, result, valid) \<leftarrow> strto_loop w m base limit threshold p 0 False;
        let (p, result) = (if valid then (p, result) else (str, 0));
        v \<leftarrow> chk w (sign * result);
        Some (v, Some p) })"

text \<open>The pointer is stored last, where \<^verbatim>\<open>endptr\<close> is not null.\<close>

definition store_end :: "mem \<Rightarrow> addr \<Rightarrow> int \<times> addr option \<Rightarrow> (mem \<times> int) option" where
  "store_end m endptr = (\<lambda>(v, e). case e of
     None \<Rightarrow> Some (m, v)
   | Some p \<Rightarrow> if endptr = nullptr then Some (m, v) else map_option (\<lambda>m'. (m', v)) (write64 m endptr p))"

definition strtol :: "mem \<Rightarrow> addr \<Rightarrow> addr \<Rightarrow> int \<Rightarrow> (mem \<times> int) option" where
  "strtol m str endptr base = strto 64 m str base \<bind> store_end m endptr"

definition strtoll :: "mem \<Rightarrow> addr \<Rightarrow> addr \<Rightarrow> int \<Rightarrow> (mem \<times> int) option" where
  "strtoll m str endptr base = strto 64 m str base \<bind> store_end m endptr"

declare reverse_loop.simps [simp del]

lemmas num_loops = skip_space.simps scan_dec.simps reverse_loop.simps digits_loop.simps
  strto_loop.simps

declare num_loops [run_simps]

subsection \<open>Reading decimal numbers\<close>

definition dec_value :: "int \<Rightarrow> u8 list \<Rightarrow> int" where
  "dec_value v ds = foldl (\<lambda>v d. v * 10 + (sint d - 48)) v ds"

lemma dec_value_Nil [simp]: "dec_value v [] = v"
  and dec_value_Cons [simp]: "dec_value v (d # ds) = dec_value (v * 10 + (sint d - 48)) ds"
  and dec_value_snoc [simp]: "dec_value v (ds @ [d]) = dec_value v ds * 10 + (sint d - 48)"
  by (simp_all add: dec_value_def)

abbreviation digits :: "u8 list \<Rightarrow> bool" where
  "digits ds \<equiv> \<forall>d \<in> set ds. isdigit (sint d)"

abbreviation spaces :: "u8 list \<Rightarrow> bool" where
  "spaces sp \<equiv> \<forall>c \<in> set sp. isspace (sint c)"

lemma dec_value_ge: "digits ds \<Longrightarrow> 0 \<le> v \<Longrightarrow> v \<le> dec_value v ds"
proof (induction ds arbitrary: v)
  case Nil
  then show ?case by simp
next
  case (Cons d ds)
  then have "48 \<le> sint d" by (simp add: isdigit_def)
  with Cons.prems(2) have "v \<le> v * 10 + (sint d - 48)" by simp
  with Cons.IH [of "v * 10 + (sint d - 48)"] Cons.prems show ?case by simp
qed

text \<open>
  The digit loop gives the value of the digits where it fits the type, and is undefined
  where it does not: an intermediate value is never larger than the final one.
\<close>

lemma scan_dec_digits:
  assumes "digits ds" and "t = [] \<or> \<not> isdigit (sint (hd t))"
  shows "cstr_at m p (ds @ t) \<Longrightarrow> 0 \<le> v \<Longrightarrow> in_signed w v \<Longrightarrow>
    scan_dec w m p v = chk w (dec_value v ds)"
  using assms(1)
proof (induction ds arbitrary: p v)
  case Nil
  show ?case
  proof (cases t)
    case Nil
    with Nil.prems show ?thesis by (subst scan_dec.simps) (simp add: isdigit_def)
  next
    case (Cons c t')
    with Nil.prems assms(2) show ?thesis by (subst scan_dec.simps) simp
  qed
next
  case (Cons d ds)
  let ?v = "v * 10 + (sint d - 48)"
  have d: "isdigit (sint d)" "48 \<le> sint d" using Cons.prems(4) by (simp_all add: isdigit_def)
  have ge: "?v \<le> dec_value ?v ds" using Cons.prems(2,4) d(2) by (intro dec_value_ge) auto
  have v: "0 \<le> ?v" "v * 10 \<le> ?v" using Cons.prems(2) d(2) by simp_all
  show ?case
  proof (cases "in_signed w ?v")
    case True
    then have "in_signed w (v * 10)" using v Cons.prems(2) in_signed_between [of "v * 10" ?v w] by simp
    with True Cons d v show ?thesis by (subst scan_dec.simps) simp
  next
    case False
    then have "\<not> in_signed w (dec_value ?v ds)" using v(1) ge in_signed_between by blast
    moreover have "scan_dec w m p v = None"
      using Cons.prems(1) d(1) False
      by (subst scan_dec.simps) (auto simp: chk_def)
    ultimately show ?thesis by simp
  qed
qed

lemma skip_space_spaces:
  assumes "spaces sp" and "t = [] \<or> \<not> isspace (sint (hd t))"
  shows "cstr_at m p (sp @ t) \<Longrightarrow> skip_space m p = Some (p + of_nat (length sp))"
  using assms(1)
proof (induction sp arbitrary: p)
  case Nil
  show ?case
  proof (cases t)
    case Nil
    with Nil.prems show ?thesis by (subst skip_space.simps) (simp add: isspace_def)
  next
    case (Cons c t')
    with Nil.prems assms(2) show ?thesis by (subst skip_space.simps) simp
  qed
next
  case (Cons c sp)
  then show ?case by (subst skip_space.simps) (simp add: add.assoc)
qed

text \<open>The optional sign of a number: nothing, a plus or a minus.\<close>

definition sign_of :: "u8 list \<Rightarrow> int" where
  "sign_of sg = (if sg = [45] then - 1 else 1)"

abbreviation sign_text :: "u8 list \<Rightarrow> bool" where
  "sign_text sg \<equiv> sg = [] \<or> sg = [43] \<or> sg = [45]"

lemma scan_sign_text:
  assumes "cstr_at m p (sg @ t)" "sign_text sg" "t \<noteq> []" "hd t \<noteq> 43" "hd t \<noteq> 45"
  shows "scan_sign m p = Some (sign_of sg, p + of_nat (length sg))"
  using assms by (cases t) (auto simp: scan_sign_def sign_of_def)

lemma prefix_hd:
  assumes "digits ds" "ds \<noteq> []" "sign_text sg"
  shows "\<not> isspace (sint (hd (sg @ ds @ t)))" "hd (ds @ t) \<noteq> 43" "hd (ds @ t) \<noteq> 45"
    "isdigit (sint (hd (ds @ t)))"
proof -
  obtain d ds' where ds: "ds = d # ds'" using assms(2) by (cases ds) auto
  then have d: "isdigit (sint d)" using assms(1) by simp
  then have "d \<noteq> 43" "d \<noteq> 45" by (auto simp: isdigit_def)
  with ds d show "hd (ds @ t) \<noteq> 43" "hd (ds @ t) \<noteq> 45" "isdigit (sint (hd (ds @ t)))" by simp_all
  show "\<not> isspace (sint (hd (sg @ ds @ t)))"
    using assms(3) d ds by (auto simp: isspace_def isdigit_def)
qed

lemma ato_spec:
  assumes at: "cstr_at m p (sp @ sg @ ds @ t)" and "spaces sp" "sign_text sg" "digits ds" "ds \<noteq> []"
    and "t = [] \<or> \<not> isdigit (sint (hd t))" "1 < w"
  shows "ato w m p = (if dec_value 0 ds < 2 ^ (w - 1) then Some (sign_of sg * dec_value 0 ds) else None)"
proof -
  note hds = prefix_hd [OF assms(4,5,3), of t]
  let ?p1 = "p + of_nat (length sp)" and ?p2 = "p + of_nat (length sp) + of_nat (length sg)"
  have at1: "cstr_at m ?p1 (sg @ ds @ t)"
    using at cstr_at_append [of m p sp "sg @ ds @ t"] by blast
  then have at2: "cstr_at m ?p2 (ds @ t)"
    using cstr_at_append [of m ?p1 sg "ds @ t"] by blast
  have "skip_space m p = Some ?p1"
    using at assms(2) hds(1) by (intro skip_space_spaces) auto
  moreover have "scan_sign m ?p1 = Some (sign_of sg, ?p2)"
    using assms(5) by (intro scan_sign_text [OF at1 assms(3) _ hds(2,3)]) simp
  moreover have "scan_dec w m ?p2 0 = chk w (dec_value 0 ds)"
    using at2 assms(4,6) by (intro scan_dec_digits) auto
  moreover have nn: "0 \<le> dec_value 0 ds" using dec_value_ge [OF assms(4), of 0] by simp
  moreover have "chk w (sign_of sg * dec_value 0 ds) = Some (sign_of sg * dec_value 0 ds)"
    if "in_signed w (dec_value 0 ds)"
    using that nn in_signed_uminus by (auto simp: sign_of_def)
  ultimately show ?thesis
    using in_signed_nonneg [OF nn, of w] by (cases "in_signed w (dec_value 0 ds)") (simp_all add: ato_def)
qed

lemma atoi_spec:
  assumes "cstr_at m p (sp @ sg @ ds @ t)" and "spaces sp" and "sign_text sg"
    and "digits ds" and "ds \<noteq> []" and "t = [] \<or> \<not> isdigit (sint (hd t))"
  shows "atoi m p
    = (if dec_value 0 ds < 2 ^ 31 then Some (sign_of sg * dec_value 0 ds) else None)"
  using ato_spec [OF assms, of 32] by (simp add: atoi_def)

text \<open>
  \<open>atoi\<close> of optional spaces, an optional sign, at least one digit and any text that does
  not continue the digits is the signed value of the digits where that value is below
  \<open>2 ^ 31\<close>. From \<open>2 ^ 31\<close> on the result is undefined, also for the text of the smallest
  \<^verbatim>\<open>int\<close>: the digits are accumulated before the sign is applied.
\<close>

theorem atoi_value:
  assumes "cstr_at m p (sp @ sg @ ds @ t)" and "spaces sp" and "sign_text sg"
    and "digits ds" and "ds \<noteq> []" and "t = [] \<or> \<not> isdigit (sint (hd t))"
  shows "atoi m p
    = (if dec_value 0 ds < 2 ^ 31 then Some (sign_of sg * dec_value 0 ds) else None)"
  by (rule atoi_spec [OF assms])

theorem atoi_value_witness:
  "atoi (put_bytes Map.empty 16 [32, 45, 52, 50, 120, 0]) 16
     = (if dec_value 0 [52, 50] < 2 ^ 31 then Some (sign_of [45] * dec_value 0 [52, 50]) else None)"
  by (rule atoi_value [where sp = "[32]" and t = "[120]"]) (simp_all add: isspace_def isdigit_def)

subsection \<open>Writing numbers\<close>

text \<open>The digits of a positive number, least significant first, as the loop writes them.\<close>

function lsd_digits :: "int \<Rightarrow> int \<Rightarrow> u8 list" where
  "lsd_digits base n =
     (if n \<le> 0 \<or> base < 2 then [] else digit_char (n mod base) # lsd_digits base (n div base))"
  by pat_completeness auto
termination
  by (relation "measure (\<lambda>(base, n). nat n)") (auto simp: nat_less_eq_zless int_div_less_self)

declare lsd_digits.simps [simp del]

lemma lsd_digits_0 [simp]: "lsd_digits base 0 = []"
  by (simp add: lsd_digits.simps)

lemma lsd_digits_pos:
  "0 < n \<Longrightarrow> 2 \<le> base \<Longrightarrow> lsd_digits base n = digit_char (n mod base) # lsd_digits base (n div base)"
  by (subst lsd_digits.simps) simp

lemma lsd_digits_nonempty: "0 < n \<Longrightarrow> 2 \<le> base \<Longrightarrow> lsd_digits base n \<noteq> []"
  by (simp add: lsd_digits_pos)

lemma lsd_digits_length:
  "2 \<le> base \<Longrightarrow> 0 \<le> n \<Longrightarrow> n < base ^ k \<Longrightarrow> length (lsd_digits base n) \<le> k"
proof (induction k arbitrary: n)
  case 0
  then have "n = 0" by simp
  then show ?case by simp
next
  case (Suc k)
  show ?case
  proof (cases "n = 0")
    case False
    have "n div base < base ^ k"
    proof (rule ccontr)
      assume "\<not> n div base < base ^ k"
      then have "base ^ k * base \<le> n div base * base"
        using Suc.prems(1) by (intro mult_right_mono) simp_all
      also have "\<dots> \<le> n"
        using Suc.prems(1) by (simp add: minus_mod_eq_div_mult [symmetric])
      finally show False using Suc.prems(3) by (simp add: mult.commute)
    qed
    with Suc False show ?thesis by (simp add: lsd_digits_pos pos_imp_zdiv_nonneg_iff)
  qed simp
qed

lemma digits_loop_spec:
  assumes "2 \<le> base"
  shows "0 \<le> n \<Longrightarrow> in_signed w n \<Longrightarrow>
    mapped m (str + of_nat i) (length (lsd_digits base n)) \<Longrightarrow>
    digits_loop w m str i n base
      = Some (put_bytes m (str + of_nat i) (lsd_digits base n), i + length (lsd_digits base n))"
  using assms
proof (induction base n arbitrary: m i rule: lsd_digits.induct)
  case (1 base n)
  show ?case
  proof (cases "n = 0")
    case True
    then show ?thesis by (subst digits_loop.simps) simp
  next
    case False
    then have pos: "0 < n" using "1.prems"(1) by simp
    let ?q = "n div base" and ?d = "digit_char (n mod base)"
    have "n div base \<le> n" using pos "1.prems"(4) by (simp add: int_div_le_self pos_imp_zdiv_neg_iff)
    then have q: "0 \<le> ?q" "in_signed w ?q"
      using in_signed_between [of ?q n w] pos "1.prems"(2,4) by (simp_all add: pos_imp_zdiv_nonneg_iff)
    from "1.prems"(3) obtain c where c: "m (str + of_nat i) = Some c"
      and mp: "mapped m (str + of_nat i + 1) (length (lsd_digits base ?q))"
      using pos "1.prems"(4) by (auto simp: lsd_digits_pos)
    have "digits_loop w (m(str + of_nat i \<mapsto> ?d)) str (i + 1) ?q base
        = Some (put_bytes (m(str + of_nat i \<mapsto> ?d)) (str + of_nat (i + 1)) (lsd_digits base ?q),
            i + 1 + length (lsd_digits base ?q))"
      using "1.IH" [of "m(str + of_nat i \<mapsto> ?d)" "i + 1"] q mp pos "1.prems"(4)
      by (simp add: algebra_simps)
    with pos c q "1.prems"(4) show ?thesis
      by (subst digits_loop.simps) (simp add: lsd_digits_pos algebra_simps)
  qed
qed

text \<open>
  The swap loop of \<^verbatim>\<open>reverse\<close> turns the part between its two indices around and leaves
  the rest of the object, and all other memory, alone.
\<close>

lemma reverse_loop_spec:
  "bytes_at m str (xs @ mid @ ys) \<Longrightarrow> length (xs @ mid @ ys) \<le> 2 ^ 64 \<Longrightarrow>
   i = length xs \<Longrightarrow> j = length xs + length mid - 1 \<Longrightarrow>
   \<exists>m'. reverse_loop m str i j = Some m' \<and> bytes_at m' str (xs @ rev mid @ ys)
     \<and> (\<forall>q. q \<notin> region str (length (xs @ mid @ ys)) \<longrightarrow> m' q = m q)"
proof (induction "length mid" arbitrary: m xs mid ys i j rule: less_induct)
  case less
  show ?case
  proof (cases "i < j")
    case False
    then have "length mid \<le> 1" using less.prems(3,4) by simp
    then have "rev mid = mid" by (cases mid) auto
    with False less.prems(1) show ?thesis by (subst reverse_loop.simps) simp
  next
    case True
    then have two: "2 \<le> length mid" using less.prems(3,4) by simp
    then obtain a rest where rest: "mid = a # rest" by (cases mid) auto
    with two have "rest \<noteq> []" by auto
    with rest obtain mid' b where mid: "mid = a # mid' @ [b]" by (metis rev_exhaust)
    let ?bs = "xs @ mid @ ys"
    have len: "i < length ?bs" "j < length ?bs" "length ?bs \<le> 2 ^ 64"
      using less.prems(2-4) two by auto
    have nth: "?bs ! i = a" "?bs ! j = b"
      using less.prems(3,4) mid by (auto simp: nth_append)
    note rd = bytes_at_nth [OF less.prems(1) len(1)] bytes_at_nth [OF less.prems(1) len(2)]
    let ?m1 = "m(str + of_nat i \<mapsto> b)" and ?m2 = "m(str + of_nat i \<mapsto> b, str + of_nat j \<mapsto> a)"
    have b1: "bytes_at ?m1 str (?bs[i := b])"
      using less.prems(1) len by (intro bytes_at_update) simp_all
    have "bytes_at ?m2 str (?bs[i := b, j := a])"
      using len by (intro bytes_at_update [OF b1]) simp_all
    moreover have "?bs[i := b, j := a] = (xs @ [b]) @ mid' @ (a # ys)"
      using less.prems(3,4) mid by (simp add: list_update_append)
    ultimately have b2: "bytes_at ?m2 str ((xs @ [b]) @ mid' @ (a # ys))" by simp
    have "length ((xs @ [b]) @ mid' @ (a # ys)) \<le> 2 ^ 64" using len(3) mid by simp
    moreover have "i + 1 = length (xs @ [b])" "j - 1 = length (xs @ [b]) + length mid' - 1"
      using less.prems(3,4) mid by simp_all
    ultimately obtain m' where m': "reverse_loop ?m2 str (i + 1) (j - 1) = Some m'"
      "bytes_at m' str ((xs @ [b]) @ rev mid' @ (a # ys))"
      "\<forall>q. q \<notin> region str (length ((xs @ [b]) @ mid' @ (a # ys))) \<longrightarrow> m' q = ?m2 q"
      using less.hyps [OF _ b2, of "i + 1" "j - 1"] mid by auto
    have lens: "length ((xs @ [b]) @ mid' @ (a # ys)) = length ?bs" using mid by simp
    have "m' q = m q" if "q \<notin> region str (length ?bs)" for q
    proof -
      have "q \<noteq> str + of_nat i" "q \<noteq> str + of_nat j"
        using that len(1,2) in_region by blast+
      moreover have "m' q = ?m2 q" using m'(3) that unfolding lens by blast
      ultimately show ?thesis by simp
    qed
    moreover have "reverse_loop m str i j = Some m'"
      using True rd nth m'(1) by (subst reverse_loop.simps) (simp add: write8_def fun_upd_apply)
    moreover have "bytes_at m' str (xs @ rev mid @ ys)" using m'(2) mid by simp
    ultimately show ?thesis by blast
  qed
qed

lemma digit_char_val: "0 \<le> r \<Longrightarrow> r < 10 \<Longrightarrow> sint (digit_char r) = r + 48"
  using sint_ascii [of "r + 48"] by (simp add: digit_char_def del: of_int_add)

lemma digit_char_nonzero: "0 \<le> r \<Longrightarrow> r < 36 \<Longrightarrow> digit_char r \<noteq> 0"
proof -
  assume r: "0 \<le> r" "r < 36"
  then have "sint (digit_char r) \<noteq> 0"
    using sint_ascii [of "r + 48"] sint_ascii [of "r - 10 + 97"]
    by (auto simp: digit_char_def simp del: of_int_add)
  then show ?thesis by auto
qed

lemma lsd_digits_nonzero: "base \<le> 36 \<Longrightarrow> 0 \<notin> set (lsd_digits base n)"
proof (induction base n rule: lsd_digits.induct)
  case (1 base n)
  show ?case
  proof (cases "n \<le> 0 \<or> base < 2")
    case False
    then have "n mod base < base" "0 \<le> n mod base" by simp_all
    then have "digit_char (n mod base) \<noteq> 0"
      using "1.prems" by (intro digit_char_nonzero) linarith+
    with False "1.IH" "1.prems" show ?thesis by (subst lsd_digits.simps) simp
  qed (simp add: lsd_digits.simps)
qed

lemma lsd_digits_dec:
  "0 \<le> n \<Longrightarrow> digits (lsd_digits 10 n) \<and> dec_value 0 (rev (lsd_digits 10 n)) = n"
proof (induction "10 :: int" n rule: lsd_digits.induct)
  case (1 n)
  show ?case
  proof (cases "n = 0")
    case False
    then have "0 < n" using "1.prems" by simp
    moreover have "isdigit (sint (digit_char (n mod 10)))"
      using pos_mod_bound [of 10 n] by (simp add: digit_char_val isdigit_def)
    ultimately show ?thesis
      using "1.hyps" by (simp add: lsd_digits_pos digit_char_val pos_imp_zdiv_nonneg_iff)
  qed simp
qed

text \<open>
  The text a conversion writes, least significant character first, for a positive number
  in any base and for a negative one in base 10.
\<close>

definition lsd_text :: "int \<Rightarrow> int \<Rightarrow> u8 list" where
  "lsd_text base n = lsd_digits base \<bar>n\<bar> @ (if n < 0 then [45] else [])"

lemma toa_text:
  assumes "n \<noteq> 0" "2 \<le> base" "base \<le> 36" "0 < n \<or> base = 10"
    and "in_signed w \<bar>n\<bar>" "mapped m str (Suc (length (lsd_text base n)))"
    and "length (lsd_text base n) < 2 ^ 64"
  shows "\<exists>m'. toa w m n str base = Some (m', str) \<and> cstr_at m' str (rev (lsd_text base n))
    \<and> (\<forall>q. q \<notin> region str (Suc (length (lsd_text base n))) \<longrightarrow> m' q = m q)"
proof -
  let ?ds = "lsd_digits base \<bar>n\<bar>" and ?t = "lsd_text base n"
  let ?neg = "n < 0 \<and> base = 10"
  have neg: "?neg = (n < 0)" using assms(4) by auto
  have abs: "(if ?neg then chk w (- n) else Some n) = Some \<bar>n\<bar>"
    using assms(5) neg by (auto simp: abs_if)
  have mp: "mapped m str (length ?ds)" "mapped m str (length ?t)"
    using mapped_sub [OF assms(6), of 0 "length ?ds"] mapped_sub [OF assms(6), of 0 "length ?t"]
    by (simp_all add: lsd_text_def del: mapped.simps)
  have dl: "digits_loop w m str 0 \<bar>n\<bar> base = Some (put_bytes m str ?ds, length ?ds)"
    using digits_loop_spec [OF assms(2), of "\<bar>n\<bar>" w m str 0] assms(5) mp(1) by simp
  have sign: "(if ?neg then do { m2 \<leftarrow> write8 (put_bytes m str ?ds) (str + of_nat (length ?ds)) 45;
        Some (m2, length ?ds + 1) } else Some (put_bytes m str ?ds, length ?ds))
      = Some (put_bytes m str ?t, length ?t)"
  proof (cases "n < 0")
    case True
    have "m (str + of_nat (length ?ds)) \<noteq> None"
      using mp(2) True mapped_add [of m str "length ?ds" 1] by (simp add: lsd_text_def)
    then have "put_bytes m str ?ds (str + of_nat (length ?ds)) \<noteq> None"
      by (rule put_bytes_defined)
    with True neg show ?thesis by (auto simp: lsd_text_def put_bytes_append)
  qed (use neg in \<open>simp add: lsd_text_def\<close>)
  have "m (str + of_nat (length ?t)) \<noteq> None"
    using assms(6) mapped_add [of m str "length ?t" 1] by simp
  then have "put_bytes m str ?t (str + of_nat (length ?t)) \<noteq> None" by (rule put_bytes_defined)
  then have nul: "write8 (put_bytes m str ?t) (str + of_nat (length ?t)) 0
      = Some (put_bytes m str (?t @ [0]))"
    by (auto simp: put_bytes_append)
  have "bytes_at (put_bytes m str (?t @ [0])) str (?t @ [0])"
    using assms(7) by (intro bytes_at_put_bytes) simp
  then obtain m' where m': "reverse (put_bytes m str (?t @ [0])) str (length ?t) = Some m'"
    "bytes_at m' str (rev ?t @ [0])"
    "\<forall>q. q \<notin> region str (Suc (length ?t)) \<longrightarrow> m' q = m q"
    using reverse_loop_spec [of "put_bytes m str (?t @ [0])" str "[]" ?t "[0]" 0 "length ?t - 1"] assms(7)
    by (auto simp: reverse_def simp del: region_Suc)
  have "0 \<notin> set (rev ?t)" using lsd_digits_nonzero [OF assms(3)] by (auto simp: lsd_text_def)
  then have "cstr_at m' str (rev ?t)" using m'(2) by (simp add: cstr_at_def)
  moreover have "toa w m n str base = Some (m', str)"
    using assms(1) abs dl sign nul m'(1) by (simp add: toa_def Let_def)
  ultimately show ?thesis using m'(3) by (simp del: region_Suc)
qed

text \<open>
  C21: \<open>itoa\<close> in base 10 writes the decimal text of every \<^verbatim>\<open>int\<close> but the smallest, into
  a buffer of 12 bytes and only there, and \<open>atoi\<close> reads it back.
\<close>

theorem itoa_atoi_roundtrip:
  assumes "\<bar>n\<bar> < 2 ^ 31" and "mapped m str 12"
  shows "\<exists>m'. itoa m n str 10 = Some (m', str) \<and> atoi m' str = Some n
    \<and> (\<forall>q. q \<notin> region str 12 \<longrightarrow> m' q = m q)"
proof (cases "n = 0")
  case True
  have "mapped m str 2" using mapped_sub [OF assms(2), of 0 2] by simp
  then obtain a b where "m str = Some a" "m (str + 1) = Some b" by auto
  then have "itoa m n str 10 = Some (m(str \<mapsto> 48, str + 1 \<mapsto> 0), str)"
    using True by (auto simp: itoa_def toa_def write8_def fun_upd_apply)
  moreover have "cstr_at (m(str \<mapsto> 48, str + 1 \<mapsto> 0)) str [48]" by (simp add: fun_upd_apply)
  then have "atoi (m(str \<mapsto> 48, str + 1 \<mapsto> 0)) str = Some n"
    using atoi_spec [of _ str "[]" "[]" "[48]" "[]"] True by (simp add: isdigit_def)
  ultimately show ?thesis by (auto simp: fun_upd_apply)
next
  case False
  let ?ds = "lsd_digits 10 \<bar>n\<bar>" and ?t = "lsd_text 10 n"
  let ?sg = "if n < 0 then [45] else [] :: u8 list"
  have "length ?ds \<le> 10" using assms(1) by (intro lsd_digits_length) simp_all
  then have len: "length ?t \<le> 11" by (cases "n < 0") (simp_all add: lsd_text_def)
  then have "mapped m str (Suc (length ?t))" using mapped_sub [OF assms(2), of 0 "Suc (length ?t)"] by simp
  then obtain m' where m': "itoa m n str 10 = Some (m', str)" "cstr_at m' str (rev ?t)"
    "\<forall>q. q \<notin> region str (Suc (length ?t)) \<longrightarrow> m' q = m q"
    using toa_text [OF False, of 10 32 m str] assms(1) len
    by (auto simp: itoa_def in_signed_nonneg simp del: mapped.simps region_Suc)
  have rt: "rev ?t = [] @ ?sg @ rev ?ds @ []" by (simp add: lsd_text_def)
  have "atoi m' str = Some n"
    using atoi_spec [OF m'(2) [unfolded rt]] lsd_digits_dec [of "\<bar>n\<bar>"]
      lsd_digits_nonempty [of "\<bar>n\<bar>" 10] False assms(1)
    by (auto simp: sign_of_def)
  moreover have "region str (Suc (length ?t)) \<subseteq> region str 12" using len by (intro region_mono) simp
  ultimately show ?thesis using m'(1,3) by blast
qed

theorem itoa_atoi_roundtrip_witness:
  "\<exists>m'. itoa (put_bytes Map.empty 16 (replicate 12 9)) (- 42) 16 10 = Some (m', 16)
    \<and> atoi m' 16 = Some (- 42)"
  using itoa_atoi_roundtrip [of "- 42" "put_bytes Map.empty 16 (replicate 12 9)" 16,
    OF _ mapped_put_replicate] by auto

text \<open>
  A negative number in any base but 10 is not converted: the remainders are negative, and
  the characters written lie below the digit zero. Minus five in base 16 becomes a plus.
\<close>

lemma itoa_negative_base_16:
  "itoa (put_bytes Map.empty 16 [9, 9]) (- 5) 16 16 = Some (put_bytes Map.empty 16 [43, 0], 16)"
  by (simp add: itoa_def toa_def digits_loop.simps reverse_def reverse_loop.simps quot_def remd_def
      chk_def in_signed_def digit_char_def)

subsection \<open>strtol\<close>

definition valid_digit :: "int \<Rightarrow> u8 \<Rightarrow> bool" where
  "valid_digit base d = (case digit_of (sint d) of None \<Rightarrow> False | Some v \<Rightarrow> v < base)"

definition digit_val :: "u8 \<Rightarrow> int" where
  "digit_val d = (case digit_of (sint d) of None \<Rightarrow> 0 | Some v \<Rightarrow> v)"

definition base_value :: "int \<Rightarrow> int \<Rightarrow> u8 list \<Rightarrow> int" where
  "base_value base v ds = foldl (\<lambda>v d. v * base + digit_val d) v ds"

lemma base_value_Nil [simp]: "base_value base v [] = v"
  and base_value_Cons [simp]:
    "base_value base v (d # ds) = base_value base (v * base + digit_val d) ds"
  by (simp_all add: base_value_def)

lemma valid_digitD:
  "valid_digit base d \<Longrightarrow> digit_of (sint d) = Some (digit_val d) \<and> 0 \<le> digit_val d \<and> digit_val d < base"
  by (auto simp: valid_digit_def digit_val_def digit_of_def isdigit_def isalpha_def tolower_def
      isupper_def split: option.splits if_splits)

lemma valid_digit_not_special:
  assumes "valid_digit base d"
  shows "\<not> isspace (sint d)" "d \<noteq> 43" "d \<noteq> 45" "d \<noteq> 0"
  using assms by (auto simp: valid_digit_def digit_of_def isdigit_def isalpha_def isspace_def
      split: if_splits)

lemma base_value_ge:
  "\<forall>d \<in> set ds. valid_digit base d \<Longrightarrow> 1 \<le> base \<Longrightarrow> 0 \<le> v \<Longrightarrow> v \<le> base_value base v ds"
proof (induction ds arbitrary: v)
  case Nil
  then show ?case by simp
next
  case (Cons d ds)
  then have "0 \<le> digit_val d" using valid_digitD by auto
  moreover have "v \<le> v * base" using Cons.prems mult_left_mono [of 1 base v] by simp
  ultimately show ?case using Cons.IH [of "v * base + digit_val d"] Cons.prems by auto
qed

lemma strto_prefix:
  assumes at: "cstr_at m p (sp @ sg @ d # t)" and "spaces sp" "sign_text sg" "valid_digit base d"
  shows "skip_space m p = Some (p + of_nat (length sp))"
    and "scan_sign m (p + of_nat (length sp))
      = Some (sign_of sg, p + of_nat (length sp) + of_nat (length sg))"
    and "cstr_at m (p + of_nat (length sp) + of_nat (length sg)) (d # t)"
proof -
  note d = valid_digit_not_special [OF assms(4)]
  have at1: "cstr_at m (p + of_nat (length sp)) (sg @ d # t)"
    using at cstr_at_append [of m p sp "sg @ d # t"] by blast
  then show "cstr_at m (p + of_nat (length sp) + of_nat (length sg)) (d # t)"
    using cstr_at_append by blast
  have "\<not> isspace (sint (hd (sg @ d # t)))"
    using assms(3) d(1) by (auto simp: isspace_def)
  then show "skip_space m p = Some (p + of_nat (length sp))"
    by (intro skip_space_spaces [OF assms(2) _ at] disjI2)
  show "scan_sign m (p + of_nat (length sp))
      = Some (sign_of sg, p + of_nat (length sp) + of_nat (length sg))"
    using d by (intro scan_sign_text [OF at1 assms(3)]) simp_all
qed

text \<open>
  C22: \<open>strtol\<close> gives \<^verbatim>\<open>LONG_MAX\<close> for every number without a minus sign, in every base,
  and stores a pointer to its first digit through the end pointer, where that is not null: the
  overflow test compares the value read so far, zero, with a threshold that is positive.
\<close>

theorem strtol_positive_saturates:
  assumes "cstr_at m p (sp @ sg @ d # t)" and "spaces sp" and "sg = [] \<or> sg = [43]"
    and "2 \<le> base" and "base \<le> 36" and "valid_digit base d" and "endptr = nullptr \<or> mapped m endptr 8"
  shows "strtol m p endptr base
    = Some (if endptr = nullptr then m
        else put_bytes m endptr (le_bytes 8 (p + of_nat (length sp) + of_nat (length sg))), 2 ^ 63 - 1)"
proof -
  have sgn: "sign_text sg" "sign_of sg = 1" using assms(3) by (auto simp: sign_of_def)
  note pre = strto_prefix [OF assms(1,2) sgn(1) assms(6)]
  let ?p = "p + of_nat (length sp) + of_nat (length sg)" and ?max = "2 ^ 63 - 1 :: int"
  have q: "0 < ?max div base"
    using assms(4,5) by (simp add: pos_imp_zdiv_pos_iff)
  have "?max div base \<le> ?max" using assms(4) by (intro int_div_le_self) simp_all
  then have thr: "chk 64 (quot ?max base) = Some (?max div base)"
    using q assms(4) by (simp add: in_signed_nonneg)
  have "strto_loop 64 m base ?max (?max div base) ?p 0 False = Some (?p, ?max, True)"
    using pre(3) valid_digitD [OF assms(6)] q
    by (subst strto_loop.simps) simp
  with pre thr sgn(2) assms(4,5) show ?thesis
    using assms(7) by (auto simp: strtol_def strto_def store_end_def write64_def in_signed_nonneg)
qed

theorem strtol_positive_saturates_witness:
  "strtol (put_bytes Map.empty 16 [49, 50, 51, 0, 0, 0, 0, 0, 0, 0, 0, 0]) 16 20 10
     = Some (put_bytes (put_bytes Map.empty 16 [49, 50, 51, 0, 0, 0, 0, 0, 0, 0, 0, 0]) 20 (le_bytes 8 16),
         2 ^ 63 - 1)"
proof -
  let ?m = "put_bytes Map.empty 16 [49, 50, 51, 0, 0, 0, 0, 0, 0, 0, 0, 0]"
  have eight: "(8 :: nat) = Suc (Suc (Suc (Suc (Suc (Suc (Suc (Suc 0)))))))" by simp
  have "mapped ?m 20 8" unfolding eight mapped.simps by simp
  moreover have "cstr_at ?m 16 ([] @ [] @ 49 # [50, 51])" by (simp add: cstr_at_def)
  ultimately show ?thesis
    using strtol_positive_saturates [of ?m 16 "[]" "[]" 49 "[50, 51]" 10 20]
    by (simp add: valid_digit_def digit_of_def isdigit_def)
qed

lemma strto_loop_negative:
  assumes "2 \<le> base" and "t = [] \<or> \<not> valid_digit base (hd t)" and "thr < 0"
  shows "cstr_at m p (ds @ t) \<Longrightarrow> \<forall>d \<in> set ds. valid_digit base d \<Longrightarrow> 0 \<le> v \<Longrightarrow> in_signed w v \<Longrightarrow>
    strto_loop w m base limit thr p v b =
      (if in_signed w (base_value base v ds)
       then Some (p + of_nat (length ds), base_value base v ds, b \<or> ds \<noteq> []) else None)"
proof (induction ds arbitrary: p v b)
  case Nil
  show ?case
  proof (cases t)
    case Nil
    with Nil.prems show ?thesis by (subst strto_loop.simps) simp
  next
    case (Cons c t')
    with assms(2) have "digit_of (sint c) = None \<or> (\<exists>v. digit_of (sint c) = Some v \<and> base \<le> v)"
      by (auto simp: valid_digit_def split: option.splits)
    with Cons Nil.prems show ?thesis by (subst strto_loop.simps) auto
  qed
next
  case (Cons d ds)
  let ?v = "v * base + digit_val d"
  have d: "digit_of (sint d) = Some (digit_val d)" "0 \<le> digit_val d" "digit_val d < base"
    using Cons.prems(2) valid_digitD by auto
  have v: "0 \<le> v * base" "v * base \<le> ?v" using Cons.prems(3) assms(1) d(2) by simp_all
  have ge: "?v \<le> base_value base ?v ds"
    using Cons.prems(2) assms(1) v by (intro base_value_ge) auto
  have step: "strto_loop w m base limit thr p v b = do { r1 \<leftarrow> chk w (v * base);
      r2 \<leftarrow> chk w (r1 + digit_val d); strto_loop w m base limit thr (p + 1) r2 True }"
    using Cons.prems(1,3) d assms(3) by (subst strto_loop.simps) simp
  show ?case
  proof (cases "in_signed w ?v")
    case True
    then have "in_signed w (v * base)" using in_signed_between [OF v] by simp
    with step True Cons.IH [of "p + 1" ?v True] Cons.prems(1,2) v show ?thesis
      by (simp add: add.assoc)
  next
    case False
    then have "\<not> in_signed w (base_value base ?v ds)"
      using in_signed_between [of ?v "base_value base ?v ds" w] v ge by linarith
    with step False show ?thesis by (auto simp: chk_def)
  qed
qed

text \<open>
  \<open>strtol\<close> of a number with a minus sign is the negated value of its digits, with the
  end pointer after the last of them, as long as the value is below \<open>2 ^ 63\<close>; from there on
  it runs into signed overflow, which the test for it never reports.
\<close>

lemma strtol_negative_value:
  assumes "cstr_at m p (sp @ [45] @ ds @ t)" and "spaces sp"
    and "2 \<le> base" and "base \<le> 36"
    and "ds \<noteq> []" and "\<forall>d \<in> set ds. valid_digit base d" and "t = [] \<or> \<not> valid_digit base (hd t)"
  shows "strtol m p endptr base
    = (if base_value base 0 ds < 2 ^ 63
       then store_end m endptr (- base_value base 0 ds, Some (p + of_nat (length sp) + 1 + of_nat (length ds)))
       else None)"
proof -
  obtain d ds' where ds: "ds = d # ds'" using assms(5) by (cases ds) auto
  then have "cstr_at m p (sp @ [45] @ d # (ds' @ t))" "valid_digit base d"
    using assms(1,6) by simp_all
  note pre = strto_prefix [OF this(1) assms(2) _ this(2)]
  let ?p = "p + of_nat (length sp) + 1" and ?min = "- (2 ^ 63) :: int"
  have q: "quot ?min base = - (2 ^ 63 div base)"
    using assms(3) by (simp add: quot_def)
  have "0 < (2 ^ 63 :: int) div base" using assms(3,4) by (simp add: pos_imp_zdiv_pos_iff)
  moreover have "(2 ^ 63 :: int) div base \<le> 2 ^ 63" using assms(3) by (intro int_div_le_self) simp_all
  ultimately have thr: "quot ?min base < 0" "chk 64 (quot ?min base) = Some (quot ?min base)"
    unfolding q by (simp_all add: in_signed_def)
  have nn: "0 \<le> base_value base 0 ds" using base_value_ge [OF assms(6)] assms(3) by simp
  have "strto_loop 64 m base ?min (quot ?min base) ?p 0 False
      = (if in_signed 64 (base_value base 0 ds)
         then Some (?p + of_nat (length ds), base_value base 0 ds, True) else None)"
    using strto_loop_negative [OF assms(3,7) thr(1), of m ?p ds 0] pre(3) assms(5,6) ds by simp
  with pre thr(2) assms(3,4) in_signed_nonneg [OF nn, of 64] in_signed_uminus [OF nn, of 64]
  show ?thesis by (auto simp: strtol_def strto_def sign_of_def)
qed

lemma strtol_negative_value_example:
  "strtol (put_bytes Map.empty 16 [45, 102, 102, 0]) 16 nullptr 16
     = Some (put_bytes Map.empty 16 [45, 102, 102, 0], - 255)"
  using strtol_negative_value [of "put_bytes Map.empty 16 [45, 102, 102, 0]" 16 "[]" "[102, 102]" "[]" 16 nullptr]
  by (simp add: valid_digit_def digit_of_def isdigit_def isalpha_def tolower_def isupper_def store_end_def
      base_value_def digit_val_def)

end
