(* ===== verification/Sink.thy ===== *)
theory Sink
  imports Prelude
begin

text \<open>
  The interface between the formatter and the serial driver: the template parameter
  \<^verbatim>\<open>Serial\<close> of \<^verbatim>\<open>FmtBase\<close>, of which the formatter calls \<^verbatim>\<open>put\<close> alone.

  A sink sends one character per \<open>put\<close>; \<open>out\<close> is everything sent so far and \<open>ready\<close> the
  condition under which the provider promises that \<open>put\<close> returns. A routine of the client
  \<open>emits\<close> a text when from every ready state it returns in a ready state, having sent
  exactly that text.
\<close>

locale char_sink =
  fixes put :: "u8 \<Rightarrow> 's \<Rightarrow> 's option"
    and out :: "'s \<Rightarrow> u8 list"
    and ready :: "'s \<Rightarrow> bool"
  assumes put_sends: "ready s \<Longrightarrow> \<exists>s'. put c s = Some s' \<and> ready s' \<and> out s' = out s @ [c]"
begin

definition emits :: "('s \<Rightarrow> 's option) \<Rightarrow> u8 list \<Rightarrow> bool" where
  "emits f cs \<longleftrightarrow> (\<forall>s. ready s \<longrightarrow> (\<exists>s'. f s = Some s' \<and> ready s' \<and> out s' = out s @ cs))"

lemma emitsI:
  "(\<And>s. ready s \<Longrightarrow> \<exists>s'. f s = Some s' \<and> ready s' \<and> out s' = out s @ cs) \<Longrightarrow> emits f cs"
  by (simp add: emits_def)

lemma emitsD:
  "emits f cs \<Longrightarrow> ready s \<Longrightarrow> \<exists>s'. f s = Some s' \<and> ready s' \<and> out s' = out s @ cs"
  by (simp add: emits_def)

lemma emits_put: "emits (put c) [c]"
  by (intro emitsI put_sends)

lemma emits_skip: "emits Some []"
  by (simp add: emits_def)

text \<open>Sequencing of calls is concatenation of the texts.\<close>

lemma emits_seq:
  assumes "emits f cs" and "emits g ds"
  shows "emits (\<lambda>s. f s \<bind> g) (cs @ ds)"
proof (rule emitsI)
  fix s assume "ready s"
  from emitsD [OF assms(1) this] obtain s1
    where 1: "f s = Some s1" "ready s1" "out s1 = out s @ cs" by blast
  from emitsD [OF assms(2) 1(2)] obtain s2
    where "g s1 = Some s2" "ready s2" "out s2 = out s1 @ ds" by blast
  with 1 show "\<exists>s'. f s \<bind> g = Some s' \<and> ready s' \<and> out s' = out s @ cs @ ds" by simp
qed

lemma emits_put_seq: "emits g ds \<Longrightarrow> emits (\<lambda>s. put c s \<bind> g) (c # ds)"
  using emits_seq [OF emits_put [of c]] by force

lemma emits_eq: "emits f cs \<Longrightarrow> (\<And>s. f s = g s) \<Longrightarrow> emits g cs"
  by (simp add: emits_def)

end

end
