(* ===== verification/Serial.thy ===== *)
theory Serial
  imports Sink
begin

text \<open>
  Port I/O and model specific registers (\<^verbatim>\<open>arch/io.hh\<close>) and the serial driver
  (\<^verbatim>\<open>arch/serial.hh\<close>).

  The hardware is not code of the kernel: a device is a parameter that answers a port read
  from the trace of all port accesses so far. The state the driver threads is that trace.
  What the written bytes mean is stated against the documented registers of a 16550 UART
  (\<open>uart_event\<close>), which is specification, not a model of code. A driver loop that polls a
  device may spin for ever, so the polling functions are partial.
\<close>

subsection \<open>Port I/O\<close>

datatype io_event = In u16 u8 | Out u16 u8

type_synonym trace = "io_event list"
type_synonym device = "trace \<Rightarrow> u16 \<Rightarrow> u8"

definition io_out :: "u16 \<Rightarrow> u8 \<Rightarrow> trace \<Rightarrow> trace" where
  "io_out port v h = h @ [Out port v]"

definition io_in :: "device \<Rightarrow> u16 \<Rightarrow> trace \<Rightarrow> u8 \<times> trace" where
  "io_in dev port h = (dev h port, h @ [In port (dev h port)])"

subsection \<open>Model specific registers\<close>

text \<open>The register file as the instruction sees it: the halves in \<^verbatim>\<open>eax\<close> and \<^verbatim>\<open>edx\<close>.\<close>

type_synonym msr_file = "u32 \<Rightarrow> u32 \<times> u32"

definition msr_write :: "u32 \<Rightarrow> u64 \<Rightarrow> msr_file \<Rightarrow> msr_file" where
  "msr_write r v f = f(r := (ucast (v AND 0xFFFFFFFF), ucast (drop_bit 32 v)))"

definition msr_read :: "u32 \<Rightarrow> msr_file \<Rightarrow> u64" where
  "msr_read r f = (case f r of (low, high) \<Rightarrow> push_bit 32 (ucast high) OR ucast low)"

subsection \<open>The driver\<close>

definition DATA :: u16 where "DATA = 0"
definition IER :: u16 where "IER = 1"
definition FCR :: u16 where "FCR = 2"
definition LCR :: u16 where "LCR = 3"
definition MCR :: u16 where "MCR = 4"
definition LSR :: u16 where "LSR = 5"

lemmas reg_defs = DATA_def IER_def FCR_def LCR_def MCR_def LSR_def

text \<open>The template parameter \<^verbatim>\<open>BAUD\<close> is a 32-bit number; the divisor is cut to 16 bits.\<close>

definition divisor :: "u32 \<Rightarrow> u16" where
  "divisor baud = ucast (115200 div baud)"

definition serial_init :: "u16 \<Rightarrow> u32 \<Rightarrow> u8 \<Rightarrow> trace \<Rightarrow> trace" where
  "serial_init base baud ilcr h =
    (let h = io_out (base + IER) 0x00 h;
         h = io_out (base + LCR) 0x80 h;
         h = io_out (base + DATA) (ucast (divisor baud AND 0xFF)) h;
         h = io_out (base + IER) (ucast (drop_bit 8 (divisor baud))) h;
         h = io_out (base + LCR) ilcr h;
         h = io_out (base + FCR) 0xC7 h
     in io_out (base + MCR) 0x0B h)"

definition tx_ready :: "device \<Rightarrow> u16 \<Rightarrow> trace \<Rightarrow> bool \<times> trace" where
  "tx_ready dev base h = (case io_in dev (base + LSR) h of (v, h') \<Rightarrow> (v AND push_bit 5 1 \<noteq> 0, h'))"

definition rx_ready :: "device \<Rightarrow> u16 \<Rightarrow> trace \<Rightarrow> bool \<times> trace" where
  "rx_ready dev base h = (case io_in dev (base + LSR) h of (v, h') \<Rightarrow> (v AND 0x01 \<noteq> 0, h'))"

partial_function (option) spin :: "(trace \<Rightarrow> bool \<times> trace) \<Rightarrow> trace \<Rightarrow> trace option" where
  "spin ready h = (case ready h of (ok, h') \<Rightarrow> if ok then Some h' else spin ready h')"

definition serial_put :: "device \<Rightarrow> u16 \<Rightarrow> u8 \<Rightarrow> trace \<Rightarrow> trace option" where
  "serial_put dev base c h = do {
     h \<leftarrow> spin (tx_ready dev base) h;
     Some (io_out (base + DATA) c h)
   }"

definition serial_get :: "device \<Rightarrow> u16 \<Rightarrow> trace \<Rightarrow> (u8 \<times> trace) option" where
  "serial_get dev base h = do {
     h \<leftarrow> spin (rx_ready dev base) h;
     Some (io_in dev (base + DATA) h)
   }"

definition serial_flush :: "device \<Rightarrow> u16 \<Rightarrow> trace \<Rightarrow> trace option" where
  "serial_flush dev base h = spin (tx_ready dev base) h"

definition port_name :: "u16 \<Rightarrow> string" where
  "port_name base =
     (if base = 0x3F8 then ''COM1''
      else if base = 0x2F8 then ''COM2''
      else if base = 0x3E8 then ''COM3''
      else if base = 0x2E8 then ''COM4''
      else ''COM?'')"

subsection \<open>Model specific registers keep what is written\<close>

text \<open>
  Reading a model specific register gives back all 64 bits last written to it: the split
  into \<^verbatim>\<open>edx:eax\<close> and the join are inverse. Other registers keep their value.
\<close>

theorem msr_read_write:
  "msr_read r (msr_write q v f) = (if r = q then v else msr_read r f)"
proof -
  have low: "v AND 0xFFFFFFFF = take_bit 32 v" by (simp add: take_bit_eq_mask mask_eq_exp_minus_1)
  have "push_bit 32 (ucast (ucast (drop_bit 32 v) :: u32)) OR ucast (ucast (take_bit 32 v) :: u32) = (v :: u64)"
  proof (rule bit_word_eqI)
    fix n :: nat assume "n < LENGTH(64)"
    then show "bit (push_bit 32 (ucast (ucast (drop_bit 32 v) :: u32))
        OR ucast (ucast (take_bit 32 v) :: u32) :: u64) n = bit v n"
      by (cases "n < 32") (auto simp: bit_simps)
  qed
  then show ?thesis by (simp add: msr_read_def msr_write_def low)
qed

subsection \<open>Polling\<close>

text \<open>The trace after \<open>n\<close> further reads of a port: what a polling loop leaves behind.\<close>

fun polled :: "device \<Rightarrow> u16 \<Rightarrow> nat \<Rightarrow> trace \<Rightarrow> trace" where
  "polled dev port 0 h = h"
| "polled dev port (Suc n) h = polled dev port n (snd (io_in dev port h))"

definition status :: "device \<Rightarrow> u16 \<Rightarrow> nat \<Rightarrow> trace \<Rightarrow> u8" where
  "status dev base n h = dev (polled dev (base + LSR) n h) (base + LSR)"

lemma status_0: "dev h (base + LSR) = status dev base 0 h"
  by (simp add: status_def)

lemma status_Suc:
  "status dev base n (snd (io_in dev (base + LSR) h)) = status dev base (Suc n) h"
  by (simp add: status_def)

lemma bit_test: "((v :: u8) AND push_bit k 1 \<noteq> 0) = bit v k"
  by (simp add: and_exp_eq_0_iff_not_bit)

lemma bit_test_low: "((v :: u8) AND 1 \<noteq> 0) = bit v 0"
  using bit_test [of v 0] by simp

text \<open>
  A loop that polls one bit of the line status register returns exactly when a finite
  number of reads brings the bit, and it returns after the first of these.
\<close>

definition polls :: "device \<Rightarrow> u16 \<Rightarrow> nat \<Rightarrow> (trace \<Rightarrow> bool \<times> trace) \<Rightarrow> bool" where
  "polls dev base k ready \<longleftrightarrow> (\<forall>h. ready h =
     (bit (dev h (base + LSR)) k, snd (io_in dev (base + LSR) h)))"

lemma polls_tx [simp]: "polls dev base 5 (tx_ready dev base)"
  by (simp add: polls_def tx_ready_def io_in_def bit_test del: push_bit_of_1 push_bit_numeral)

lemma polls_rx [simp]: "polls dev base 0 (rx_ready dev base)"
  by (simp add: polls_def rx_ready_def io_in_def bit_test_low)

lemma spin_stops:
  "polls dev base k ready \<Longrightarrow> bit (status dev base n h) k \<Longrightarrow>
     \<exists>j. spin ready h = Some (polled dev (base + LSR) j h)"
proof (induction n arbitrary: h)
  case 0
  then have "spin ready h = Some (polled dev (base + LSR) 1 h)"
    by (subst spin.simps) (simp add: polls_def status_0)
  then show ?case by blast
next
  case (Suc n)
  let ?h = "snd (io_in dev (base + LSR) h)"
  show ?case
  proof (cases "bit (dev h (base + LSR)) k")
    case True
    then have "spin ready h = Some (polled dev (base + LSR) 1 h)"
      using Suc.prems(1) by (subst spin.simps) (simp add: polls_def)
    then show ?thesis by blast
  next
    case False
    obtain j where "spin ready ?h = Some (polled dev (base + LSR) j ?h)"
      using Suc.IH [OF Suc.prems(1), of ?h] Suc.prems(2) by (auto simp: status_Suc)
    then have "spin ready h = Some (polled dev (base + LSR) (Suc j) h)"
      using False Suc.prems(1) by (subst spin.simps) (simp add: polls_def)
    then show ?thesis by blast
  qed
qed

lemma spin_returned:
  assumes "spin ready h = Some h'" and "polls dev base k ready"
  shows "\<exists>n. bit (status dev base n h) k"
proof -
  have "polls dev base k ready \<longrightarrow> (\<exists>n. bit (status dev base n h) k)"
  proof (rule spin.raw_induct
      [where P = "\<lambda>ready h _. polls dev base k ready \<longrightarrow> (\<exists>n. bit (status dev base n h) k)",
        OF _ assms(1)])
    fix sp ready h h'
    assume IH: "\<And>r h b. sp r h = Some b \<Longrightarrow>
        polls dev base k r \<longrightarrow> (\<exists>n. bit (status dev base n h) k)"
      and step: "(case ready h of (ok, h') \<Rightarrow> if ok then Some h' else sp ready h') = Some h'"
    show "polls dev base k ready \<longrightarrow> (\<exists>n. bit (status dev base n h) k)"
    proof
      assume p: "polls dev base k ready"
      show "\<exists>n. bit (status dev base n h) k"
      proof (cases "bit (dev h (base + LSR)) k")
        case True
        then show ?thesis by (auto simp: status_0)
      next
        case False
        then have "sp ready (snd (io_in dev (base + LSR) h)) = Some h'"
          using step p by (auto simp: polls_def)
        from IH [OF this] p show ?thesis by (auto simp: status_Suc)
      qed
    qed
  qed
  with assms(2) show ?thesis by blast
qed

text \<open>
  C35: \<open>flush\<close> and \<open>put\<close> return exactly when a finite number of reads of the line status register
  finds the transmitter empty. On a device that never becomes ready they spin for ever.
\<close>

theorem serial_flush_returns_iff:
  "(\<exists>h'. serial_flush dev base h = Some h') = (\<exists>n. bit (status dev base n h) 5)
    \<and> (\<exists>h'. serial_put dev base c h = Some h') = (\<exists>n. bit (status dev base n h) 5)"
proof -
  have "(\<exists>h'. serial_flush dev base h = Some h') = (\<exists>n. bit (status dev base n h) 5)"
    using spin_stops [OF polls_tx, of dev base _ h] spin_returned [OF _ polls_tx, of dev base h]
    unfolding serial_flush_def by blast
  moreover have "(\<exists>h'. serial_put dev base c h = Some h') = (\<exists>h'. serial_flush dev base h = Some h')"
    by (auto simp: serial_put_def serial_flush_def split: bind_splits)
  ultimately show ?thesis by simp
qed

text \<open>\<open>get\<close> returns the byte the data port holds after the first read with data ready.\<close>

lemma serial_get_returns:
  assumes "bit (status dev base n h) 0"
  shows "\<exists>j. serial_get dev base h = (let h' = polled dev (base + LSR) j h
    in Some (dev h' (base + DATA), h' @ [In (base + DATA) (dev h' (base + DATA))]))"
proof -
  obtain j where "spin (rx_ready dev base) h = Some (polled dev (base + LSR) j h)"
    using spin_stops [OF polls_rx assms] by blast
  then show ?thesis by (intro exI [of _ j]) (simp add: serial_get_def io_in_def Let_def)
qed

subsection \<open>The registers of the UART\<close>

text \<open>
  Specification of the device as its data sheet has it: offsets 0 and 1 are the two halves of
  the divisor while the top bit of the line control register is set, else transmit data and
  interrupt enable.
\<close>

record uart =
  ier :: u8
  fcr :: u8
  lcr :: u8
  mcr :: u8
  dll :: u8
  dlm :: u8
  sent :: "u8 list"

definition dlab :: "uart \<Rightarrow> bool" where
  "dlab u = bit (lcr u) 7"

definition uart_write :: "u16 \<Rightarrow> u8 \<Rightarrow> uart \<Rightarrow> uart" where
  "uart_write r v u =
     (if r = 0 then (if dlab u then u\<lparr>dll := v\<rparr> else u\<lparr>sent := sent u @ [v]\<rparr>)
      else if r = 1 then (if dlab u then u\<lparr>dlm := v\<rparr> else u\<lparr>ier := v\<rparr>)
      else if r = 2 then u\<lparr>fcr := v\<rparr>
      else if r = 3 then u\<lparr>lcr := v\<rparr>
      else if r = 4 then u\<lparr>mcr := v\<rparr>
      else u)"

fun uart_event :: "u16 \<Rightarrow> io_event \<Rightarrow> uart \<Rightarrow> uart" where
  "uart_event base (Out p v) u = uart_write (p - base) v u"
| "uart_event base (In p v) u = u"

definition uart_after :: "u16 \<Rightarrow> uart \<Rightarrow> trace \<Rightarrow> uart" where
  "uart_after base u h = fold (uart_event base) h u"

lemma uart_after_out [simp]:
  "uart_after base u (io_out (base + r) v h) = uart_write r v (uart_after base u h)"
  by (simp add: uart_after_def io_out_def)

lemma uart_after_out_0 [simp]:
  "uart_after base u (io_out base v h) = uart_write 0 v (uart_after base u h)"
  using uart_after_out [of base u 0 v h] by simp

lemma uart_after_in [simp]: "uart_after base u (snd (io_in dev p h)) = uart_after base u h"
  by (simp add: uart_after_def io_in_def)

lemma uart_after_polled [simp]: "uart_after base u (polled dev p n h) = uart_after base u h"
  by (induction n arbitrary: h) simp_all

lemma divisor_exact:
  assumes "2 \<le> baud"
  shows "uint (divisor baud) = 115200 div uint baud"
proof -
  have "2 \<le> uint baud" using assms by (simp add: word_le_def)
  then have "115200 div uint baud \<le> 115200 div 2"
    by (intro zdiv_mono2) simp_all
  moreover have "0 \<le> 115200 div uint baud" by (simp add: div_int_pos_iff)
  ultimately have "115200 div uint baud < 65536" by simp
  moreover have "uint (115200 div baud) = 115200 div uint baud" by (simp add: uint_div)
  ultimately show ?thesis
    unfolding divisor_def by (simp add: unsigned_ucast_eq take_bit_eq_mod \<open>0 \<le> _\<close>)
qed

lemma divisor_bytes:
  "uint (ucast (drop_bit 8 d) :: u8) * 256 + uint (ucast (d AND 0xFF) :: u8) = uint (d :: u16)"
proof -
  have "uint d < 65536" using unsigned_less [of d] by simp
  then have "uint d div 256 < 256" by linarith
  then have "uint d div 256 mod 256 = uint d div 256" by (simp add: div_int_pos_iff)
  then have "uint d div 256 mod 256 * 256 + uint d mod 256 = uint d"
    by (simp only: div_mult_mod_eq)
  moreover have "d AND 0xFF = take_bit 8 d" by (simp add: take_bit_eq_mask mask_eq_exp_minus_1)
  ultimately show ?thesis
    by (simp add: unsigned_ucast_eq uint_div uint_mod take_bit_eq_mod drop_bit_eq_div)
qed

text \<open>
  C34: After \<open>init\<close> the UART divides its clock by 115200 / BAUD, has the line control the
  template asks for, its FIFOs enabled and nothing sent; its interrupts are off if the
  divisor latch was closed before. BAUD = 1, whose divisor does not fit 16 bits, is excluded.
\<close>

theorem serial_init_programs_uart:
  assumes "2 \<le> baud" and "\<not> bit ilcr 7"
    and "u = uart_after base u0 h" and "u' = uart_after base u0 (serial_init base baud ilcr h)"
  shows "uint (dlm u') * 256 + uint (dll u') = 115200 div uint baud
    \<and> lcr u' = ilcr \<and> fcr u' = 0xC7 \<and> mcr u' = 0x0B
    \<and> sent u' = sent u \<and> (dlab u \<or> ier u' = 0)"
proof -
  have "bit (0x80 :: u8) 7" by simp
  then have "u' = uart_write 4 0x0B (uart_write 2 0xC7 (
      (uart_write 1 0 u)\<lparr>dll := ucast (divisor baud AND 0xFF),
         dlm := ucast (drop_bit 8 (divisor baud)), lcr := ilcr\<rparr>))"
    unfolding assms(3,4)
    by (simp add: serial_init_def Let_def reg_defs uart_write_def [of 0] uart_write_def [of 1]
        uart_write_def [of 3] dlab_def)
  then show ?thesis
    using divisor_bytes [of "divisor baud"] divisor_exact [OF assms(1)]
    by (simp add: uart_write_def)
qed

theorem serial_init_programs_uart_witness:
  "let u = uart_after 0x3F8 \<lparr>ier = 7, fcr = 0, lcr = 0, mcr = 0, dll = 1, dlm = 1, sent = []\<rparr>
             (serial_init 0x3F8 9600 3 [])
   in uint (dlm u) * 256 + uint (dll u) = 12 \<and> ier u = 0 \<and> lcr u = 3"
  using serial_init_programs_uart
    [of 9600 3 _ "0x3F8" "\<lparr>ier = 7, fcr = 0, lcr = 0, mcr = 0, dll = 1, dlm = 1, sent = []\<rparr>" "[]"]
  by (simp add: uart_after_def dlab_def)

subsection \<open>The driver as a character sink\<close>

definition eventually_ready :: "device \<Rightarrow> u16 \<Rightarrow> bool" where
  "eventually_ready dev base \<longleftrightarrow> (\<forall>h. \<exists>n. bit (status dev base n h) 5)"

text \<open>
  With the divisor latch closed and a transmitter that always drains, \<open>put\<close> returns, and
  the UART transmits the character.
\<close>

lemma serial_put_sends:
  assumes "bit (status dev base n h) 5" and "\<not> dlab (uart_after base u h)"
  shows "\<exists>h'. serial_put dev base c h = Some h'
    \<and> uart_after base u h' = (uart_after base u h)\<lparr>sent := sent (uart_after base u h) @ [c]\<rparr>"
proof -
  obtain j where "spin (tx_ready dev base) h = Some (polled dev (base + LSR) j h)"
    using spin_stops [OF polls_tx assms(1)] by blast
  then show ?thesis using assms(2) by (simp add: serial_put_def DATA_def uart_write_def)
qed

interpretation serial_sink: char_sink "serial_put dev base" "\<lambda>h. sent (uart_after base u h)"
  "\<lambda>h. \<not> dlab (uart_after base u h) \<and> eventually_ready dev base"
  for dev :: device and base :: u16 and u :: uart
proof unfold_locales
  fix h c assume "\<not> dlab (uart_after base u h) \<and> eventually_ready dev base"
  moreover from this obtain n where "bit (status dev base n h) 5"
    by (auto simp: eventually_ready_def)
  ultimately obtain h' where "serial_put dev base c h = Some h'"
    "uart_after base u h' = (uart_after base u h)\<lparr>sent := sent (uart_after base u h) @ [c]\<rparr>"
    using serial_put_sends by blast
  with \<open>\<not> dlab _ \<and> _\<close> show "\<exists>h'. serial_put dev base c h = Some h'
      \<and> (\<not> dlab (uart_after base u h') \<and> eventually_ready dev base)
      \<and> sent (uart_after base u h') = sent (uart_after base u h) @ [c]"
    by (simp add: dlab_def)
qed

end
