(* ===== verification/FmtNum.thy ===== *)
theory FmtNum
  imports Memory Serial
begin

text \<open>
  The number printing of \<^verbatim>\<open>core/format.hh\<close>: \<^verbatim>\<open>put_hex\<close>, \<^verbatim>\<open>put_bin\<close>, \<^verbatim>\<open>put_dec\<close> and the
  static-buffer routines \<^verbatim>\<open>make_hex_string\<close>, \<^verbatim>\<open>make_bin_string\<close>, \<^verbatim>\<open>make_dec_string\<close>.

  A sink is the function \<^verbatim>\<open>Serial::put\<close> of the template argument over an abstract device
  state. A character buffer is the list of the characters written so far; the length of the
  list is the index the code keeps, and the characters past it are never read. The digit
  texts are compared with a positional notation \<open>num_text\<close> that knows no machine words.
\<close>

type_synonym 's sink = "u8 \<Rightarrow> 's \<Rightarrow> 's option"

definition upper_table :: "u8 list" where
  "upper_table = [48, 49, 50, 51, 52, 53, 54, 55, 56, 57, 65, 66, 67, 68, 69, 70]"

definition lower_table :: "u8 list" where
  "lower_table = [48, 49, 50, 51, 52, 53, 54, 55, 56, 57, 97, 98, 99, 100, 101, 102]"

subsection \<open>Fixed width\<close>

text \<open>
  The loop index is an \<^verbatim>\<open>int\<close>; a shift of a 64-bit value by 64 or more is undefined.
\<close>

function put_hex_loop :: "'s sink \<Rightarrow> u64 \<Rightarrow> int \<Rightarrow> 's \<Rightarrow> 's option" where
  "put_hex_loop put v i st =
     (if i < 0 then Some st
      else if 64 \<le> i then None
      else put (upper_table ! unat (drop_bit (nat i) v AND 0xF)) st
        \<bind> put_hex_loop put v (i - 4))"
  by pat_completeness auto
termination by (relation "measure (\<lambda>(put, v, i, st). nat (i + 1))") auto

definition put_hex :: "'s sink \<Rightarrow> u64 \<Rightarrow> int \<Rightarrow> 's \<Rightarrow> 's option" where
  "put_hex put v digits st = do {
     st \<leftarrow> put 48 st;
     st \<leftarrow> put 120 st;
     start \<leftarrow> chk 32 ((digits - 1) * 4);
     put_hex_loop put v start st
   }"

function put_bin_loop :: "'s sink \<Rightarrow> u64 \<Rightarrow> int \<Rightarrow> 's \<Rightarrow> 's option" where
  "put_bin_loop put v i st =
     (if i < 0 then Some st
      else if 64 \<le> i then None
      else put (if drop_bit (nat i) v AND 1 \<noteq> 0 then 49 else 48) st
        \<bind> put_bin_loop put v (i - 1))"
  by pat_completeness auto
termination by (relation "measure (\<lambda>(put, v, i, st). nat (i + 1))") auto

definition put_bin :: "'s sink \<Rightarrow> u64 \<Rightarrow> int \<Rightarrow> 's \<Rightarrow> 's option" where
  "put_bin put v bits st = do {
     st \<leftarrow> put 48 st;
     st \<leftarrow> put 98 st;
     start \<leftarrow> chk 32 (bits - 1);
     put_bin_loop put v start st
   }"

subsection \<open>Decimal\<close>

function dec_fill :: "u64 \<Rightarrow> u8 list \<Rightarrow> u8 list" where
  "dec_fill v buf =
     (let buf = buf @ [ucast (48 + v mod 10)]; v = v div 10
      in if v \<noteq> 0 \<and> length buf < 24 then dec_fill v buf else buf)"
  by pat_completeness auto
termination by (relation "measure (\<lambda>(v, buf). 24 - length buf)") auto

fun put_backwards :: "'s sink \<Rightarrow> u8 list \<Rightarrow> nat \<Rightarrow> 's \<Rightarrow> 's option" where
  "put_backwards put buf 0 st = Some st"
| "put_backwards put buf (Suc len) st = put (buf ! len) st \<bind> put_backwards put buf len"

definition put_dec :: "'s sink \<Rightarrow> u64 \<Rightarrow> 's \<Rightarrow> 's option" where
  "put_dec put v st = (let buf = dec_fill v [] in put_backwards put buf (length buf) st)"

subsection \<open>The static buffers\<close>

text \<open>\<^verbatim>\<open>for (i = 0; i < idx/2; ++i) swap(buf[i], buf[idx-1-i])\<close>.\<close>

function swap_halves :: "nat \<Rightarrow> u8 list \<Rightarrow> u8 list" where
  "swap_halves i buf =
     (if i < length buf div 2
      then swap_halves (Suc i) (buf[i := buf ! (length buf - 1 - i), length buf - 1 - i := buf ! i])
      else buf)"
  by pat_completeness auto
termination by (relation "measure (\<lambda>(i, buf). length buf div 2 - i)") auto

function hex_fill :: "u8 list \<Rightarrow> u64 \<Rightarrow> u8 list \<Rightarrow> u8 list" where
  "hex_fill table v buf =
     (if v \<noteq> 0 \<and> length buf < 16
      then hex_fill table (drop_bit 4 v) (buf @ [table ! unat (v AND 0xF)])
      else buf)"
  by pat_completeness auto
termination by (relation "measure (\<lambda>(table, v, buf). 16 - length buf)") auto

definition make_hex_string :: "u64 \<Rightarrow> bool \<Rightarrow> u8 list" where
  "make_hex_string v lowercase =
     (let table = if lowercase then lower_table else upper_table
      in if v = 0 then [48] else swap_halves 0 (hex_fill table v []))"

function bin_fill :: "u64 \<Rightarrow> u8 list \<Rightarrow> u8 list" where
  "bin_fill v buf =
     (if v \<noteq> 0 \<and> length buf < 64
      then bin_fill (drop_bit 1 v) (buf @ [if v AND 1 \<noteq> 0 then 49 else 48])
      else buf)"
  by pat_completeness auto
termination by (relation "measure (\<lambda>(v, buf). 64 - length buf)") auto

definition make_bin_string :: "u64 \<Rightarrow> u8 list" where
  "make_bin_string v = (if v = 0 then [48] else swap_halves 0 (bin_fill v []))"

definition make_dec_string :: "u64 \<Rightarrow> u8 list" where
  "make_dec_string v = swap_halves 0 (dec_fill v [])"

declare put_hex_loop.simps [simp del] put_bin_loop.simps [simp del] dec_fill.simps [simp del]
  swap_halves.simps [simp del] hex_fill.simps [simp del] bin_fill.simps [simp del]

subsection \<open>Reversal\<close>

lemma swap_halves_inv:
  assumes "length buf = n" and "i \<le> n div 2"
    and "\<And>k. k < n \<Longrightarrow> buf ! k = (if k < i \<or> n - 1 - k < i then xs ! (n - 1 - k) else xs ! k)"
    and "length xs = n"
  shows "swap_halves i buf = rev xs"
  using assms
proof (induction i buf rule: swap_halves.induct)
  case (1 i buf)
  show ?case
  proof (cases "i < length buf div 2")
    case True
    let ?b = "buf[i := buf ! (length buf - 1 - i), length buf - 1 - i := buf ! i]"
    have "swap_halves (Suc i) ?b = rev xs"
    proof (rule "1.IH" [OF True])
      show "?b ! k = (if k < Suc i \<or> n - 1 - k < Suc i then xs ! (n - 1 - k) else xs ! k)"
        if "k < n" for k
      proof -
        consider "k = i" | "k = n - 1 - i" "k \<noteq> i" | "k \<noteq> i" "k \<noteq> n - 1 - i" by blast
        then show ?thesis
          using "1.prems" True that by cases (auto simp: nth_list_update)
      qed
    qed (use "1.prems" True in auto)
    then show ?thesis using True by (subst swap_halves.simps) simp
  next
    case False
    then have i: "i = n div 2" using "1.prems" by simp
    have "buf = rev xs"
    proof (rule nth_equalityI)
      fix k assume k: "k < length buf"
      have "k < i \<or> n - 1 - k < i \<or> n - 1 - k = k"
      proof -
        have "n = 2 * i \<or> n = 2 * i + 1" unfolding i by presburger
        with k "1.prems"(1) show ?thesis by linarith
      qed
      then have "buf ! k = xs ! (n - 1 - k)"
        using "1.prems"(3) [of k] k unfolding "1.prems"(1) by (elim disjE) simp_all
      with k show "buf ! k = rev xs ! k" using "1.prems" by (simp add: rev_nth)
    qed (use "1.prems" in simp)
    with False show ?thesis by (subst swap_halves.simps) simp
  qed
qed

lemma swap_halves_rev: "swap_halves 0 xs = rev xs"
  by (rule swap_halves_inv [of _ "length xs"]) simp_all

subsection \<open>Positional notation\<close>

text \<open>The text of a number: the digits from the most significant one, no leading zero.\<close>

function num_text :: "u8 list \<Rightarrow> nat \<Rightarrow> nat \<Rightarrow> u8 list" where
  "num_text table b n =
     (if n < b \<or> b < 2 then [table ! n] else num_text table b (n div b) @ [table ! (n mod b)])"
  by pat_completeness auto
termination by (relation "measure (\<lambda>(table, b, n). n)") auto

declare num_text.simps [simp del]

text \<open>The digit value a character has in a table, and the number a text denotes.\<close>

fun digit_in :: "u8 list \<Rightarrow> u8 \<Rightarrow> nat" where
  "digit_in [] c = 0"
| "digit_in (d # ds) c = (if c = d then 0 else Suc (digit_in ds c))"

definition text_value :: "u8 list \<Rightarrow> nat \<Rightarrow> u8 list \<Rightarrow> nat" where
  "text_value table b cs = foldl (\<lambda>n c. n * b + digit_in table c) 0 cs"

lemma text_value_snoc [simp]:
  "text_value table b (cs @ [c]) = text_value table b cs * b + digit_in table c"
  by (simp add: text_value_def)

lemma digit_in_nth: "distinct table \<Longrightarrow> k < length table \<Longrightarrow> digit_in table (table ! k) = k"
proof (induction table arbitrary: k)
  case (Cons d ds)
  then show ?case by (cases k) auto
qed simp

lemma text_value_num_text:
  assumes "distinct table" and "2 \<le> b" and "b \<le> length table"
  shows "text_value table b (num_text table b n) = n"
proof (induction n rule: less_induct)
  case (less n)
  show ?case
  proof (cases "n < b")
    case True
    then show ?thesis
      using assms by (subst num_text.simps) (simp add: text_value_def digit_in_nth)
  next
    case False
    then have "n div b < n" using assms(2) by simp
    moreover have "n mod b < b" using assms(2) by simp
    then have "n mod b < length table" using assms(3) by simp
    ultimately show ?thesis
      using False assms less.IH by (subst num_text.simps) (simp add: digit_in_nth)
  qed
qed

lemma num_text_length:
  "2 \<le> b \<Longrightarrow> n < b ^ Suc k \<Longrightarrow> length (num_text table b n) \<le> Suc k"
proof (induction k arbitrary: n)
  case 0
  then show ?case by (subst num_text.simps) simp
next
  case (Suc k)
  show ?case
  proof (cases "n < b")
    case True
    then show ?thesis by (subst num_text.simps) simp
  next
    case False
    have "n div b < b ^ Suc k" using Suc.prems by (simp add: div_less_iff_less_mult mult.commute)
    with Suc.IH Suc.prems False show ?thesis by (subst num_text.simps) simp
  qed
qed

lemma num_text_nonempty [simp]: "num_text table b n \<noteq> []"
  by (subst num_text.simps) simp

text \<open>
  The loops of the code peel the digits off from the least significant one. The buffer
  bounds are never what stops them.
\<close>

lemma num_text_step:
  assumes "2 \<le> b"
  shows "(if n div b = 0 then [] else num_text table b (n div b)) @ [table ! (n mod b)]
    = num_text table b n"
  using assms by (subst (2) num_text.simps) (auto simp: div_eq_0_iff)

lemma num_text_rev_step:
  assumes "2 \<le> b"
  shows "rev (num_text table b n)
    = table ! (n mod b) # (if n div b = 0 then [] else rev (num_text table b (n div b)))"
  unfolding num_text_step [OF assms, of n table, symmetric] by simp

lemma dec_char: "k < 10 \<Longrightarrow> ucast (48 + of_nat k :: u64) = upper_table ! k"
proof -
  have "\<forall>k \<in> set [0..<10]. ucast (48 + of_nat k :: u64) = upper_table ! k"
    by (simp add: upt_rec upper_table_def)
  then show "k < 10 \<Longrightarrow> ucast (48 + of_nat k :: u64) = upper_table ! k" by simp
qed

lemma dec_fill_text:
  assumes "unat v < 10 ^ (24 - length buf)" and "length buf < 24"
  shows "dec_fill v buf = buf @ rev (num_text upper_table 10 (unat v))"
  using assms
proof (induction v buf rule: dec_fill.induct)
  case (1 v buf)
  let ?d = "upper_table ! (unat v mod 10)"
  have "unat (v mod 10) = unat v mod 10" by (simp add: unat_mod)
  then have "v mod 10 = of_nat (unat v mod 10)" using of_nat_unat_64 [of "v mod 10"] by simp
  then have d: "ucast (48 + v mod 10) = ?d" using dec_char [of "unat v mod 10"] by simp
  have q: "unat (v div 10) = unat v div 10" by (simp add: unat_div)
  have zero: "v div 10 = 0 \<longleftrightarrow> unat v div 10 = 0" by (simp add: word_unat_eq_iff q)
  show ?case
  proof (cases "v div 10 = 0")
    case True
    then have "dec_fill v buf = buf @ [?d]" by (subst dec_fill.simps) (simp add: d)
    with True show ?thesis
      using num_text_rev_step [of 10 upper_table "unat v"] unfolding zero by simp
  next
    case False
    then have ten: "10 \<le> unat v" using zero by (simp add: div_eq_0_iff)
    have len: "Suc (length buf) < 24"
    proof (rule ccontr)
      assume "\<not> ?thesis"
      then have "24 - length buf = 1" using "1.prems"(2) by simp
      with "1.prems"(1) ten show False by simp
    qed
    then have "10 ^ (24 - length buf) = 10 * (10 :: nat) ^ (24 - Suc (length buf))"
      by (simp flip: power_Suc add: Suc_diff_Suc)
    then have "unat (v div 10) < 10 ^ (24 - Suc (length buf))"
      using "1.prems"(1) unfolding q by simp
    then have "dec_fill (v div 10) (buf @ [?d]) = buf @ [?d] @ rev (num_text upper_table 10 (unat v div 10))"
      using "1.IH" [of "buf @ [?d]" "v div 10"] False len by (simp add: d q)
    then have "dec_fill v buf = buf @ [?d] @ rev (num_text upper_table 10 (unat v div 10))"
      using False len by (subst dec_fill.simps) (simp add: d)
    with False show ?thesis
      using num_text_rev_step [of 10 upper_table "unat v"] unfolding zero by simp
  qed
qed

lemma power_peel: "k < n \<Longrightarrow> (b :: nat) ^ (n - k) = b * b ^ (n - Suc k)"
  by (simp flip: power_Suc add: Suc_diff_Suc)

lemma unat_nibble [word_arith]: "unat ((v :: u64) AND 0xF) = unat v mod 16"
proof -
  have "v AND 0xF = take_bit 4 v" by (simp add: take_bit_eq_mask mask_eq_exp_minus_1)
  then show ?thesis by (simp add: take_bit_eq_mod unat_mod)
qed

lemma unat_low_bit [word_arith]: "unat ((v :: u64) AND 1) = unat v mod 2"
proof -
  have "v AND 1 = take_bit 1 v" by (simp add: take_bit_eq_mask mask_eq_exp_minus_1)
  then show ?thesis by (simp add: unat_mod)
qed

lemma unat_drop_64 [word_arith]: "unat (drop_bit k (v :: u64)) = unat v div 2 ^ k"
  using unat_less_size [of v]
  by (simp only: unsigned_drop_bit_eq) (simp add: drop_bit_eq_div take_bit_eq_mod)

lemma hex_fill_text:
  assumes "unat v < 16 ^ (16 - length buf)" and "length buf \<le> 16"
  shows "hex_fill table v buf
    = buf @ (if v = 0 then [] else rev (num_text table 16 (unat v)))"
  using assms
proof (induction table v buf rule: hex_fill.induct)
  case (1 table v buf)
  let ?d = "table ! (unat v mod 16)" and ?q = "drop_bit 4 v"
  show ?case
  proof (cases "v = 0")
    case True
    then show ?thesis by (subst hex_fill.simps) simp
  next
    case False
    then have "0 < unat v" by (simp add: unat_gt_0)
    then have len: "length buf < 16" using "1.prems" by (cases "length buf = 16") auto
    have q: "unat ?q = unat v div 16" by (simp add: unat_drop_64)
    then have "unat ?q < 16 ^ (16 - Suc (length buf))"
      using "1.prems"(1) power_peel [OF len, of 16] by simp
    then have "hex_fill table ?q (buf @ [?d])
        = buf @ [?d] @ (if ?q = 0 then [] else rev (num_text table 16 (unat v div 16)))"
      using "1.IH" False len by (simp add: q unat_nibble)
    then have "hex_fill table v buf
        = buf @ [?d] @ (if ?q = 0 then [] else rev (num_text table 16 (unat v div 16)))"
      using False len by (subst hex_fill.simps) (simp add: unat_nibble)
    moreover have "?q = 0 \<longleftrightarrow> unat v div 16 = 0" by (simp add: word_unat_eq_iff q)
    ultimately show ?thesis
      using num_text_rev_step [of 16 table "unat v"] False by (simp split: if_splits)
  qed
qed

lemma bin_char: "(if (v :: u64) AND 1 \<noteq> 0 then 49 else 48 :: u8) = upper_table ! (unat v mod 2)"
proof -
  have "v AND 1 = 0 \<longleftrightarrow> unat v mod 2 = 0" by (simp add: word_unat_eq_iff unat_low_bit)
  then show ?thesis by (cases "unat v mod 2 = 0") (auto simp: upper_table_def)
qed

lemma bin_fill_text:
  assumes "unat v < 2 ^ (64 - length buf)" and "length buf \<le> 64"
  shows "bin_fill v buf = buf @ (if v = 0 then [] else rev (num_text upper_table 2 (unat v)))"
  using assms
proof (induction v buf rule: bin_fill.induct)
  case (1 v buf)
  let ?d = "upper_table ! (unat v mod 2)" and ?q = "drop_bit 1 v"
  show ?case
  proof (cases "v = 0")
    case True
    then show ?thesis by (subst bin_fill.simps) simp
  next
    case False
    then have "0 < unat v" by (simp add: unat_gt_0)
    then have len: "length buf < 64" using "1.prems" by (cases "length buf = 64") auto
    have q: "unat ?q = unat v div 2" using unat_drop_64 [of 1 v] by simp
    then have "unat ?q < 2 ^ (64 - Suc (length buf))"
      using "1.prems"(1) power_peel [OF len, of 2] by simp
    then have "bin_fill ?q (buf @ [?d])
        = buf @ [?d] @ (if ?q = 0 then [] else rev (num_text upper_table 2 (unat v div 2)))"
      using "1.IH" False len by (simp add: q q [simplified] bin_char)
    then have "bin_fill v buf
        = buf @ [?d] @ (if ?q = 0 then [] else rev (num_text upper_table 2 (unat v div 2)))"
      using False len by (subst bin_fill.simps) (simp add: bin_char)
    moreover have "?q = 0 \<longleftrightarrow> unat v div 2 = 0" by (simp add: word_unat_eq_iff q [simplified])
    ultimately show ?thesis
      using num_text_rev_step [of 2 upper_table "unat v"] False by (simp split: if_splits)
  qed
qed

subsection \<open>The number strings\<close>

lemma tables [simp]:
  "distinct upper_table" "distinct lower_table" "length upper_table = 16" "length lower_table = 16"
  by (simp_all add: upper_table_def lower_table_def)

lemma zero_text: "table ! 0 = 48 \<Longrightarrow> 2 \<le> b \<Longrightarrow> num_text table b 0 = [48]"
  by (subst num_text.simps) simp

lemma make_hex_string_text:
  "make_hex_string v lowercase = num_text (if lowercase then lower_table else upper_table) 16 (unat v)"
proof -
  have "unat v < 16 ^ 16" using unat_less_size [of v] by simp
  then show ?thesis
    by (auto simp: make_hex_string_def Let_def hex_fill_text swap_halves_rev zero_text
        lower_table_def upper_table_def)
qed

lemma make_bin_string_text: "make_bin_string v = num_text upper_table 2 (unat v)"
  using unat_less_size [of v]
  by (simp add: make_bin_string_def bin_fill_text swap_halves_rev zero_text upper_table_def)

lemma make_dec_string_text: "make_dec_string v = num_text upper_table 10 (unat v)"
  using unat_less_size [of v]
  by (simp add: make_dec_string_def dec_fill_text swap_halves_rev)

lemmas number_strings = make_hex_string_text make_bin_string_text make_dec_string_text

text \<open>
  What a text of a number is, without the tables and loops of the code: at least one digit, each
  below the base and written as the character of its code point, no leading zero but for zero
  itself, and the value of the digits is the number. There is exactly one such text.
\<close>

definition ascii_digit :: "bool \<Rightarrow> nat \<Rightarrow> u8" where
  "ascii_digit lowercase k = of_nat (if k < 10 then 48 + k else if lowercase then 87 + k else 55 + k)"

definition digits_value :: "nat \<Rightarrow> nat list \<Rightarrow> nat" where
  "digits_value b ds = foldl (\<lambda>n d. n * b + d) 0 ds"

definition denotes :: "bool \<Rightarrow> nat \<Rightarrow> u8 list \<Rightarrow> nat \<Rightarrow> bool" where
  "denotes lowercase b cs n \<longleftrightarrow> (\<exists>ds. cs = map (ascii_digit lowercase) ds \<and> ds \<noteq> []
     \<and> (\<forall>d \<in> set ds. d < b) \<and> (hd ds = 0 \<longrightarrow> ds = [0]) \<and> digits_value b ds = n)"

text \<open>The digits of a number, the most significant one first, are the only ones with its value.\<close>

function base_digits :: "nat \<Rightarrow> nat \<Rightarrow> nat list" where
  "base_digits b n = (if n < b \<or> b < 2 then [n] else base_digits b (n div b) @ [n mod b])"
  by pat_completeness auto
termination by (relation "measure snd") auto

declare base_digits.simps [simp del]

lemma digits_value_snoc [simp]: "digits_value b (ds @ [d]) = digits_value b ds * b + d"
  "digits_value b [d] = d" "digits_value b [] = 0"
  by (simp_all add: digits_value_def)

lemma base_digits_proper:
  assumes "2 \<le> b"
  shows "base_digits b n \<noteq> [] \<and> (\<forall>d \<in> set (base_digits b n). d < b) \<and> digits_value b (base_digits b n) = n
    \<and> (hd (base_digits b n) = 0 \<longrightarrow> n = 0)"
proof (induction n rule: less_induct)
  case (less n)
  show ?case
  proof (cases "n < b")
    case True
    then show ?thesis by (subst (1 2 3 4) base_digits.simps) simp
  next
    case False
    then have "n div b < n" "n div b \<noteq> 0" "n mod b < b"
      using assms by (auto simp: div_eq_0_iff)
    moreover note less [OF \<open>n div b < n\<close>]
    moreover have "base_digits b n = base_digits b (n div b) @ [n mod b]"
      using False assms by (subst base_digits.simps) simp
    ultimately show ?thesis by auto
  qed
qed

lemma digits_value_positive:
  "ds \<noteq> [] \<Longrightarrow> hd ds \<noteq> 0 \<Longrightarrow> 0 < b \<Longrightarrow> 0 < digits_value b ds"
proof (induction ds rule: rev_induct)
  case (snoc d ds)
  then show ?case by (cases "ds = []") auto
qed simp

lemma base_digits_unique:
  assumes "2 \<le> b"
  shows "ds \<noteq> [] \<Longrightarrow> \<forall>d \<in> set ds. d < b \<Longrightarrow> hd ds = 0 \<longrightarrow> ds = [0] \<Longrightarrow> base_digits b (digits_value b ds) = ds"
proof (induction ds rule: rev_induct)
  case (snoc d ds)
  show ?case
  proof (cases "ds = []")
    case True
    with snoc.prems show ?thesis by (subst base_digits.simps) simp
  next
    case False
    with snoc.prems have ds: "hd ds \<noteq> 0" "\<forall>d \<in> set ds. d < b" "d < b" by auto
    then have "1 \<le> digits_value b ds" using digits_value_positive [OF False, of b] assms by simp
    then have "1 * b \<le> digits_value b ds * b" by (rule mult_le_mono1)
    then have "b \<le> digits_value b ds * b + d" by linarith
    moreover have "base_digits b (digits_value b ds) = ds" using snoc.IH False ds by simp
    ultimately show ?thesis
      using assms ds(3) by (subst base_digits.simps) simp
  qed
qed simp

lemma base_digits_denote:
  assumes "2 \<le> b"
  shows "denotes lowercase b cs n \<longleftrightarrow> cs = map (ascii_digit lowercase) (base_digits b n)"
proof
  assume "denotes lowercase b cs n"
  then obtain ds where ds: "cs = map (ascii_digit lowercase) ds" "ds \<noteq> []" "\<forall>d \<in> set ds. d < b"
    "hd ds = 0 \<longrightarrow> ds = [0]" "digits_value b ds = n"
    unfolding denotes_def by - (elim exE conjE, rule that)
  from base_digits_unique [OF assms ds(2-4)] show "cs = map (ascii_digit lowercase) (base_digits b n)"
    by (simp only: ds(1,5))
next
  have "base_digits b 0 = [0]" using assms by (subst base_digits.simps) simp
  then have zero: "hd (base_digits b n) = 0 \<longrightarrow> base_digits b n = [0]"
    using base_digits_proper [OF assms, of n] by metis
  have proper: "base_digits b n \<noteq> []" "\<forall>d \<in> set (base_digits b n). d < b" "digits_value b (base_digits b n) = n"
    using base_digits_proper [OF assms, of n] by - (elim conjE, assumption)+
  then show "cs = map (ascii_digit lowercase) (base_digits b n) \<Longrightarrow> denotes lowercase b cs n"
    unfolding denotes_def by (intro exI [of _ "base_digits b n"] conjI proper zero)
qed

lemma num_text_digits:
  assumes "2 \<le> b"
  shows "num_text table b n = map (\<lambda>d. table ! d) (base_digits b n)"
proof (induction n rule: less_induct)
  case (less n)
  show ?case
  proof (cases "n < b")
    case True
    then show ?thesis by (subst num_text.simps, subst base_digits.simps) simp
  next
    case False
    with less [of "n div b"] assms show ?thesis
      by (subst num_text.simps, subst base_digits.simps) simp
  qed
qed

lemma table_chars:
  "k < 16 \<Longrightarrow> (if lowercase then lower_table else upper_table) ! k = ascii_digit lowercase k"
proof -
  have "\<forall>k \<in> set [0..<16]. (if lowercase then lower_table else upper_table) ! k = ascii_digit lowercase k"
    by (cases lowercase) (simp_all add: upt_rec lower_table_def upper_table_def ascii_digit_def)
  then show "k < 16 \<Longrightarrow> ?thesis" by simp
qed

lemma denotes_num_text:
  assumes "2 \<le> b" and "b \<le> 16"
  shows "denotes lowercase b cs n \<longleftrightarrow> cs = num_text (if lowercase then lower_table else upper_table) b n"
proof -
  have small: "d < 16" if "d \<in> set (base_digits b n)" for d
    using base_digits_proper [OF assms(1), of n] assms(2) that by auto
  have "map (ascii_digit lowercase) (base_digits b n)
      = map (\<lambda>d. (if lowercase then lower_table else upper_table) ! d) (base_digits b n)"
    by (intro map_cong refl table_chars [symmetric] small)
  then show ?thesis by (simp only: base_digits_denote [OF assms(1)] num_text_digits [OF assms(1)])
qed

text \<open>
  C25: The strings made for hexadecimal (either case), binary and decimal output are the one text
  of the number in their base: no other characters than its digits, no leading zero, a single
  zero for zero, and read back they give the number they were made from.
\<close>

theorem number_strings_read_back:
  "(denotes lowercase 16 cs (unat v) \<longleftrightarrow> cs = make_hex_string v lowercase)
    \<and> (denotes False 2 cs (unat v) \<longleftrightarrow> cs = make_bin_string v)
    \<and> (denotes False 10 cs (unat v) \<longleftrightarrow> cs = make_dec_string v)"
  using denotes_num_text [of 16 lowercase cs "unat v"] denotes_num_text [of 2 False cs "unat v"]
    denotes_num_text [of 10 False cs "unat v"]
  by (simp add: number_strings)

text \<open>
  No number overruns the static buffers: at most 16 hexadecimal, 64 binary and 20 decimal
  digits, for buffers of 16, 64 and 24 characters. So the bound in the loop of each routine
  never cuts a number off.
\<close>

theorem number_strings_bounds:
  "length (make_hex_string v lowercase) \<le> 16 \<and> length (make_bin_string v) \<le> 64
    \<and> length (make_dec_string v) \<le> 20"
  using unat_less_size [of v] num_text_length [of 16 "unat v" 15] num_text_length [of 2 "unat v" 63]
    num_text_length [of 10 "unat v" 19]
  by (simp add: number_strings)

subsection \<open>What reaches the sink\<close>

text \<open>The digits of fixed width, the most significant one first.\<close>

fun fixed_text :: "nat \<Rightarrow> nat \<Rightarrow> nat \<Rightarrow> u8 list" where
  "fixed_text b 0 n = []"
| "fixed_text b (Suc k) n = (upper_table ! (n div b ^ k mod b)) # fixed_text b k n"

lemma length_fixed_text [simp]: "length (fixed_text b k n) = k"
  by (induction k) simp_all

lemma fixed_text_value:
  assumes "2 \<le> b" and "b \<le> 16"
  shows "foldl (\<lambda>a c. a * b + digit_in upper_table c) a (fixed_text b k n)
    = a * b ^ k + n mod b ^ k"
proof (induction k arbitrary: a)
  case 0
  then show ?case by simp
next
  case (Suc k)
  have "n div b ^ k mod b < 16" using assms by (simp add: less_le_trans [OF mod_less_divisor])
  then have "digit_in upper_table (upper_table ! (n div b ^ k mod b)) = n div b ^ k mod b"
    by (simp add: digit_in_nth)
  moreover have "n mod b ^ Suc k = b ^ k * (n div b ^ k mod b) + n mod b ^ k"
    by (simp only: power_Suc2 mod_mult2_eq)
  ultimately show ?case using Suc.IH by (simp add: algebra_simps)
qed

context char_sink
begin

lemma emits_put_backwards: "n \<le> length buf \<Longrightarrow> emits (put_backwards put buf n) (rev (take n buf))"
proof (induction n)
  case 0
  then show ?case using emits_skip by (simp add: emits_def)
next
  case (Suc n)
  then show ?case
    using emits_put_seq [of "put_backwards put buf n" _ "buf ! n"]
    by (simp add: take_Suc_conv_app_nth emits_def)
qed

lemma emits_put_dec: "emits (put_dec put v) (num_text upper_table 10 (unat v))"
  using emits_put_backwards [of "length (dec_fill v [])" "dec_fill v []"] unat_less_size [of v]
  by (simp add: emits_def put_dec_def Let_def dec_fill_text)

lemma emits_put_hex_loop:
  "k \<le> 16 \<Longrightarrow> emits (put_hex_loop put v (int k * 4 - 4)) (fixed_text 16 k (unat v))"
proof (induction k)
  case 0
  then show ?case using emits_skip by (simp add: emits_def put_hex_loop.simps)
next
  case (Suc k)
  have "unat (drop_bit (nat (int (Suc k) * 4 - 4)) v AND 0xF) = unat v div 16 ^ k mod 16"
    by (simp add: unat_nibble unat_drop_64 nat_mult_distrib power_mult mult.commute [of k])
  with Suc show ?case
    using emits_put_seq [of "put_hex_loop put v (int k * 4 - 4)" "fixed_text 16 k (unat v)"]
    by (subst emits_def, subst put_hex_loop.simps) (simp add: emits_def algebra_simps)
qed

lemma emits_put_hex:
  assumes "1 \<le> digits" and "digits \<le> 16"
  shows "emits (put_hex put v (int digits)) (48 # 120 # fixed_text 16 digits (unat v))"
proof -
  have "in_signed 32 ((int digits - 1) * 4)" using assms by (simp add: in_signed_def)
  moreover have "(int digits - 1) * 4 = int digits * 4 - 4" by simp
  ultimately show ?thesis
    using emits_put_seq [OF emits_put_seq [OF emits_put_hex_loop [OF assms(2), of v]], of 48 120]
    by (simp add: put_hex_def emits_def)
qed

lemma emits_put_bin_loop:
  "k \<le> 64 \<Longrightarrow> emits (put_bin_loop put v (int k - 1)) (fixed_text 2 k (unat v))"
proof (induction k)
  case 0
  then show ?case using emits_skip by (simp add: emits_def put_bin_loop.simps)
next
  case (Suc k)
  have "(if drop_bit k v AND 1 \<noteq> 0 then 49 else 48 :: u8) = upper_table ! (unat v div 2 ^ k mod 2)"
    unfolding bin_char by (simp only: unat_drop_64)
  with Suc show ?case
    using emits_put_seq [of "put_bin_loop put v (int k - 1)" "fixed_text 2 k (unat v)"]
    by (subst emits_def, subst put_bin_loop.simps) (simp add: emits_def)
qed

lemma emits_put_bin:
  assumes "1 \<le> bits" and "bits \<le> 64"
  shows "emits (put_bin put v (int bits)) (48 # 98 # fixed_text 2 bits (unat v))"
proof -
  have "in_signed 32 (int bits - 1)" using assms by (simp add: in_signed_def)
  then show ?thesis
    using emits_put_seq [OF emits_put_seq [OF emits_put_bin_loop [OF assms(2), of v]], of 48 98]
    by (simp add: put_bin_def emits_def)
qed

end

end
