(* ===== verification/Format.thy ===== *)
theory Format
  imports FmtNum NumConv
begin

text \<open>
  The formatter \<^verbatim>\<open>FmtBase\<close> of \<^verbatim>\<open>core/format.hh\<close>: \<^verbatim>\<open>puts\<close>, the \<^verbatim>\<open>print\<close> overloads, the format
  specification and \<^verbatim>\<open>printf\<close>.

  Format strings and C string arguments are bytes in memory, read through their address. The
  overloads of a template become the constructors of \<open>arg\<close>: the type of an argument selects
  the branch at compile time, its value is the constructor's content. Elements of a slice or
  array are taken by value. A string literal of the formatter itself is a list of bytes.
\<close>

subsection \<open>Strings\<close>

partial_function (option) puts :: "'s sink \<Rightarrow> mem \<Rightarrow> addr \<Rightarrow> 's \<Rightarrow> 's option" where
  "puts put m s st = do {
     c \<leftarrow> m s;
     if c = 0 then Some st
     else do {
       st \<leftarrow> (if c = 10 then put 13 st else Some st);
       st \<leftarrow> put c st;
       puts put m (s + 1) st
     }
   }"

fun puts_lit :: "'s sink \<Rightarrow> u8 list \<Rightarrow> 's \<Rightarrow> 's option" where
  "puts_lit put [] st = Some st"
| "puts_lit put (c # cs) st = do {
     st \<leftarrow> (if c = 10 then put 13 st else Some st);
     st \<leftarrow> put c st;
     puts_lit put cs st
   }"

text \<open>\<^verbatim>\<open>wchar_t\<close> is a 32-bit little-endian integer; only its low byte is sent.\<close>

definition read_wchar :: "mem \<Rightarrow> addr \<Rightarrow> u32 option" where
  "read_wchar m p = do {
     a \<leftarrow> m p; b \<leftarrow> m (p + 1); c \<leftarrow> m (p + 2); d \<leftarrow> m (p + 3);
     Some (ucast a OR push_bit 8 (ucast b) OR push_bit 16 (ucast c) OR push_bit 24 (ucast d))
   }"

partial_function (option) print_wide :: "'s sink \<Rightarrow> mem \<Rightarrow> addr \<Rightarrow> 's \<Rightarrow> 's option" where
  "print_wide put m ws st = do {
     w \<leftarrow> read_wchar m ws;
     if w = 0 then Some st
     else do {
       st \<leftarrow> put (ucast w) st;
       print_wide put m (ws + 4) st
     }
   }"

text \<open>A range-for over a \<^verbatim>\<open>string_view\<close>: from \<open>begin\<close> to \<open>end\<close>, no line feed translation.\<close>

partial_function (option) print_range :: "'s sink \<Rightarrow> mem \<Rightarrow> addr \<Rightarrow> addr \<Rightarrow> 's \<Rightarrow> 's option" where
  "print_range put m p e st =
     (if p = e then Some st
      else do {
        c \<leftarrow> m p;
        st \<leftarrow> put c st;
        print_range put m (p + 1) e st
      })"

subsection \<open>The print overloads\<close>

datatype arg =
    ABool bool          \<comment> \<open>\<^verbatim>\<open>bool\<close>\<close>
  | AChar u8            \<comment> \<open>\<^verbatim>\<open>char\<close>\<close>
  | AInt int            \<comment> \<open>\<^verbatim>\<open>u8\<close> to \<^verbatim>\<open>u64\<close>, \<^verbatim>\<open>i8\<close> to \<^verbatim>\<open>i64\<close>\<close>
  | ACStr addr          \<comment> \<open>\<^verbatim>\<open>char*\<close>, \<^verbatim>\<open>const char*\<close>, \<^verbatim>\<open>char[N]\<close>\<close>
  | AWStr addr          \<comment> \<open>\<^verbatim>\<open>wchar_t*\<close>, \<^verbatim>\<open>const wchar_t*\<close>\<close>
  | ASv addr usize      \<comment> \<open>\<^verbatim>\<open>ktl::string_view\<close>\<close>
  | APtr u64            \<comment> \<open>any other pointer\<close>
  | AAtomic arg         \<comment> \<open>\<^verbatim>\<open>ktl::atomic<T>\<close>\<close>
  | AArray "arg list"   \<comment> \<open>\<^verbatim>\<open>T[N]\<close>\<close>
  | ASlice "arg list"   \<comment> \<open>\<^verbatim>\<open>ktl::slice<T>\<close>\<close>
  | APair arg arg       \<comment> \<open>\<^verbatim>\<open>ktl::pair<T1, T2>\<close>\<close>
  | AOther              \<comment> \<open>any other type\<close>

text \<open>\<^verbatim>\<open>static_cast<u64>\<close> of an integral argument: signed values are sign-extended.\<close>

definition to_u64 :: "int \<Rightarrow> u64" where
  "to_u64 n = word_of_int n"

text \<open>
  \<^verbatim>\<open>print\<close>: a pointer that is no string converts to \<^verbatim>\<open>bool\<close>, the only overload it fits. A
  type without an overload does not compile; the model gives it no result.
\<close>

fun print :: "'s sink \<Rightarrow> mem \<Rightarrow> arg \<Rightarrow> 's \<Rightarrow> 's option"
and print_items :: "'s sink \<Rightarrow> mem \<Rightarrow> arg list \<Rightarrow> 's \<Rightarrow> 's option" where
  "print put m (ABool b) st =
     puts_lit put (if b then [116, 114, 117, 101] else [102, 97, 108, 115, 101]) st"
| "print put m (AChar c) st = put c st"
| "print put m (AInt n) st = put_dec put (to_u64 n) st"
| "print put m (ACStr s) st = puts put m s st"
| "print put m (AWStr s) st = print_wide put m s st"
| "print put m (ASv p n) st = print_range put m p (p + n) st"
| "print put m (APtr v) st =
     puts_lit put (if v \<noteq> 0 then [116, 114, 117, 101] else [102, 97, 108, 115, 101]) st"
| "print put m (AAtomic a) st = print put m a st"
| "print put m (AArray xs) st = do {
     st \<leftarrow> put 91 st; st \<leftarrow> print_items put m xs st; put 93 st }"
| "print put m (ASlice xs) st = do {
     st \<leftarrow> put 91 st; st \<leftarrow> print_items put m xs st; put 93 st }"
| "print put m (APair a b) st = do {
     st \<leftarrow> put 40 st;
     st \<leftarrow> print put m a st;
     st \<leftarrow> puts_lit put [44, 32] st;
     st \<leftarrow> print put m b st;
     put 41 st }"
| "print put m AOther st = None"
| "print_items put m [] st = Some st"
| "print_items put m (a # as) st = do {
     st \<leftarrow> print put m a st;
     st \<leftarrow> (if as \<noteq> [] then puts_lit put [44, 32] st else Some st);
     print_items put m as st }"

subsection \<open>Format specifications\<close>

record format_spec =
  alternate :: bool
  zero_pad :: bool
  width :: int
  ftype :: u8

text \<open>The width: \<^verbatim>\<open>int\<close> arithmetic, whose overflow is undefined.\<close>

function parse_width :: "mem \<Rightarrow> addr \<Rightarrow> int \<Rightarrow> int \<Rightarrow> int \<Rightarrow> (int \<times> int) option" where
  "parse_width m spec len i w =
     (if i < len then do {
        c \<leftarrow> m (spec + word_of_int i);
        if 48 \<le> sint c \<and> sint c \<le> 57 then do {
          w \<leftarrow> chk 32 (w * 10);
          w \<leftarrow> chk 32 (w + (sint c - 48));
          parse_width m spec len (i + 1) w
        } else Some (i, w)
      } else Some (i, w))"
  by pat_completeness auto
termination by (relation "measure (\<lambda>(m, spec, len, i, w). nat (len - i))") auto

declare parse_width.simps [simp del]

text \<open>\<^verbatim>\<open>if (i < len && spec[i] == c)\<close>.\<close>

definition spec_is :: "mem \<Rightarrow> addr \<Rightarrow> int \<Rightarrow> int \<Rightarrow> u8 \<Rightarrow> bool option" where
  "spec_is m spec len i c =
     (if i < len then do { x \<leftarrow> m (spec + word_of_int i); Some (x = c) } else Some False)"

definition parse_spec :: "mem \<Rightarrow> addr \<Rightarrow> int \<Rightarrow> format_spec option" where
  "parse_spec m spec len = do {
     colon \<leftarrow> spec_is m spec len 0 58;
     let i = (if colon then 1 else 0);
     alt \<leftarrow> spec_is m spec len i 35;
     let i = (if alt then i + 1 else i);
     zero \<leftarrow> spec_is m spec len i 48;
     let i = (if zero then i + 1 else i);
     (i, w) \<leftarrow> parse_width m spec len i 0;
     t \<leftarrow> (if i < len then m (spec + word_of_int i) else Some 0);
     Some \<lparr>alternate = alt, zero_pad = zero, width = w, ftype = t\<rparr>
   }"

fun put_fill :: "'s sink \<Rightarrow> u8 \<Rightarrow> nat \<Rightarrow> 's \<Rightarrow> 's option" where
  "put_fill put c 0 st = Some st"
| "put_fill put c (Suc n) st = put c st \<bind> put_fill put c n"

fun put_all :: "'s sink \<Rightarrow> u8 list \<Rightarrow> 's \<Rightarrow> 's option" where
  "put_all put [] st = Some st"
| "put_all put (c # cs) st = put c st \<bind> put_all put cs"

definition print_padded :: "'s sink \<Rightarrow> u8 list \<Rightarrow> int \<Rightarrow> bool \<Rightarrow> 's \<Rightarrow> 's option" where
  "print_padded put str w zero st = do {
     let pad = w - int (length str);
     st \<leftarrow> (if pad > 0 then put_fill put (if zero then 48 else 32) (nat pad) st else Some st);
     put_all put str st
   }"

text \<open>The integral branch of \<^verbatim>\<open>route\<close>; \<^verbatim>\<open>bool\<close> and \<^verbatim>\<open>char\<close> are integral types too.\<close>

definition route_int :: "'s sink \<Rightarrow> u64 \<Rightarrow> format_spec \<Rightarrow> 's \<Rightarrow> 's option" where
  "route_int put v fs st =
     (if ftype fs = 120 \<or> ftype fs = 88 then do {
        st \<leftarrow> (if alternate fs
               then puts_lit put (if ftype fs = 120 then [48, 120] else [48, 88]) st
               else Some st);
        print_padded put (make_hex_string v (ftype fs = 120)) (width fs) (zero_pad fs) st
      } else if ftype fs = 98 then do {
        st \<leftarrow> (if alternate fs then puts_lit put [48, 98] st else Some st);
        print_padded put (make_bin_string v) (width fs) (zero_pad fs) st
      } else print_padded put (make_dec_string v) (width fs) (zero_pad fs) st)"

definition unsupported :: "u8 list" where
  "unsupported = [91, 117, 110, 115, 117, 112, 112, 111, 114, 116, 101, 100, 93]"

definition route :: "'s sink \<Rightarrow> mem \<Rightarrow> arg \<Rightarrow> format_spec \<Rightarrow> 's \<Rightarrow> 's option" where
  "route put m v fs st = (case v of
     ABool b \<Rightarrow> route_int put (of_bool b) fs st
   | AChar c \<Rightarrow> route_int put (scast c) fs st
   | AInt n \<Rightarrow> route_int put (to_u64 n) fs st
   | APtr p \<Rightarrow> print_padded put (make_hex_string p False) (width fs) (zero_pad fs) st
   | AOther \<Rightarrow> puts_lit put unsupported st
   | _ \<Rightarrow> print put m v st)"

definition print_with_spec :: "'s sink \<Rightarrow> mem \<Rightarrow> arg \<Rightarrow> addr \<Rightarrow> int \<Rightarrow> 's \<Rightarrow> 's option" where
  "print_with_spec put m v spec len st = do {
     fs \<leftarrow> parse_spec m spec len;
     route put m v fs st
   }"

subsection \<open>printf\<close>

partial_function (option) find_close :: "mem \<Rightarrow> addr \<Rightarrow> addr option" where
  "find_close m p = do {
     c \<leftarrow> m p;
     if c \<noteq> 0 \<and> c \<noteq> 125 then find_close m (p + 1) else Some p
   }"

text \<open>The pointer difference is stored in an \<^verbatim>\<open>int\<close>.\<close>

definition int_diff :: "addr \<Rightarrow> addr \<Rightarrow> int" where
  "int_diff p q = sint (ucast (p - q) :: u32)"

text \<open>
  Without arguments \<^verbatim>\<open>printf\<close> is \<^verbatim>\<open>puts\<close>; with arguments it copies the format up to the next
  hole, prints the first argument there and calls itself for the rest.
\<close>

partial_function (option) printf :: "'s sink \<Rightarrow> mem \<Rightarrow> addr \<Rightarrow> arg list \<Rightarrow> 's \<Rightarrow> 's option" where
  "printf put m p args st = (case args of
     [] \<Rightarrow> puts put m p st
   | v # rest \<Rightarrow> do {
       c \<leftarrow> m p;
       if c = 0 then Some st
       else do {
         d \<leftarrow> (if c = 123 then m (p + 1) else Some 0);
         if c = 123 \<and> d = 123 then do {
           st \<leftarrow> put 123 st;
           printf put m (p + 2) args st
         } else if c = 123 then do {
           e \<leftarrow> find_close m (p + 1);
           x \<leftarrow> m e;
           st \<leftarrow> print_with_spec put m v (p + 1) (int_diff e (p + 1)) st;
           printf put m (if x = 125 then e + 1 else e) rest st
         } else do {
           st \<leftarrow> (if c = 10 then put 13 st else Some st);
           st \<leftarrow> put c st;
           printf put m (p + 1) args st
         }
       }
     })"

subsection \<open>Reading a format specification\<close>

text \<open>The characters of a specification, with or without the colon.\<close>

definition spec_text :: "bool \<Rightarrow> format_spec \<Rightarrow> u8 list" where
  "spec_text colon fs =
     (if colon then [58] else []) @ (if alternate fs then [35] else [])
     @ (if zero_pad fs then [48] else [])
     @ (if width fs = 0 then [] else num_text upper_table 10 (nat (width fs)))
     @ (if ftype fs = 0 then [] else [ftype fs])"

definition letter_type :: "u8 \<Rightarrow> bool" where
  "letter_type t \<longleftrightarrow> t = 0 \<or> isalpha (sint t)"

text \<open>Decimal texts as the number parsers read them.\<close>

lemma dec_digit: "k < 10 \<Longrightarrow> sint (upper_table ! k) = 48 + int k"
proof -
  have "\<forall>k \<in> set [0..<10]. sint (upper_table ! k) = 48 + int k"
    by (simp add: upt_rec upper_table_def)
  then show "k < 10 \<Longrightarrow> sint (upper_table ! k) = 48 + int k" by simp
qed

lemma num_text_dec:
  "dec_value 0 (num_text upper_table 10 n) = int n \<and> digits (num_text upper_table 10 n)"
proof (induction n rule: less_induct)
  case (less n)
  have "n mod 10 < 10" by simp
  note d = dec_digit [OF this]
  show ?case
  proof (cases "n < 10")
    case True
    then show ?thesis by (subst (1 2) num_text.simps) (simp add: dec_digit isdigit_def)
  next
    case False
    then have "n div 10 < n" by simp
    from less.IH [OF this] have "dec_value 0 (num_text upper_table 10 (n div 10)) = int (n div 10)"
      "digits (num_text upper_table 10 (n div 10))" by blast+
    moreover have "int n = int (n div 10) * 10 + int (n mod 10)"
      using div_mult_mod_eq [of n 10] by linarith
    ultimately show ?thesis
      using False d by (subst (1 2) num_text.simps) (simp add: isdigit_def)
  qed
qed

lemma num_text_hd: "0 < n \<Longrightarrow> hd (num_text upper_table 10 n) \<noteq> 48"
proof (induction n rule: less_induct)
  case (less n)
  show ?case
  proof (cases "n < 10")
    case True
    then have "sint (upper_table ! n) \<noteq> sint (48 :: u8)" using less.prems by (simp add: dec_digit)
    with True show ?thesis by (subst num_text.simps) auto
  next
    case False
    with less.IH [of "n div 10"] show ?thesis by (subst num_text.simps) (simp add: div_greater_zero_iff)
  qed
qed

lemma parse_width_digits:
  assumes "digits ds" and "dec_value w ds < 2 ^ 31" and "0 \<le> w"
    and "bytes_at m (spec + word_of_int i) ds" and "i + int (length ds) \<le> len"
    and "i + int (length ds) < len \<Longrightarrow>
      \<exists>c. m (spec + word_of_int (i + int (length ds))) = Some c \<and> \<not> isdigit (sint c)"
  shows "parse_width m spec len i w = Some (i + int (length ds), dec_value w ds)"
  using assms
proof (induction ds arbitrary: i w)
  case Nil
  then show ?case by (subst parse_width.simps) (auto simp: isdigit_def)
next
  case (Cons d ds)
  let ?w = "w * 10 + (sint d - 48)"
  have d: "48 \<le> sint d" "sint d \<le> 57" using Cons.prems(1) by (simp_all add: isdigit_def)
  have "?w \<le> dec_value ?w ds" using Cons.prems(1,3) d by (intro dec_value_ge) auto
  then have "chk 32 (w * 10) = Some (w * 10)" "chk 32 ?w = Some ?w"
    using Cons.prems(2,3) d by (simp_all add: chk_def in_signed_def)
  moreover have "parse_width m spec len (i + 1) ?w
      = Some (i + 1 + int (length ds), dec_value ?w ds)"
    using Cons.prems d by (intro Cons.IH) (auto simp: ac_simps)
  ultimately show ?case
    using Cons.prems(4,5) d by (subst parse_width.simps) (simp add: ac_simps)
qed

lemma spec_is_at:
  assumes "bytes_at m (spec + word_of_int i) ((if b then [c] else []) @ rest)"
    and "len = i + int (length ((if b then [c] else []) @ rest))"
    and "\<not> b \<Longrightarrow> rest = [] \<or> hd rest \<noteq> c"
  shows "spec_is m spec len i c = Some b"
    and "bytes_at m (spec + word_of_int (if b then i + 1 else i)) rest"
proof -
  show "spec_is m spec len i c = Some b"
    using assms by (cases b; cases rest) (auto simp: spec_is_def)
  show "bytes_at m (spec + word_of_int (if b then i + 1 else i)) rest"
    using assms(1) by (simp add: ac_simps split: if_splits)
qed

lemma parse_spec_text_at:
  assumes "bytes_at m p (spec_text colon fs)" and "0 \<le> width fs" and "width fs < 2 ^ 31"
    and "letter_type (ftype fs)"
  shows "parse_spec m p (int (length (spec_text colon fs))) = Some fs"
proof -
  define ds where "ds = (if width fs = 0 then [] else num_text upper_table 10 (nat (width fs)))"
  define t where "t = (if ftype fs = 0 then [] else [ftype fs])"
  define r2 where "r2 = (if zero_pad fs then [48] else []) @ ds @ t"
  define r1 where "r1 = (if alternate fs then [35] else []) @ r2"
  define i1 where "i1 = (if colon then 0 + 1 else 0 :: int)"
  define i2 where "i2 = (if alternate fs then i1 + 1 else i1)"
  define i3 where "i3 = (if zero_pad fs then i2 + 1 else i2)"
  let ?len = "int (length (spec_text colon fs))"
  have ds: "digits ds" "dec_value 0 ds = width fs"
    using num_text_dec [of "nat (width fs)"] assms(2) by (auto simp: ds_def)
  have t: "\<forall>c \<in> set t. c \<noteq> 48 \<and> c \<noteq> 35 \<and> c \<noteq> 58 \<and> \<not> isdigit (sint c)"
    using assms(4) by (auto simp: t_def letter_type_def isalpha_def isdigit_def)
  have "ds = [] \<or> hd ds \<noteq> 48 \<and> isdigit (sint (hd ds))"
    using num_text_hd [of "nat (width fs)"] assms(2) ds(1) by (auto simp: ds_def)
  then have h3: "ds @ t = [] \<or> hd (ds @ t) \<noteq> 48 \<and> hd (ds @ t) \<noteq> 35 \<and> hd (ds @ t) \<noteq> 58"
    using t by (cases ds; cases t) (auto simp: isdigit_def)
  then have h2: "r2 = [] \<or> hd r2 \<noteq> 35 \<and> hd r2 \<noteq> 58" by (auto simp: r2_def)
  then have h1: "r1 = [] \<or> hd r1 \<noteq> 58" by (auto simp: r1_def)
  have whole: "spec_text colon fs = (if colon then [58] else []) @ r1"
    by (simp add: spec_text_def r1_def r2_def ds_def t_def)
  have len: "?len = 0 + int (length ((if colon then [58] else []) @ r1))"
    "?len = i1 + int (length ((if alternate fs then [35] else []) @ r2))"
    "?len = i2 + int (length ((if zero_pad fs then [48] else []) @ ds @ t))"
    "?len = i3 + int (length ds) + int (length t)"
    by (simp_all add: whole r1_def r2_def i1_def i2_def i3_def)
  have b0: "bytes_at m (p + word_of_int 0) ((if colon then [58] else []) @ r1)"
    using assms(1) whole by simp
  from spec_is_at [OF b0 len(1), folded i1_def] h1
  have 1: "spec_is m p ?len 0 58 = Some colon" "bytes_at m (p + word_of_int i1) r1" by blast+
  from spec_is_at [OF 1(2) [unfolded r1_def] len(2), folded i2_def] h2
  have 2: "spec_is m p ?len i1 35 = Some (alternate fs)" "bytes_at m (p + word_of_int i2) r2"
    by blast+
  from spec_is_at [OF 2(2) [unfolded r2_def] len(3), folded i3_def] h3
  have 3: "spec_is m p ?len i2 48 = Some (zero_pad fs)" "bytes_at m (p + word_of_int i3) (ds @ t)"
    by blast+
  have at_t: "bytes_at m (p + word_of_int (i3 + int (length ds))) t"
    using 3(2) by (simp add: bytes_at_append add.assoc)
  have 4: "parse_width m p ?len i3 0 = Some (i3 + int (length ds), width fs)"
    using parse_width_digits [OF ds(1), of 0 m p i3 ?len] 3(2) ds(2) assms(3) len(4) at_t t
    by (cases t) (auto simp: bytes_at_append)
  have "(if i3 + int (length ds) < ?len then m (p + word_of_int (i3 + int (length ds))) else Some 0)
      = Some (ftype fs)"
    using at_t len(4) by (auto simp: t_def split: if_splits)
  then show ?thesis
    using 1(1) 2(1) 3(1) 4
    by (simp add: parse_spec_def Let_def i1_def i2_def i3_def cong: if_cong)
qed

text \<open>
  C24: Writing a format specification out and parsing it gives it back: the alternate flag, the
  zero flag, every width below 2^31 and the type letter, with and without the colon.
\<close>

theorem parse_spec_spec_text:
  assumes "bytes_at m p (spec_text colon fs)" and "0 \<le> width fs" and "width fs < 2 ^ 31"
    and "letter_type (ftype fs)"
  shows "parse_spec m p (int (length (spec_text colon fs))) = Some fs"
  by (rule parse_spec_text_at [OF assms])

theorem parse_spec_spec_text_witness:
  "parse_spec (put_bytes Map.empty 16 [58, 35, 48, 49, 54, 120]) 16 6
     = Some \<lparr>alternate = True, zero_pad = True, width = 16, ftype = 120\<rparr>"
proof -
  let ?fs = "\<lparr>alternate = True, zero_pad = True, width = 16, ftype = 120\<rparr>"
  have whole: "spec_text True ?fs = [58, 35, 48, 49, 54, 120]"
    by (simp add: spec_text_def num_text.simps upper_table_def)
  have "letter_type 120" by (simp add: letter_type_def isalpha_def)
  then show ?thesis
    using parse_spec_spec_text [of "put_bytes Map.empty 16 [58, 35, 48, 49, 54, 120]" 16 True ?fs]
    by (simp add: whole)
qed

subsection \<open>What the formatter sends\<close>

text \<open>Line feeds go out as carriage return and line feed.\<close>

definition crlf :: "u8 list \<Rightarrow> u8 list" where
  "crlf cs = concat (map (\<lambda>c. if c = 10 then [13, 10] else [c]) cs)"

lemma crlf_simps [simp]:
  "crlf [] = []" "crlf (c # cs) = (if c = 10 then [13, 10] else [c]) @ crlf cs"
  by (simp_all add: crlf_def)

text \<open>The text of a value: what its \<^verbatim>\<open>print\<close> overload sends.\<close>

abbreviation bool_text :: "bool \<Rightarrow> u8 list" where
  "bool_text b \<equiv> (if b then [116, 114, 117, 101] else [102, 97, 108, 115, 101])"

inductive arg_text :: "mem \<Rightarrow> arg \<Rightarrow> u8 list \<Rightarrow> bool"
  and items_text :: "mem \<Rightarrow> arg list \<Rightarrow> u8 list \<Rightarrow> bool" where
  bool: "arg_text m (ABool b) (bool_text b)"
| char: "arg_text m (AChar c) [c]"
| int: "arg_text m (AInt n) (num_text upper_table 10 (unat (to_u64 n)))"
| cstr: "cstr_at m s cs \<Longrightarrow> arg_text m (ACStr s) (crlf cs)"
| view: "bytes_at m p cs \<Longrightarrow> length cs < 2 ^ 64 \<Longrightarrow> arg_text m (ASv p (of_nat (length cs))) cs"
| pointer: "arg_text m (APtr v) (bool_text (v \<noteq> 0))"
| atomic: "arg_text m a t \<Longrightarrow> arg_text m (AAtomic a) t"
| array: "items_text m as t \<Longrightarrow> arg_text m (AArray as) (91 # t @ [93])"
| slice: "items_text m as t \<Longrightarrow> arg_text m (ASlice as) (91 # t @ [93])"
| pair: "arg_text m a t \<Longrightarrow> arg_text m b u \<Longrightarrow> arg_text m (APair a b) (40 # t @ 44 # 32 # u @ [41])"
| no_items: "items_text m [] []"
| item: "arg_text m a t \<Longrightarrow> items_text m as u \<Longrightarrow>
    items_text m (a # as) (t @ (if as \<noteq> [] then [44, 32] else []) @ u)"

definition padded :: "int \<Rightarrow> bool \<Rightarrow> u8 list \<Rightarrow> u8 list" where
  "padded w zero cs = replicate (nat (w - int (length cs))) (if zero then 48 else 32) @ cs"

definition int_text :: "format_spec \<Rightarrow> u64 \<Rightarrow> u8 list" where
  "int_text fs v =
     (let shape = padded (width fs) (zero_pad fs); pre = (\<lambda>cs. if alternate fs then cs else [])
      in if ftype fs = 120 then pre [48, 120] @ shape (num_text lower_table 16 (unat v))
         else if ftype fs = 88 then pre [48, 88] @ shape (num_text upper_table 16 (unat v))
         else if ftype fs = 98 then pre [48, 98] @ shape (num_text upper_table 2 (unat v))
         else shape (num_text upper_table 10 (unat v)))"

text \<open>The text of an argument in a hole: numbers obey the specification, the rest ignores it.\<close>

fun hole_text :: "mem \<Rightarrow> arg \<Rightarrow> format_spec \<Rightarrow> u8 list \<Rightarrow> bool" where
  "hole_text m (ABool b) fs t \<longleftrightarrow> t = int_text fs (of_bool b)"
| "hole_text m (AChar c) fs t \<longleftrightarrow> t = int_text fs (scast c)"
| "hole_text m (AInt n) fs t \<longleftrightarrow> t = int_text fs (to_u64 n)"
| "hole_text m (APtr p) fs t \<longleftrightarrow> t = padded (width fs) (zero_pad fs) (num_text upper_table 16 (unat p))"
| "hole_text m AOther fs t \<longleftrightarrow> t = unsupported"
| "hole_text m a fs t \<longleftrightarrow> arg_text m a t"

context char_sink
begin

lemma emits_puts_lit: "emits (puts_lit put cs) (crlf cs)"
proof (induction cs)
  case Nil
  then show ?case using emits_skip by (simp add: emits_def)
next
  case (Cons c cs)
  have "emits (if c = 10 then put 13 else Some) (if c = 10 then [13] else [])"
    using emits_put emits_skip by simp
  from emits_seq [OF this emits_put_seq [OF Cons.IH, of c]]
  show ?case by (cases "c = 10") (simp_all add: emits_def)
qed

lemma emits_puts: "cstr_at m p cs \<Longrightarrow> emits (puts put m p) (crlf cs)"
proof -
  have "cstr_at m p cs \<Longrightarrow> puts put m p st = puts_lit put cs st" for st
  proof (induction cs arbitrary: p st)
    case Nil
    then show ?case by (subst puts.simps) simp
  next
    case (Cons c cs)
    then show ?case by (subst puts.simps) (auto intro!: arg_cong2 [where f = Option.bind])
  qed
  then show "cstr_at m p cs \<Longrightarrow> emits (puts put m p) (crlf cs)"
    using emits_puts_lit [of cs] by (simp add: emits_def)
qed

lemma emits_put_all: "emits (put_all put cs) cs"
proof (induction cs)
  case Nil
  then show ?case using emits_skip by (simp add: emits_def)
next
  case (Cons c cs)
  then show ?case using emits_put_seq [of "put_all put cs" cs c] by (simp add: emits_def)
qed

lemma emits_put_fill: "emits (put_fill put c n) (replicate n c)"
proof (induction n)
  case 0
  then show ?case using emits_skip by (simp add: emits_def)
next
  case (Suc n)
  then show ?case using emits_put_seq [of "put_fill put c n" "replicate n c" c] by (simp add: emits_def)
qed

lemma emits_print_padded: "emits (print_padded put cs w zero) (padded w zero cs)"
proof -
  let ?n = "nat (w - int (length cs))"
  have "emits (if w - int (length cs) > 0 then put_fill put (if zero then 48 else 32) ?n else Some)
    (replicate ?n (if zero then 48 else 32))"
    using emits_put_fill emits_skip by simp
  from emits_seq [OF this emits_put_all]
  show ?thesis unfolding padded_def by (rule emits_eq) (simp add: print_padded_def Let_def)
qed

lemma emits_prefix:
  assumes "emits g ds" and "crlf cs = cs"
  shows "emits (\<lambda>st. (if b then puts_lit put cs st else Some st) \<bind> g) ((if b then cs else []) @ ds)"
proof -
  have "emits (if b then puts_lit put cs else Some) (if b then cs else [])"
    using emits_puts_lit [of cs] emits_skip assms(2) by simp
  from emits_seq [OF this assms(1)] show ?thesis by (rule emits_eq) simp
qed

lemma emits_route_int: "emits (route_int put v fs) (int_text fs v)"
proof -
  note pad = emits_prefix [OF emits_print_padded, of _ "alternate fs"]
  consider "ftype fs = 120" | "ftype fs = 88" | "ftype fs = 98"
    | "ftype fs \<notin> {120, 88, 98}" by auto
  then show ?thesis
  proof cases
    case 1
    with pad [of "[48, 120]"] show ?thesis
      by (cases "alternate fs") (simp_all add: route_int_def int_text_def number_strings emits_def)
  next
    case 2
    with pad [of "[48, 88]"] show ?thesis
      by (cases "alternate fs") (simp_all add: route_int_def int_text_def number_strings emits_def)
  next
    case 3
    with pad [of "[48, 98]"] show ?thesis
      by (cases "alternate fs") (simp_all add: route_int_def int_text_def number_strings emits_def)
  next
    case 4
    with emits_print_padded show ?thesis
      by (simp add: route_int_def int_text_def number_strings emits_def)
  qed
qed

lemma emits_print_range:
  "bytes_at m p cs \<Longrightarrow> length cs < 2 ^ 64 \<Longrightarrow> e = p + of_nat (length cs) \<Longrightarrow>
     emits (print_range put m p e) cs"
proof (induction cs arbitrary: p)
  case Nil
  then show ?case using emits_skip by (simp add: emits_def print_range.simps)
next
  case (Cons c cs)
  have "(of_nat (Suc (length cs)) :: u64) \<noteq> 0"
    using Cons.prems(2) of_nat_64_eq_0 [of "Suc (length cs)"] by (simp del: of_nat_Suc)
  then have "p \<noteq> e" using Cons.prems(3) by (metis add_cancel_right_right length_Cons)
  moreover have "emits (print_range put m (p + 1) e) cs"
    using Cons.prems by (intro Cons.IH) (simp_all add: add.assoc)
  ultimately show ?case
    using Cons.prems(1) emits_put_seq [of "print_range put m (p + 1) e" cs c]
    by (subst emits_def, subst print_range.simps) (simp add: emits_def)
qed

lemma emits_print:
  "arg_text m a t \<Longrightarrow> emits (print put m a) t"
  and emits_print_items: "items_text m as u \<Longrightarrow> emits (print_items put m as) u"
proof (induction rule: arg_text_items_text.inducts)
  case (bool m b)
  then show ?case using emits_puts_lit [of "bool_text b"] by (cases b) (simp_all add: emits_def)
next
  case (char m c)
  then show ?case using emits_put by (simp add: emits_def)
next
  case (int m n)
  then show ?case using emits_put_dec by (simp add: emits_def)
next
  case (cstr m s cs)
  then show ?case using emits_puts by (simp add: emits_def)
next
  case (view m p cs)
  then show ?case using emits_print_range [of m p cs] by (simp add: emits_def)
next
  case (pointer m v)
  then show ?case using emits_puts_lit [of "bool_text (v \<noteq> 0)"] by (cases "v = 0") (simp_all add: emits_def)
next
  case (atomic m a t)
  then show ?case by (simp add: emits_def)
next
  case (array m as t)
  then show ?case using emits_put_seq [OF emits_seq [OF array.IH emits_put]] by (simp add: emits_def)
next
  case (slice m as t)
  then show ?case using emits_put_seq [OF emits_seq [OF slice.IH emits_put]] by (simp add: emits_def)
next
  case (pair m a t b u)
  note tail = emits_seq [OF emits_puts_lit [of "[44, 32]"] emits_seq [OF pair.IH(2) emits_put [of 41]]]
  show ?case using emits_put_seq [OF emits_seq [OF pair.IH(1) tail], of 40] by (simp add: emits_def)
next
  case (no_items m)
  then show ?case using emits_skip by (simp add: emits_def)
next
  case (item m a t as u)
  have "emits (if as \<noteq> [] then puts_lit put [44, 32] else Some) (if as \<noteq> [] then [44, 32] else [])"
    using emits_puts_lit [of "[44, 32]"] emits_skip by simp
  from emits_seq [OF item.IH(1) emits_seq [OF this item.IH(2)]]
  show ?case by (cases "as = []") (simp_all add: emits_def)
qed

lemma emits_route: "hole_text m a fs t \<Longrightarrow> emits (route put m a fs) t"
  using emits_route_int emits_print_padded [of "make_hex_string _ False"] emits_puts_lit [of unsupported]
  by (cases a) (auto simp: route_def number_strings emits_def unsupported_def dest: emits_print [unfolded emits_def])

end

subsection \<open>Formats with holes\<close>

datatype piece = Plain u8 | Escape | Hole bool format_spec

fun piece_text :: "piece \<Rightarrow> u8 list" where
  "piece_text (Plain c) = [c]"
| "piece_text Escape = [123, 123]"
| "piece_text (Hole colon fs) = 123 # spec_text colon fs @ [125]"

fun piece_ok :: "piece \<Rightarrow> bool" where
  "piece_ok (Plain c) \<longleftrightarrow> c \<noteq> 0 \<and> c \<noteq> 123"
| "piece_ok Escape \<longleftrightarrow> True"
| "piece_ok (Hole colon fs) \<longleftrightarrow> 0 \<le> width fs \<and> width fs < 2 ^ 31 \<and> letter_type (ftype fs)"

definition format_text :: "piece list \<Rightarrow> u8 list" where
  "format_text ps = concat (map piece_text ps)"

lemma format_text_simps [simp]:
  "format_text [] = []" "format_text (p # ps) = piece_text p @ format_text ps"
  by (simp_all add: format_text_def)

text \<open>
  The text a call of \<open>printf\<close> sends. Once the arguments are used up, the rest of the format
  goes out as it is, escapes and holes included; a format that ends before the arguments do
  ignores the rest of them.
\<close>

inductive printf_text :: "mem \<Rightarrow> piece list \<Rightarrow> arg list \<Rightarrow> u8 list \<Rightarrow> bool" where
  no_args: "printf_text m ps [] (crlf (format_text ps))"
| no_format: "printf_text m [] (a # as) []"
| plain: "printf_text m ps (a # as) t \<Longrightarrow> printf_text m (Plain c # ps) (a # as) (crlf [c] @ t)"
| escape: "printf_text m ps (a # as) t \<Longrightarrow> printf_text m (Escape # ps) (a # as) (123 # t)"
| hole: "hole_text m a fs u \<Longrightarrow> printf_text m ps as t \<Longrightarrow>
    printf_text m (Hole colon fs # ps) (a # as) (u @ t)"

inductive_cases printf_textE: "printf_text m ps as t"

lemma num_text_bytes: "c \<in> set (num_text upper_table 10 n) \<Longrightarrow> c \<noteq> 0 \<and> c \<noteq> 125 \<and> c \<noteq> 123"
  using num_text_dec [of n] by (auto simp: isdigit_def)

lemma spec_text_bytes:
  assumes "piece_ok (Hole colon fs)" and "c \<in> set (spec_text colon fs)"
  shows "c \<noteq> 0 \<and> c \<noteq> 125 \<and> c \<noteq> 123"
  using assms num_text_bytes [of c "nat (width fs)"]
  by (auto simp: spec_text_def letter_type_def isalpha_def split: if_splits)

lemma spec_text_length:
  assumes "piece_ok (Hole colon fs)"
  shows "length (spec_text colon fs) \<le> 14"
proof -
  have "nat (width fs) < 10 ^ Suc 9" using assms by (simp add: nat_less_iff)
  from num_text_length [OF _ this, of upper_table]
  show ?thesis by (simp add: spec_text_def)
qed

lemma find_close_text:
  "bytes_at m p (cs @ [125]) \<Longrightarrow> \<forall>c \<in> set cs. c \<noteq> 0 \<and> c \<noteq> 125 \<Longrightarrow>
     find_close m p = Some (p + of_nat (length cs))"
proof (induction cs arbitrary: p)
  case Nil
  then show ?case by (subst find_close.simps) simp
next
  case (Cons c cs)
  then show ?case by (subst find_close.simps) (simp add: add.assoc)
qed

lemma int_diff_small:
  assumes "n < 2 ^ 31"
  shows "int_diff (p + of_nat n) p = int n"
proof -
  have "(ucast (p + of_nat n - p) :: u32) = of_nat n" 
    using assms by (simp add: unsigned_of_nat take_bit_nat_eq_self)
  moreover have "sint (of_nat n :: u32) = int n"
    using assms by (simp add: signed_of_nat signed_take_bit_int_eq_self)
  ultimately show ?thesis by (simp add: int_diff_def)
qed

context char_sink
begin

text \<open>A hole with an argument: the specification is parsed and the argument routed.\<close>

lemma printf_hole:
  assumes "cstr_at m p (piece_text (Hole colon fs) @ cs)" and "piece_ok (Hole colon fs)"
  shows "printf put m p (a # as) st
    = route put m a fs st
      \<bind> printf put m (p + of_nat (length (piece_text (Hole colon fs)))) as"
proof -
  let ?sp = "spec_text colon fs"
  let ?e = "p + 1 + of_nat (length ?sp)"
  have sp: "\<forall>c \<in> set ?sp. c \<noteq> 0 \<and> c \<noteq> 125 \<and> c \<noteq> 123"
    using spec_text_bytes [OF assms(2)] by blast
  have at: "m p = Some 123" "bytes_at m (p + 1) (?sp @ [125])" "bytes_at m (p + 1) ?sp" "m ?e = Some 125"
    using assms(1) by (auto simp: cstr_at_def bytes_at_append)
  have "\<exists>d. m (p + 1) = Some d \<and> d \<noteq> 123" using at(2) sp by (cases ?sp) auto
  then obtain d where d: "m (p + 1) = Some d" "d \<noteq> 123" by blast
  have close: "find_close m (p + 1) = Some ?e" using find_close_text [OF at(2)] sp by simp
  have "int_diff ?e (p + 1) = int (length ?sp)"
    using int_diff_small [of "length ?sp" "p + 1"] spec_text_length [OF assms(2)] by simp
  moreover have "parse_spec m (p + 1) (int (length ?sp)) = Some fs"
    using parse_spec_text_at [OF at(3)] assms(2) by simp
  ultimately have "print_with_spec put m a (p + 1) (int_diff ?e (p + 1)) st = route put m a fs st"
    by (simp add: print_with_spec_def)
  moreover have next_p: "p + of_nat (length (piece_text (Hole colon fs))) = ?e + 1"
    by (simp add: algebra_simps)
  ultimately show ?thesis
    unfolding next_p using at(1,4) d close by (subst printf.simps) simp
qed

lemma emits_printf:
  "printf_text m ps as t \<Longrightarrow> list_all piece_ok ps \<Longrightarrow> cstr_at m p (format_text ps) \<Longrightarrow>
     emits (printf put m p as) t"
proof (induction arbitrary: p rule: printf_text.induct)
  case (no_args m ps)
  then show ?case using emits_puts [of m p "format_text ps"] by (simp add: emits_def printf.simps)
next
  case (no_format m a as)
  then show ?case using emits_skip by (simp add: emits_def printf.simps)
next
  case (plain m ps a as t c)
  then have "emits (printf put m (p + 1) (a # as)) t" by simp
  from emits_seq [OF emits_puts_lit [of "[c]"] this] show ?case
    by (rule emits_eq) (use plain.prems in \<open>subst printf.simps, cases "c = 10"; simp\<close>)
next
  case (escape m ps a as t)
  then have "emits (printf put m (p + 2) (a # as)) t" by (simp add: add.assoc)
  from emits_put_seq [OF this, of 123] show ?case
    by (rule emits_eq) (use escape.prems in \<open>subst printf.simps, simp\<close>)
next
  case (hole m a fs u ps as t colon)
  let ?q = "p + of_nat (length (piece_text (Hole colon fs)))"
  have "cstr_at m ?q (format_text ps)"
    using hole.prems(2) cstr_at_append [of m p "piece_text (Hole colon fs)" "format_text ps"]
    by (simp del: piece_text.simps)
  then have "emits (printf put m ?q as) t" using hole by simp
  from emits_seq [OF emits_route [OF hole.hyps(1)] this] show ?case
    by (rule emits_eq) (use hole.prems printf_hole [of m p colon fs "format_text ps"] in simp)
qed

end

text \<open>
  C7: \<open>printf\<close> on a serial port. Whenever the line status register keeps becoming ready and the
  divisor latch is closed, a call with a format of plain characters, escapes and holes
  returns, and the UART has transmitted exactly the text the format and the arguments
  denote, after what it had transmitted before.
\<close>

theorem printf_transmits:
  assumes "printf_text m ps as t" and "list_all piece_ok ps" and "cstr_at m p (format_text ps)"
    and "\<not> dlab (uart_after base u h)" and "eventually_ready dev base"
  shows "\<exists>h'. printf (serial_put dev base) m p as h = Some h'
    \<and> sent (uart_after base u h') = sent (uart_after base u h) @ t"
  using serial_sink.emitsD [OF serial_sink.emits_printf [OF assms(1-3), where dev = dev and base = base and u = u], of h] assms(4,5)
  by blast

text \<open>A transmitter that is always ready, and the call \<^verbatim>\<open>printf("v={:#04x}!", 255)\<close>.\<close>

theorem printf_transmits_witness:
  "\<exists>h'. printf (serial_put (\<lambda>h p. 32) 0x3F8)
      (put_bytes Map.empty 16 [118, 61, 123, 58, 35, 48, 52, 120, 125, 33, 0]) 16 [AInt 255] [] = Some h'
    \<and> sent (uart_after 0x3F8 \<lparr>ier = 0, fcr = 0, lcr = 3, mcr = 0, dll = 1, dlm = 0, sent = []\<rparr> h')
       = [118, 61, 48, 120, 48, 48, 102, 102, 33]"
proof -
  let ?fs = "\<lparr>alternate = True, zero_pad = True, width = 4, ftype = 120\<rparr>"
  let ?u = "\<lparr>ier = 0, fcr = 0, lcr = 3, mcr = 0, dll = 1, dlm = 0, sent = []\<rparr> :: uart"
  let ?m = "put_bytes Map.empty 16 [118, 61, 123, 58, 35, 48, 52, 120, 125, 33, 0] :: mem"
  have hex: "num_text lower_table 16 255 = [102, 102]"
    by (subst num_text.simps, subst num_text.simps) (simp add: lower_table_def)
  have two: "replicate 2 c = [c, c]" for c :: u8 by (simp add: numeral_2_eq_2)
  have ps: "format_text [Plain 118, Plain 61, Hole True ?fs, Plain 33]
      = [118, 61, 123, 58, 35, 48, 52, 120, 125, 33]"
    by (simp add: spec_text_def num_text.simps upper_table_def)
  have "hole_text ?m (AInt 255) ?fs [48, 120, 48, 48, 102, 102]"
    by (simp add: int_text_def Let_def padded_def to_u64_def hex two)
  then have "printf_text ?m [Plain 118, Plain 61, Hole True ?fs, Plain 33] [AInt 255]
      (crlf [118] @ crlf [61] @ [48, 120, 48, 48, 102, 102] @ crlf (format_text [Plain 33]))"
    by (intro printf_text.intros)
  moreover have "letter_type 120" by (simp add: letter_type_def isalpha_def)
  moreover have "eventually_ready (\<lambda>h p. 32) 0x3F8" by (simp add: eventually_ready_def status_def)
  ultimately show ?thesis
    using printf_transmits [of ?m "[Plain 118, Plain 61, Hole True ?fs, Plain 33]" "[AInt 255]" _ 16
        "0x3F8" ?u "[]" "\<lambda>h p. 32"] ps
    by (simp add: uart_after_def dlab_def)
qed

subsection \<open>Fixed width and signed numbers\<close>

text \<open>
  \<open>put_hex\<close> sends \<^verbatim>\<open>0x\<close> and exactly the digits asked for, which denote the number modulo
  16 to that many digits; \<open>put_bin\<close> does the same with \<^verbatim>\<open>0b\<close> and bits.
\<close>

theorem put_hex_bin_fixed:
  assumes "1 \<le> k" and "k \<le> 16" and "1 \<le> j" and "j \<le> 64"
    and "\<not> dlab (uart_after base u h)" and "eventually_ready dev base"
  shows "\<exists>h1 h2 ds bs. put_hex (serial_put dev base) v (int k) h = Some h1
    \<and> sent (uart_after base u h1) = sent (uart_after base u h) @ [48, 120] @ ds
    \<and> length ds = k \<and> text_value upper_table 16 ds = unat v mod 16 ^ k
    \<and> put_bin (serial_put dev base) v (int j) h = Some h2
    \<and> sent (uart_after base u h2) = sent (uart_after base u h) @ [48, 98] @ bs
    \<and> length bs = j \<and> text_value upper_table 2 bs = unat v mod 2 ^ j"
proof -
  have r: "\<not> dlab (uart_after base u h) \<and> eventually_ready dev base" using assms(5,6) by simp
  note hex = serial_sink.emitsD [OF serial_sink.emits_put_hex [OF assms(1,2)] r, of v]
  note bin = serial_sink.emitsD [OF serial_sink.emits_put_bin [OF assms(3,4)] r, of v]
  have "text_value upper_table 16 (fixed_text 16 k (unat v)) = unat v mod 16 ^ k"
    "text_value upper_table 2 (fixed_text 2 j (unat v)) = unat v mod 2 ^ j"
    unfolding text_value_def by (simp_all add: fixed_text_value)
  with hex bin show ?thesis by fastforce
qed

theorem put_hex_bin_fixed_witness:
  "\<exists>h1 ds. put_hex (serial_put (\<lambda>h p. 32) 0x3F8) 0xBEEF 3 [] = Some h1
     \<and> length ds = 3 \<and> text_value upper_table 16 ds = 0xEEF"
proof -
  have "eventually_ready (\<lambda>h p. 32) 0x3F8" by (simp add: eventually_ready_def status_def)
  then show ?thesis
    using put_hex_bin_fixed [of 3 8 "0x3F8" "\<lparr>ier = 0, fcr = 0, lcr = 3, mcr = 0, dll = 1, dlm = 0,
        sent = []\<rparr>" "[]" "\<lambda>h p. 32" "0xBEEF"]
    by (fastforce simp: uart_after_def dlab_def)
qed

text \<open>
  A negative number is printed as the unsigned 64-bit number with the same bits: \<^verbatim>\<open>print\<close> of
  an \<^verbatim>\<open>i32\<close> or \<^verbatim>\<open>i64\<close> below zero sends the digits of 2^64 plus the number and no minus sign.
\<close>

theorem print_negative_unsigned:
  assumes "- (2 ^ 63) \<le> n" and "n < 0"
    and "\<not> dlab (uart_after base u h)" and "eventually_ready dev base"
  shows "\<exists>h' ds. print (serial_put dev base) m (AInt n) h = Some h'
    \<and> sent (uart_after base u h') = sent (uart_after base u h) @ ds
    \<and> text_value upper_table 10 ds = nat (2 ^ 64 + n)"
proof -
  have r: "\<not> dlab (uart_after base u h) \<and> eventually_ready dev base" using assms(3,4) by simp
  have "n mod 2 ^ 64 = (2 ^ 64 + n) mod 2 ^ 64" by simp
  also have "\<dots> = 2 ^ 64 + n" using assms(1,2) by (intro mod_pos_pos_trivial) simp_all
  finally have "n mod 2 ^ 64 = 2 ^ 64 + n" .
  then have "unat (to_u64 n) = nat (2 ^ 64 + n)"
    unfolding to_u64_def by (simp add: unsigned_of_int take_bit_eq_mod)
  then have "text_value upper_table 10 (num_text upper_table 10 (unat (to_u64 n))) = nat (2 ^ 64 + n)"
    by (simp add: text_value_num_text)
  with serial_sink.emitsD [OF serial_sink.emits_print [OF arg_text_items_text.int] r]
  show ?thesis by blast
qed

theorem print_negative_unsigned_witness:
  "\<exists>h' ds. print (serial_put (\<lambda>h p. 32) 0x3F8) Map.empty (AInt (- 1)) [] = Some h'
     \<and> text_value upper_table 10 ds = 18446744073709551615"
proof -
  have "eventually_ready (\<lambda>h p. 32) 0x3F8" by (simp add: eventually_ready_def status_def)
  then show ?thesis
    using print_negative_unsigned [of "- 1" "0x3F8" "\<lparr>ier = 0, fcr = 0, lcr = 3, mcr = 0, dll = 1,
        dlm = 0, sent = []\<rparr>" "[]" "\<lambda>h p. 32" Map.empty]
    by (fastforce simp: uart_after_def dlab_def)
qed

text \<open>
  After the last argument the format is no longer unescaped: a doubled brace is sent as two,
  where the same pair before the last hole is sent as one.
\<close>

lemma escape_after_last_argument:
  "printf_text m [Hole False \<lparr>alternate = False, zero_pad = False, width = 0, ftype = 0\<rparr>, Escape]
     [AOther] (unsupported @ [123, 123])"
  "printf_text m [Escape, Hole False \<lparr>alternate = False, zero_pad = False, width = 0, ftype = 0\<rparr>]
     [AOther] (123 # unsupported @ [])"
proof -
  let ?fs = "\<lparr>alternate = False, zero_pad = False, width = 0, ftype = 0\<rparr>"
  have h: "hole_text m AOther ?fs unsupported" by simp
  from printf_text.hole [OF h printf_text.no_args [of m "[Escape]"]]
  show "printf_text m [Hole False ?fs, Escape] [AOther] (unsupported @ [123, 123])" by simp
  from printf_text.escape [OF printf_text.hole [OF h printf_text.no_args [of m "[]"]]]
  show "printf_text m [Escape, Hole False ?fs] [AOther] (123 # unsupported @ [])" by simp
qed

end
