(* ===== verification/Pmm.thy ===== *)
theory Pmm
  imports Prelude
begin

text \<open>
  The physical memory manager (\<^verbatim>\<open>core/pmm.hh\<close>): a list of free page frames threaded through
  the frames themselves.

  The compile-time switches, the page tables and the answer of the boot loader about the
  higher-half map are the record \<open>pmm_env\<close>. Page tables are a parameter: \<open>xlate\<close> gives the
  physical address behind a pointer, \<open>None\<close> where nothing is mapped. The contents of memory
  are keyed by physical address, so that two mappings of one frame are one \<open>FreePage\<close>. The
  pointers in the list are what the code stores, whatever they are mapped to.

  \<open>None\<close> is a fault, a loop that does not end, or \<^verbatim>\<open>kpanic\<close>, which does not return.
\<close>

subsection \<open>State\<close>

record free_page =
  link :: addr
  flags :: u32

datatype message =
    MStart | MCount usize | MEntry usize u64 u64 u64
  | MSkip u64 u64 | MAdjust u64 | MAdd u64 u64 u64 | MUnusable usize u64 | MDone u64 u64
  | WNotAligned u64 | WDoubleFree u64

record pmm =
  freelist_head :: addr
  freelist_tail :: addr
  total_pages :: u64
  free_pages :: u64
  pages :: "addr \<Rightarrow> free_page"
  log :: "message list"

record pmm_env =
  kDebugMode :: bool
  kPanicOnError :: bool
  kPmmZeroOnAlloc :: bool
  kPmmZeroOnFree :: bool
  kPmmUseFifo :: bool
  hhdm :: "u64 option"
  xlate :: "addr \<Rightarrow> addr option"

text \<open>The switches as \<^verbatim>\<open>constants.h\<close> sets them.\<close>

definition kernel_env :: "u64 option \<Rightarrow> (addr \<Rightarrow> addr option) \<Rightarrow> pmm_env" where
  "kernel_env off xl = \<lparr>kDebugMode = True, kPanicOnError = False, kPmmZeroOnAlloc = False,
     kPmmZeroOnFree = False, kPmmUseFifo = False, hhdm = off, xlate = xl\<rparr>"

definition PageSize :: u64 where "PageSize = 4096"
definition kMinPhysical :: u64 where "kMinPhysical = 0x00100000"
definition kEnableDoubleFreeCheck :: bool where "kEnableDoubleFreeCheck = True"

definition alignUp :: "u64 \<Rightarrow> u64 \<Rightarrow> u64" where
  "alignUp a align = (a + (align - 1)) AND NOT (align - 1)"

definition alignDown :: "u64 \<Rightarrow> u64 \<Rightarrow> u64" where
  "alignDown a align = a AND NOT (align - 1)"

definition kpanic :: "'a option" where
  "kpanic = None"

text \<open>\<^verbatim>\<open>Limine::HHDM::offset()\<close>.\<close>

definition hhdm_offset :: "pmm_env \<Rightarrow> u64" where
  "hhdm_offset e = (case hhdm e of None \<Rightarrow> 0 | Some off \<Rightarrow> off)"

definition say :: "message \<Rightarrow> pmm \<Rightarrow> pmm" where
  "say msg s = s\<lparr>log := log s @ [msg]\<rparr>"

definition debug :: "pmm_env \<Rightarrow> message \<Rightarrow> pmm \<Rightarrow> pmm" where
  "debug e msg s = (if kDebugMode e then say msg s else s)"

subsection \<open>Page contents\<close>

definition load_next :: "pmm_env \<Rightarrow> addr \<Rightarrow> pmm \<Rightarrow> addr option" where
  "load_next e p s = do { q \<leftarrow> xlate e p; Some (link (pages s q)) }"

definition store_next :: "pmm_env \<Rightarrow> addr \<Rightarrow> addr \<Rightarrow> pmm \<Rightarrow> pmm option" where
  "store_next e p v s = do {
     q \<leftarrow> xlate e p;
     Some (s\<lparr>pages := (pages s)(q := (pages s q)\<lparr>link := v\<rparr>)\<rparr>)
   }"

definition store_flags :: "pmm_env \<Rightarrow> addr \<Rightarrow> u32 \<Rightarrow> pmm \<Rightarrow> pmm option" where
  "store_flags e p v s = do {
     q \<leftarrow> xlate e p;
     Some (s\<lparr>pages := (pages s)(q := (pages s q)\<lparr>flags := v\<rparr>)\<rparr>)
   }"

text \<open>Writing 4096 zero bytes over a frame clears the \<^verbatim>\<open>FreePage\<close> at its start.\<close>

definition zero_page :: "pmm_env \<Rightarrow> addr \<Rightarrow> pmm \<Rightarrow> pmm option" where
  "zero_page e p s = do {
     q \<leftarrow> xlate e p;
     Some (s\<lparr>pages := (pages s)(q := \<lparr>link = 0, flags = 0\<rparr>)\<rparr>)
   }"

subsection \<open>Adding memory\<close>

definition add_page :: "pmm_env \<Rightarrow> addr \<Rightarrow> pmm \<Rightarrow> pmm option" where
  "add_page e a s = do {
     s \<leftarrow> store_next e a 0 s;
     s \<leftarrow> store_flags e a 0 s;
     s \<leftarrow> (if kPmmUseFifo e then
             (if freelist_tail s \<noteq> 0 then do {
                s \<leftarrow> store_next e (freelist_tail s) a s;
                Some (s\<lparr>freelist_tail := a\<rparr>)
              } else Some (s\<lparr>freelist_head := a, freelist_tail := a\<rparr>))
           else do {
             s \<leftarrow> store_next e a (freelist_head s) s;
             let s = s\<lparr>freelist_head := a\<rparr>;
             Some (if freelist_tail s = 0 then s\<lparr>freelist_tail := a\<rparr> else s)
           });
     Some (s\<lparr>total_pages := total_pages s + 1, free_pages := free_pages s + 1\<rparr>)
   }"

partial_function (option) add_pages :: "pmm_env \<Rightarrow> addr \<Rightarrow> addr \<Rightarrow> pmm \<Rightarrow> pmm option" where
  "add_pages e a stop s =
     (if a < stop then do {
        s \<leftarrow> add_page e a s;
        add_pages e (a + PageSize) stop s
      } else Some s)"

definition addRegion :: "pmm_env \<Rightarrow> u64 \<Rightarrow> u64 \<Rightarrow> pmm \<Rightarrow> pmm option" where
  "addRegion e base len s =
     (let start = alignUp base PageSize; stop = alignDown (base + len) PageSize
      in if start \<ge> stop then Some s else add_pages e start stop s)"

text \<open>A memory map entry of the boot loader; type 0 is \<^verbatim>\<open>LIMINE_MEMMAP_USABLE\<close>.\<close>

record memmap_entry =
  entry_base :: u64
  entry_length :: u64
  entry_type :: u64

definition init_entry :: "pmm_env \<Rightarrow> usize \<Rightarrow> memmap_entry \<Rightarrow> pmm \<Rightarrow> pmm option" where
  "init_entry e i entry s =
     (let s = debug e (MEntry i (entry_base entry) (entry_length entry) (entry_type entry)) s
      in if entry_type entry = 0 then
        (let start = entry_base entry; stop = entry_base entry + entry_length entry
         in if stop \<le> kMinPhysical then Some (debug e (MSkip start stop) s)
            else
              (let s = (if start < kMinPhysical then debug e (MAdjust start) s else s);
                   start = (if start < kMinPhysical then kMinPhysical else start);
                   s = debug e (MAdd start stop (stop - start)) s
               in addRegion e start (stop - start) s))
      else Some (debug e (MUnusable i (entry_type entry)) s))"

fun init_entries :: "pmm_env \<Rightarrow> usize \<Rightarrow> memmap_entry list \<Rightarrow> pmm \<Rightarrow> pmm option" where
  "init_entries e i [] s = Some s"
| "init_entries e i (x # xs) s = do { s \<leftarrow> init_entry e i x s; init_entries e (i + 1) xs s }"

text \<open>The memory map is \<open>None\<close> where \<^verbatim>\<open>Limine::MemoryMap::available()\<close> is false.\<close>

definition pmm_init :: "pmm_env \<Rightarrow> memmap_entry list option \<Rightarrow> pmm \<Rightarrow> pmm option" where
  "pmm_init e memmap s = (case memmap of
     None \<Rightarrow> kpanic
   | Some entries \<Rightarrow> do {
       let s = debug e MStart s;
       let s = debug e (MCount (of_nat (length entries))) s;
       s \<leftarrow> init_entries e 0 entries s;
       Some (debug e (MDone (total_pages s) (free_pages s)) s)
     })"

subsection \<open>Allocation\<close>

definition allocate :: "pmm_env \<Rightarrow> pmm \<Rightarrow> ((u64 \<times> addr) \<times> pmm) option" where
  "allocate e s =
     (if freelist_head s = 0 then kpanic
      else do {
        let page = freelist_head s;
        nxt \<leftarrow> load_next e page s;
        let s = s\<lparr>freelist_head := nxt\<rparr>;
        let s = (if kPmmUseFifo e \<and> nxt = 0 then s\<lparr>freelist_tail := 0\<rparr> else s);
        let s = s\<lparr>free_pages := free_pages s - 1\<rparr>;
        s \<leftarrow> (if kPmmZeroOnAlloc e then zero_page e page s else Some s);
        let virt = (case hhdm e of None \<Rightarrow> 0 | Some off \<Rightarrow> page + off);
        Some ((page, virt), s)
      })"

definition tryAllocate :: "pmm_env \<Rightarrow> pmm \<Rightarrow> ((u64 \<times> addr) \<times> pmm) option" where
  "tryAllocate e s = (if freelist_head s = 0 then Some ((0, 0), s) else allocate e s)"

text \<open>The search of the free list for the page being freed.\<close>

partial_function (option) in_freelist :: "pmm_env \<Rightarrow> addr \<Rightarrow> addr \<Rightarrow> pmm \<Rightarrow> bool option" where
  "in_freelist e it page s =
     (if it = 0 then Some False
      else if it = page then Some True
      else do { nxt \<leftarrow> load_next e it s; in_freelist e nxt page s })"

definition link_freed :: "pmm_env \<Rightarrow> addr \<Rightarrow> pmm \<Rightarrow> pmm option" where
  "link_freed e page s =
     (if kPmmUseFifo e then
        (if freelist_tail s \<noteq> 0 then do {
           s \<leftarrow> store_next e (freelist_tail s) page s;
           s \<leftarrow> store_next e page 0 s;
           Some (s\<lparr>freelist_tail := page\<rparr>)
         } else do {
           s \<leftarrow> store_next e page 0 s;
           Some (s\<lparr>freelist_head := page, freelist_tail := page\<rparr>)
         })
      else do {
        s \<leftarrow> store_next e page (freelist_head s) s;
        let s = s\<lparr>freelist_head := page\<rparr>;
        Some (if freelist_tail s = 0 then s\<lparr>freelist_tail := page\<rparr> else s)
      })"

definition free :: "pmm_env \<Rightarrow> u64 \<Rightarrow> pmm \<Rightarrow> pmm option" where
  "free e phys s =
     (let virt = phys + hhdm_offset e
      in if phys AND (PageSize - 1) \<noteq> 0 then
           (if kPanicOnError e then kpanic else Some (say (WNotAligned phys) s))
         else do {
           dup \<leftarrow> (if kDebugMode e \<or> kEnableDoubleFreeCheck
                   then in_freelist e (freelist_head s) virt s else Some False);
           if dup then (if kPanicOnError e then kpanic else Some (say (WDoubleFree phys) s))
           else do {
             s \<leftarrow> (if kPmmZeroOnFree e then zero_page e virt s else Some s);
             s \<leftarrow> link_freed e virt s;
             Some (s\<lparr>free_pages := free_pages s + 1\<rparr>)
           }
         })"

subsection \<open>Reservation\<close>

text \<open>The inner loop: unlink every node at the address, from the node \<open>it\<close> on.\<close>

partial_function (option) unlink_from ::
    "pmm_env \<Rightarrow> addr \<Rightarrow> addr \<Rightarrow> addr \<Rightarrow> pmm \<Rightarrow> pmm option" where
  "unlink_from e a prev it s =
     (if it = 0 then Some s
      else do {
        nxt \<leftarrow> load_next e it s;
        if it = a then do {
          s \<leftarrow> (if prev = 0 then Some (s\<lparr>freelist_head := nxt\<rparr>) else store_next e prev nxt s);
          unlink_from e a prev nxt (s\<lparr>free_pages := free_pages s - 1\<rparr>)
        } else unlink_from e a it nxt s
      })"

partial_function (option) reserve_pages :: "pmm_env \<Rightarrow> addr \<Rightarrow> addr \<Rightarrow> pmm \<Rightarrow> pmm option" where
  "reserve_pages e a stop s =
     (if a < stop then do {
        s \<leftarrow> unlink_from e a 0 (freelist_head s) s;
        reserve_pages e (a + PageSize) stop s
      } else Some s)"

partial_function (option) find_tail :: "pmm_env \<Rightarrow> addr \<Rightarrow> pmm \<Rightarrow> addr option" where
  "find_tail e it s =
     (if it = 0 then Some 0
      else do {
        nxt \<leftarrow> load_next e it s;
        if nxt = 0 then Some it else find_tail e nxt s
      })"

definition reserveRegion :: "pmm_env \<Rightarrow> u64 \<Rightarrow> u64 \<Rightarrow> pmm \<Rightarrow> pmm option" where
  "reserveRegion e base len s =
     (let start = alignUp base PageSize; stop = alignDown (base + len) PageSize
      in if start \<ge> stop then Some s
         else do {
           s \<leftarrow> reserve_pages e start stop s;
           if kPmmUseFifo e then do {
             t \<leftarrow> find_tail e (freelist_head s) s;
             Some (s\<lparr>freelist_tail := t\<rparr>)
           } else Some s
         })"

definition totalPages :: "pmm \<Rightarrow> u64" where "totalPages s = total_pages s"
definition freePages :: "pmm \<Rightarrow> u64" where "freePages s = free_pages s"

end
