(* ===== verification/PmmProps.thy ===== *)
theory PmmProps
  imports Pmm
begin

text \<open>
  The free list of the physical memory manager as a list of page frames: the representation
  invariant \<open>pool\<close>, what every operation does to it, and the interface \<open>page_pool\<close> a client
  of the allocator relies on.
\<close>

subsection \<open>Paths through the frames\<close>

definition phys :: "pmm_env \<Rightarrow> addr \<Rightarrow> addr" where
  "phys e p = the (xlate e p)"

text \<open>Following \<open>next\<close> from \<open>p\<close> visits the nodes \<open>xs\<close> and arrives at \<open>r\<close>.\<close>

fun path :: "pmm_env \<Rightarrow> (addr \<Rightarrow> free_page) \<Rightarrow> addr \<Rightarrow> addr list \<Rightarrow> addr \<Rightarrow> bool" where
  "path e h p [] r \<longleftrightarrow> p = r"
| "path e h p (x # xs) r \<longleftrightarrow>
     p = x \<and> x \<noteq> 0 \<and> xlate e x \<noteq> None \<and> path e h (link (h (phys e x))) xs r"

lemma path_append: "path e h p (xs @ ys) r \<longleftrightarrow> (\<exists>q. path e h p xs q \<and> path e h q ys r)"
  by (induction xs arbitrary: p) auto

lemma path_cong:
  "(\<And>x. x \<in> set xs \<Longrightarrow> link (h (phys e x)) = link (h' (phys e x))) \<Longrightarrow>
     path e h p xs r = path e h' p xs r"
  by (induction xs arbitrary: p) auto

lemma path_upd:
  "phys e a \<notin> phys e ` set xs \<Longrightarrow> path e (h(phys e a := n)) p xs r = path e h p xs r"
  by (rule path_cong) (metis fun_upd_other imageI)

lemma path_last:
  assumes "path e h p (xs @ [x]) r" and "phys e x \<notin> phys e ` set xs"
  shows "path e (h(phys e x := n)) p (xs @ [x]) (link n)"
  using assms by (auto simp: path_append path_upd)

lemma path_nonzero: "path e h p xs r \<Longrightarrow> x \<in> set xs \<Longrightarrow> x \<noteq> 0 \<and> xlate e x \<noteq> None"
  by (induction xs arbitrary: p) auto

lemma path_head: "path e h p xs 0 \<Longrightarrow> p = 0 \<longleftrightarrow> xs = []"
  by (cases xs) auto

subsection \<open>The representation invariant\<close>

definition pool :: "pmm_env \<Rightarrow> pmm \<Rightarrow> addr list \<Rightarrow> bool" where
  "pool e s ps \<longleftrightarrow> path e (pages s) (freelist_head s) ps 0
     \<and> distinct (map (phys e) ps) \<and> free_pages s = of_nat (length ps)
     \<and> (kPmmUseFifo e \<longrightarrow> freelist_tail s = (if ps = [] then 0 else last ps))"

definition enlist :: "pmm_env \<Rightarrow> addr \<Rightarrow> addr list \<Rightarrow> addr list" where
  "enlist e a ps = (if kPmmUseFifo e then ps @ [a] else a # ps)"

text \<open>A page that may enter the pool: mapped, not null, and its frame is not in it.\<close>

definition fresh :: "pmm_env \<Rightarrow> addr list \<Rightarrow> addr \<Rightarrow> bool" where
  "fresh e ps a \<longleftrightarrow> a \<noteq> 0 \<and> xlate e a \<noteq> None \<and> phys e a \<notin> phys e ` set ps"

lemma store_next_mapped [simp]:
  "xlate e p \<noteq> None \<Longrightarrow> store_next e p v s =
     Some (s\<lparr>pages := (pages s)(phys e p := (pages s (phys e p))\<lparr>link := v\<rparr>)\<rparr>)"
  by (auto simp: store_next_def phys_def)

lemma store_flags_mapped [simp]:
  "xlate e p \<noteq> None \<Longrightarrow> store_flags e p v s =
     Some (s\<lparr>pages := (pages s)(phys e p := (pages s (phys e p))\<lparr>flags := v\<rparr>)\<rparr>)"
  by (auto simp: store_flags_def phys_def)

lemma load_next_mapped [simp]:
  "xlate e p \<noteq> None \<Longrightarrow> load_next e p s = Some (link (pages s (phys e p)))"
  by (auto simp: load_next_def phys_def)

lemma zero_page_mapped [simp]:
  "xlate e p \<noteq> None \<Longrightarrow> zero_page e p s = Some (s\<lparr>pages := (pages s)(phys e p := \<lparr>link = 0, flags = 0\<rparr>)\<rparr>)"
  by (auto simp: zero_page_def phys_def)

text \<open>The contents of a frame outside the pool do not matter to it.\<close>

lemma pool_other_page:
  assumes "pool e s ps" and "phys e a \<notin> phys e ` set ps"
  shows "pool e (s\<lparr>pages := (pages s)(phys e a := n)\<rparr>) ps"
  using assms by (simp add: pool_def path_upd)

lemma pool_head: "pool e s ps \<Longrightarrow> freelist_head s = (if ps = [] then 0 else hd ps)"
  by (cases ps) (auto simp: pool_def)

lemma pool_tail_zero: "pool e s ps \<Longrightarrow> kPmmUseFifo e \<Longrightarrow> freelist_tail s = 0 \<longleftrightarrow> ps = []"
  using path_nonzero [of e "pages s" "freelist_head s" ps 0 "last ps"]
  by (auto simp: pool_def)

text \<open>
  Appending to the list: the last node points to the new page, the new page to nothing, the
  other nodes are as they were.
\<close>

lemma path_enqueue:
  assumes "path e h p (xs @ [t]) 0" and "fresh e (xs @ [t]) a"
    and "link (h' (phys e t)) = a" and "link (h' (phys e a)) = 0"
    and "\<And>x. x \<in> set xs \<Longrightarrow> link (h' (phys e x)) = link (h (phys e x))"
  shows "path e h' p (xs @ [t, a]) 0"
proof -
  have "path e h p xs t \<and> t \<noteq> 0 \<and> xlate e t \<noteq> None" using assms(1) by (auto simp: path_append)
  moreover have "path e h p xs t = path e h' p xs t" by (rule path_cong) (simp add: assms(5))
  ultimately show ?thesis using assms(2-4) by (auto simp: path_append fresh_def)
qed

lemma pool_snocE:
  assumes "pool e s ps" and "kPmmUseFifo e" and "ps \<noteq> []" and "fresh e ps a"
  obtains xs t where "ps = xs @ [t]" and "freelist_tail s = t" and "t \<noteq> 0" and "xlate e t \<noteq> None"
    and "phys e t \<noteq> phys e a" and "phys e t \<notin> phys e ` set xs" and "phys e a \<notin> phys e ` set xs"
    and "path e (pages s) (freelist_head s) (xs @ [t]) 0"
proof -
  obtain xs t where ps: "ps = xs @ [t]" using assms(3) by (cases ps rule: rev_cases) auto
  show thesis
    using assms path_nonzero [of e "pages s" "freelist_head s" ps 0 t]
    by (intro that [of xs t]) (auto simp: ps pool_def fresh_def)
qed

text \<open>Linking a page in: at the end of the list for FIFO, at its head otherwise.\<close>

lemma link_freed_pool:
  assumes "pool e s ps" and "fresh e ps a"
  shows "\<exists>s'. link_freed e a s = Some s' \<and> total_pages s' = total_pages s
    \<and> free_pages s' = free_pages s
    \<and> pool e (s'\<lparr>free_pages := free_pages s + 1\<rparr>) (enlist e a ps)"
proof (cases "kPmmUseFifo e \<and> ps \<noteq> []")
  case True
  then obtain xs t where t: "ps = xs @ [t]" "freelist_tail s = t" "t \<noteq> 0" "xlate e t \<noteq> None"
    "phys e t \<noteq> phys e a" "phys e t \<notin> phys e ` set xs" "phys e a \<notin> phys e ` set xs"
    "path e (pages s) (freelist_head s) (xs @ [t]) 0"
    using pool_snocE [OF assms(1) _ _ assms(2)] by blast
  let ?h = "(pages s)(phys e t := (pages s (phys e t))\<lparr>link := a\<rparr>)"
  let ?h' = "?h(phys e a := (?h (phys e a))\<lparr>link := 0\<rparr>)"
  have "path e ?h' (freelist_head s) (xs @ [t, a]) 0"
  proof (rule path_enqueue [OF t(8)])
    show "link (?h' (phys e x)) = link (pages s (phys e x))" if "x \<in> set xs" for x
    proof -
      have "phys e x \<noteq> phys e t" "phys e x \<noteq> phys e a" using t(6,7) that by (metis imageI)+
      then show ?thesis by simp
    qed
  qed (use assms(2) t in auto)
  then show ?thesis
    using True assms t by (auto simp: link_freed_def pool_def enlist_def fresh_def)
next
  case False
  then show ?thesis
    using assms pool_tail_zero [OF assms(1)]
    by (auto simp: link_freed_def pool_def enlist_def fresh_def path_upd Let_def)
qed

lemma add_page_pool:
  assumes "pool e s ps" and "fresh e ps a"
  shows "\<exists>s'. add_page e a s = Some s' \<and> total_pages s' = total_pages s + 1
    \<and> pool e s' (enlist e a ps)"
proof (cases "kPmmUseFifo e \<and> ps \<noteq> []")
  case True
  then obtain xs t where t: "ps = xs @ [t]" "freelist_tail s = t" "t \<noteq> 0" "xlate e t \<noteq> None"
    "phys e t \<noteq> phys e a" "phys e t \<notin> phys e ` set xs" "phys e a \<notin> phys e ` set xs"
    "path e (pages s) (freelist_head s) (xs @ [t]) 0"
    using pool_snocE [OF assms(1) _ _ assms(2)] by blast
  let ?h = "(pages s)(phys e a := (pages s (phys e a))\<lparr>link := 0, flags := 0\<rparr>)"
  let ?h' = "?h(phys e t := (?h (phys e t))\<lparr>link := a\<rparr>)"
  have "path e ?h' (freelist_head s) (xs @ [t, a]) 0"
  proof (rule path_enqueue [OF t(8)])
    show "link (?h' (phys e x)) = link (pages s (phys e x))" if "x \<in> set xs" for x
    proof -
      have "phys e x \<noteq> phys e t" "phys e x \<noteq> phys e a" using t(6,7) that by (metis imageI)+
      then show ?thesis by simp
    qed
  qed (use assms(2) t in auto)
  then show ?thesis
    using True assms t by (auto simp: add_page_def pool_def enlist_def fresh_def)
next
  case False
  then show ?thesis
    using assms pool_tail_zero [OF assms(1)]
    by (auto simp: add_page_def pool_def enlist_def fresh_def path_upd Let_def)
qed

subsection \<open>Adding a range of frames\<close>

fun frames :: "addr \<Rightarrow> nat \<Rightarrow> addr list" where
  "frames a 0 = []"
| "frames a (Suc n) = a # frames (a + PageSize) n"

definition enlist_all :: "pmm_env \<Rightarrow> addr list \<Rightarrow> addr list \<Rightarrow> addr list" where
  "enlist_all e as ps = fold (enlist e) as ps"

lemma enlist_all_simps [simp]:
  "enlist_all e [] ps = ps" "enlist_all e (a # as) ps = enlist_all e as (enlist e a ps)"
  by (simp_all add: enlist_all_def)

lemma enlist_all_append: "enlist_all e (as @ bs) ps = enlist_all e bs (enlist_all e as ps)"
  by (simp add: enlist_all_def)

lemma enlist_all_eq:
  "enlist_all e as ps = (if kPmmUseFifo e then ps @ as else rev as @ ps)"
  by (induction as arbitrary: ps) (simp_all add: enlist_def)

lemma set_enlist [simp]: "set (enlist e a ps) = insert a (set ps)"
  by (auto simp: enlist_def)

text \<open>A list of pages that may all enter the pool: none shares a frame with another.\<close>

definition all_fresh :: "pmm_env \<Rightarrow> addr list \<Rightarrow> addr list \<Rightarrow> bool" where
  "all_fresh e ps as \<longleftrightarrow> (\<forall>a \<in> set as. fresh e ps a) \<and> distinct (map (phys e) as)"

lemma all_fresh_Cons:
  "all_fresh e ps (a # as) \<longleftrightarrow> fresh e ps a \<and> all_fresh e (enlist e a ps) as"
  by (auto simp: all_fresh_def fresh_def image_iff)

lemma all_fresh_append:
  "all_fresh e ps (as @ bs) \<longleftrightarrow> all_fresh e ps as \<and> all_fresh e (enlist_all e as ps) bs"
proof (induction as arbitrary: ps)
  case Nil
  have "all_fresh e ps []" by (simp add: all_fresh_def)
  then show ?case by simp
qed (simp add: all_fresh_Cons)

lemma unat_PageSize [simp]: "unat PageSize = 4096"
  by (simp add: PageSize_def)

lemma add_pages_pool:
  assumes "unat a + n * 4096 < 2 ^ 64" and "unat stop = unat a + n * 4096"
    and "pool e s ps" and "all_fresh e ps (frames a n)"
  shows "\<exists>s'. add_pages e a stop s = Some s' \<and> total_pages s' = total_pages s + of_nat n
    \<and> pool e s' (enlist_all e (frames a n) ps)"
  using assms
proof (induction n arbitrary: a s ps)
  case 0
  then have "\<not> a < stop" by (simp add: word_less_nat_alt)
  then show ?case using 0 by (subst add_pages.simps) simp
next
  case (Suc n)
  have less: "a < stop" using Suc.prems(2) by (simp add: word_less_nat_alt)
  have fresh: "fresh e ps a" "all_fresh e (enlist e a ps) (frames (a + PageSize) n)"
    using Suc.prems(4) by (simp_all add: all_fresh_Cons)
  obtain s1 where s1: "add_page e a s = Some s1" "total_pages s1 = total_pages s + 1"
    "pool e s1 (enlist e a ps)"
    using add_page_pool [OF Suc.prems(3) fresh(1)] by blast
  have "unat (a + PageSize) = unat a + 4096"
    using unat_add_of_nat [of a 4096] Suc.prems(1) by (simp add: PageSize_def)
  with Suc.prems s1 fresh less Suc.IH [of "a + PageSize" s1 "enlist e a ps"] show ?case
    by (subst add_pages.simps) (auto simp: algebra_simps)
qed

subsection \<open>Alignment\<close>

lemma unat_alignDown: "unat (alignDown a PageSize) = unat a div 4096 * 4096"
proof -
  have "PageSize - 1 = mask 12" by (simp add: PageSize_def mask_eq_exp_minus_1)
  then have *: "alignDown a PageSize = push_bit 12 (drop_bit 12 a)"
    unfolding alignDown_def by (intro bit_word_eqI) (auto simp: bit_simps)
  have "unat a div 4096 < 2 ^ 52"
    using unat_less_size [of a] by (simp add: div_less_iff_less_mult)
  then show ?thesis
    unfolding * using unat_less_size [of a]
    by (simp only: unsigned_push_bit_eq unsigned_drop_bit_eq)
       (simp add: drop_bit_eq_div push_bit_eq_mult take_bit_nat_eq_self)
qed

lemma unat_alignUp:
  assumes "unat a + 4095 < 2 ^ 64"
  shows "unat (alignUp a PageSize) = (unat a + 4095) div 4096 * 4096"
proof -
  have "alignUp a PageSize = alignDown (a + of_nat 4095) PageSize"
    by (simp add: alignUp_def alignDown_def PageSize_def)
  then show ?thesis by (simp only: unat_alignDown unat_add_of_nat [OF assms])
qed

text \<open>Rounding up wraps to zero in the last page: such a region starts at address zero.\<close>

lemma alignUp_wraps: "alignUp 0xFFFFFFFFFFFFF001 PageSize = 0"
  by (simp add: alignUp_def PageSize_def)

text \<open>The frames wholly inside a region, when nothing wraps.\<close>

definition region_frames :: "u64 \<Rightarrow> u64 \<Rightarrow> addr list" where
  "region_frames base len =
     frames (alignUp base PageSize)
       ((unat (base + len) div 4096 * 4096 - unat (alignUp base PageSize)) div 4096)"

lemma addRegion_pool:
  assumes "pool e s ps" and "all_fresh e ps (region_frames base len)"
  shows "\<exists>s'. addRegion e base len s = Some s'
    \<and> total_pages s' = total_pages s + of_nat (length (region_frames base len))
    \<and> pool e s' (enlist_all e (region_frames base len) ps)"
proof -
  let ?start = "alignUp base PageSize" and ?stop = "alignDown (base + len) PageSize"
  let ?n = "(unat ?stop - unat ?start) div 4096"
  have rf: "region_frames base len = frames ?start ?n"
    by (simp add: region_frames_def unat_alignDown)
  have len: "length (frames a n) = n" for a n by (induction n arbitrary: a) simp_all
  show ?thesis
  proof (cases "?stop \<le> ?start")
    case True
    then have "?n = 0" by (simp add: word_le_nat_alt)
    with True assms show ?thesis by (simp add: addRegion_def rf)
  next
    case False
    have "unat ?start = unat (base + (PageSize - 1)) div 4096 * 4096"
      using unat_alignDown [of "base + (PageSize - 1)"] by (simp add: alignUp_def alignDown_def)
    moreover have "unat ?stop = unat (base + len) div 4096 * 4096" by (rule unat_alignDown)
    moreover have "unat ?start < unat ?stop" using False by (simp add: word_le_nat_alt)
    ultimately have n: "unat ?stop = unat ?start + ?n * 4096"
      by (metis diff_mult_distrib le_add_diff_inverse less_imp_le nonzero_mult_div_cancel_right
          zero_neq_numeral)
    have "unat ?stop < 2 ^ 64" by (rule unat_less_size)
    then have "unat ?start + ?n * 4096 < 2 ^ 64" using n by simp
    with add_pages_pool [OF _ n assms(1)] assms(2) False show ?thesis
      by (simp add: addRegion_def rf len)
  qed
qed

subsection \<open>Initialisation\<close>

text \<open>The frames of one memory map entry, in the order they are added.\<close>

definition entry_frames :: "memmap_entry \<Rightarrow> addr list" where
  "entry_frames x =
     (let start = entry_base x; stop = entry_base x + entry_length x;
          start' = (if start < kMinPhysical then kMinPhysical else start)
      in if entry_type x \<noteq> 0 \<or> stop \<le> kMinPhysical then []
         else region_frames start' (stop - start'))"

lemma pool_log [simp]: "pool e (s\<lparr>log := l\<rparr>) ps = pool e s ps"
  by (simp add: pool_def)

lemma pool_debug [simp]: "pool e (debug e msg s) ps = pool e s ps"
  by (simp add: debug_def say_def)

lemma total_debug [simp]: "total_pages (debug e msg s) = total_pages s"
  by (simp add: debug_def say_def)

lemma init_entry_pool:
  assumes "pool e s ps" and "all_fresh e ps (entry_frames x)"
  shows "\<exists>s'. init_entry e i x s = Some s'
    \<and> total_pages s' = total_pages s + of_nat (length (entry_frames x))
    \<and> pool e s' (enlist_all e (entry_frames x) ps)"
proof (cases "entry_type x \<noteq> 0 \<or> entry_base x + entry_length x \<le> kMinPhysical")
  case True
  then show ?thesis using assms by (auto simp: init_entry_def entry_frames_def Let_def)
next
  case False
  let ?start = "if entry_base x < kMinPhysical then kMinPhysical else entry_base x"
  let ?len = "entry_base x + entry_length x - ?start"
  have ef: "entry_frames x = region_frames ?start ?len" using False by (simp add: entry_frames_def Let_def)
  obtain s1 where s1: "init_entry e i x s = addRegion e ?start ?len s1" "pool e s1 ps"
    "total_pages s1 = total_pages s"
    using False assms(1) by (auto simp: init_entry_def Let_def)
  show ?thesis
    using addRegion_pool [OF s1(2) assms(2) [unfolded ef]] unfolding ef s1(1) s1(3) [symmetric] .
qed

lemma init_entries_pool:
  assumes "pool e s ps" and "all_fresh e ps (concat (map entry_frames xs))"
  shows "\<exists>s'. init_entries e i xs s = Some s'
    \<and> total_pages s' = total_pages s + of_nat (length (concat (map entry_frames xs)))
    \<and> pool e s' (enlist_all e (concat (map entry_frames xs)) ps)"
  using assms
proof (induction xs arbitrary: i s ps)
  case Nil
  then show ?case by simp
next
  case (Cons x xs)
  then have fr: "all_fresh e ps (entry_frames x)"
    "all_fresh e (enlist_all e (entry_frames x) ps) (concat (map entry_frames xs))"
    by (simp_all add: all_fresh_append)
  obtain s1 where s1: "init_entry e i x s = Some s1"
    "total_pages s1 = total_pages s + of_nat (length (entry_frames x))"
    "pool e s1 (enlist_all e (entry_frames x) ps)"
    using init_entry_pool [OF Cons.prems(1) fr(1)] by blast
  from Cons.IH [OF s1(3) fr(2), of "i + 1"] s1(1,2) show ?case
    by (auto simp: enlist_all_append add.assoc)
qed

text \<open>The state of the static members before \<open>init\<close>.\<close>

definition pmm_start :: "(addr \<Rightarrow> free_page) \<Rightarrow> pmm" where
  "pmm_start h = \<lparr>freelist_head = 0, freelist_tail = 0, total_pages = 0, free_pages = 0,
     pages = h, log = []\<rparr>"

lemma pool_start [simp]: "pool e (pmm_start h) []"
  by (simp add: pool_def pmm_start_def)

text \<open>
  What the frames of an entry are: the aligned frames that lie wholly inside the entry and not
  below \<open>kMinPhysical\<close>. The entry must end below the last page of the address space, so that
  neither the end nor the rounding up wraps.
\<close>

lemma set_frames:
  assumes "unat a + n * 4096 < 2 ^ 64"
  shows "p \<in> set (frames a n) \<longleftrightarrow>
    unat a \<le> unat p \<and> unat p < unat a + n * 4096 \<and> (unat p - unat a) mod 4096 = 0"
  using assms
proof (induction n arbitrary: a)
  case 0
  then show ?case by simp
next
  case (Suc n)
  have a: "unat (a + PageSize) = unat a + 4096"
    using unat_add_of_nat [of a 4096] Suc.prems by (simp add: PageSize_def)
  have "p \<in> set (frames (a + PageSize) n) \<longleftrightarrow> unat a + 4096 \<le> unat p
      \<and> unat p < unat a + Suc n * 4096 \<and> (unat p - (unat a + 4096)) mod 4096 = 0"
    using Suc.IH [of "a + PageSize"] Suc.prems unfolding a by (simp add: algebra_simps)
  moreover have "(unat p - (unat a + 4096)) mod 4096 = (unat p - unat a) mod 4096"
    if "unat a + 4096 \<le> unat p"
  proof -
    have "unat p - unat a = unat p - (unat a + 4096) + 4096" using that by simp
    then show ?thesis by (metis mod_add_self2)
  qed
  moreover have "p = a \<longleftrightarrow> unat p = unat a" by (simp add: word_unat_eq_iff)
  moreover have "unat p = unat a \<or> unat a + 4096 \<le> unat p"
    if "unat a \<le> unat p" "(unat p - unat a) mod 4096 = 0"
  proof -
    from that(2) have "unat p - unat a = 0 \<or> 4096 \<le> unat p - unat a"
      by (metis mod_less linorder_not_less)
    with that(1) show ?thesis by auto
  qed
  ultimately show ?case by (cases "unat a + 4096 \<le> unat p") auto
qed

lemma page_grid:
  fixes s e p :: nat
  assumes "S = (s + 4095) div 4096 * 4096" and "E = e div 4096 * 4096"
  shows "S \<le> p \<and> p < S + (E - S) div 4096 * 4096 \<and> (p - S) mod 4096 = 0
    \<longleftrightarrow> p mod 4096 = 0 \<and> s \<le> p \<and> p + 4096 \<le> e"
proof -
  define a b where "a = (s + 4095) div 4096" and "b = e div 4096"
  have S: "S = a * 4096" and n: "(E - S) div 4096 = b - a"
    by (simp_all add: assms a_def b_def flip: diff_mult_distrib)
  show ?thesis
  proof (cases "p mod 4096 = 0")
    case True
    then have "p = p div 4096 * 4096" using div_mult_mod_eq [of p 4096] by simp
    then obtain k where p: "p = k * 4096" by blast
    have lo: "(s \<le> p) = (a \<le> k)"
      unfolding a_def p less_Suc_eq_le [symmetric] by (simp only: div_less_iff_less_mult) auto
    have hi: "(p + 4096 \<le> e) = (k < b)"
      unfolding b_def p Suc_le_eq [symmetric] by (simp add: less_eq_div_iff_mult_less_eq add.commute)
    have off: "(p - S) mod 4096 = 0" by (simp add: S p flip: diff_mult_distrib)
    have lo': "(S \<le> p) = (a \<le> k)" by (simp add: S p)
    have "S + (b - a) * 4096 = (a + (b - a)) * 4096" unfolding S by (rule add_mult_distrib [symmetric])
    then have hi': "(p < S + (b - a) * 4096) = (k < a + (b - a))"
      by (simp only: p mult_less_cancel2) simp
    show ?thesis unfolding n lo hi off lo' hi' True by auto
  next
    case False
    have "S \<le> p \<Longrightarrow> (p - S) mod 4096 = p mod 4096"
      unfolding S by (metis le_add_diff_inverse2 mod_mult_self3 add.commute)
    with False show ?thesis by auto
  qed
qed

definition usable :: "memmap_entry \<Rightarrow> bool" where
  "usable x \<longleftrightarrow> entry_type x = 0"

definition frame_of :: "memmap_entry \<Rightarrow> addr \<Rightarrow> bool" where
  "frame_of x p \<longleftrightarrow> usable x \<and> unat p mod 4096 = 0 \<and> unat kMinPhysical \<le> unat p
     \<and> unat (entry_base x) \<le> unat p \<and> unat p + 4096 \<le> unat (entry_base x) + unat (entry_length x)"

lemma set_entry_frames:
  assumes "usable x \<longrightarrow> unat (entry_base x) + unat (entry_length x) + 4096 \<le> 2 ^ 64"
  shows "p \<in> set (entry_frames x) \<longleftrightarrow> frame_of x p"
proof -
  let ?base = "entry_base x" and ?len = "entry_length x"
  let ?start = "if ?base < kMinPhysical then kMinPhysical else ?base"
  show ?thesis
  proof (cases "usable x")
    case True
    then have stop: "unat (?base + ?len) = unat ?base + unat ?len"
      using assms unat_add_of_nat [of ?base "unat ?len"] by (simp add: of_nat_unat_64)
    show ?thesis
    proof (cases "?base + ?len \<le> kMinPhysical")
      case low: True
      then show ?thesis
        by (auto simp: entry_frames_def Let_def frame_of_def word_le_nat_alt stop)
    next
      case False
      let ?S = "unat (alignUp ?start PageSize)" and ?E = "unat (?base + ?len) div 4096 * 4096"
      have start: "unat ?start \<le> unat (?base + ?len)" and max: "unat ?start = max (unat kMinPhysical) (unat ?base)"
        using False stop by (auto simp: word_le_nat_alt word_less_nat_alt)
      have S: "?S = (unat ?start + 4095) div 4096 * 4096"
        using start assms True stop by (intro unat_alignUp) simp
      have "?S < 2 ^ 64" by (rule unat_less_size)
      moreover have "?E \<le> unat (?base + ?len)" by simp
      ultimately have bound: "?S + (?E - ?S) div 4096 * 4096 < 2 ^ 64"
        using unat_less_size [of "?base + ?len"] by (cases "?S \<le> ?E") (auto intro: le_less_trans [rotated])
      have "entry_frames x = frames (alignUp ?start PageSize) ((?E - ?S) div 4096)"
        using True False by (simp add: entry_frames_def region_frames_def usable_def Let_def)
      then show ?thesis
        using page_grid [OF S refl, of "unat p" "unat (?base + ?len)"] set_frames [OF bound, of p]
          True max stop by (auto simp: frame_of_def)
    qed
  next
    case False
    then show ?thesis by (simp add: entry_frames_def frame_of_def usable_def Let_def)
  qed
qed

text \<open>
  After \<open>init\<close> on a fresh manager the free list holds exactly the 4 KiB frames that lie
  wholly inside a usable entry of the memory map and not below 1 MiB, each once, and both
  counters are their number. This needs every such frame to be mapped, at its own place, and
  the usable entries to lie apart from each other and to end before the last page.
\<close>

lemma pmm_init_pool:
  assumes "\<forall>x \<in> set entries. usable x \<longrightarrow> unat (entry_base x) + unat (entry_length x) + 4096 \<le> 2 ^ 64"
    and "\<forall>x \<in> set entries. \<forall>p. frame_of x p \<longrightarrow> xlate e p \<noteq> None"
    and "distinct (map (phys e) (concat (map entry_frames entries)))"
  shows "\<exists>s ps. pmm_init e (Some entries) (pmm_start h) = Some s \<and> pool e s ps
    \<and> (\<forall>p. p \<in> set ps \<longleftrightarrow> (\<exists>x \<in> set entries. frame_of x p))
    \<and> totalPages s = of_nat (length ps) \<and> freePages s = of_nat (length ps)"
proof -
  let ?fs = "concat (map entry_frames entries)"
  have mem: "p \<in> set ?fs \<longleftrightarrow> (\<exists>x \<in> set entries. frame_of x p)" for p
    using assms(1) set_entry_frames by auto
  then have "p \<noteq> 0 \<and> xlate e p \<noteq> None" if "p \<in> set ?fs" for p
    using that assms(2) by (auto simp: frame_of_def kMinPhysical_def)
  then have "all_fresh e [] ?fs" using assms(3) by (auto simp: all_fresh_def fresh_def)
  moreover let ?s0 = "debug e (MCount (of_nat (length entries))) (debug e MStart (pmm_start h))"
  have "pool e ?s0 []" by simp
  ultimately obtain s1 where s1: "init_entries e 0 entries ?s0 = Some s1"
    "total_pages s1 = total_pages ?s0 + of_nat (length ?fs)" "pool e s1 (enlist_all e ?fs [])"
    using init_entries_pool by blast
  let ?ps = "enlist_all e ?fs []" and ?s = "debug e (MDone (total_pages s1) (free_pages s1)) s1"
  have "pmm_init e (Some entries) (pmm_start h) = Some ?s" using s1(1) by (simp add: pmm_init_def Let_def)
  moreover have "pool e ?s ?ps" using s1(3) by simp
  moreover have "p \<in> set ?ps \<longleftrightarrow> (\<exists>x \<in> set entries. frame_of x p)" for p
    using mem [of p] by (simp add: enlist_all_eq)
  moreover have "length ?ps = length ?fs" by (simp add: enlist_all_eq)
  then have "totalPages ?s = of_nat (length ?ps)"
    using s1(2) by (simp add: totalPages_def pmm_start_def)
  moreover have "freePages ?s = of_nat (length ?ps)"
    using \<open>pool e ?s ?ps\<close> by (simp add: freePages_def pool_def)
  ultimately show ?thesis by blast
qed

subsection \<open>The allocator as its clients see it\<close>

text \<open>
  A client calls one operation to take a page and one to give it back. It may rely on the
  page being one of those available and on it being gone from them afterwards, and on a page
  it returns becoming available again. The order in which pages come is not part of it.
\<close>

fun take_pages :: "('s \<Rightarrow> (addr \<times> 's) option) \<Rightarrow> nat \<Rightarrow> 's \<Rightarrow> (addr list \<times> 's) option" where
  "take_pages take_page 0 s = Some ([], s)"
| "take_pages take_page (Suc n) s = do {
     (p, s) \<leftarrow> take_page s;
     (ps, s) \<leftarrow> take_pages take_page n s;
     Some (p # ps, s)
   }"

locale page_source =
  fixes available :: "'s \<Rightarrow> addr set \<Rightarrow> bool"
    and take_page :: "'s \<Rightarrow> (addr \<times> 's) option"
  assumes available_finite: "available s A \<Longrightarrow> finite A"
    and take_available: "available s A \<Longrightarrow> A \<noteq> {} \<Longrightarrow>
      \<exists>p s'. take_page s = Some (p, s') \<and> p \<in> A \<and> available s' (A - {p})"
begin

text \<open>As many pages as there are can be taken, all different and all of the pool.\<close>

lemma take_pages_distinct:
  "available s A \<Longrightarrow> n \<le> card A \<Longrightarrow>
     \<exists>ps s'. take_pages take_page n s = Some (ps, s') \<and> length ps = n \<and> distinct ps
       \<and> set ps \<subseteq> A \<and> available s' (A - set ps)"
proof (induction n arbitrary: s A)
  case 0
  then show ?case by simp
next
  case (Suc n)
  then have "A \<noteq> {}" by auto
  then obtain p s1 where p: "take_page s = Some (p, s1)" "p \<in> A" "available s1 (A - {p})"
    using take_available [OF Suc.prems(1)] by blast
  have "n \<le> card (A - {p})"
    using Suc.prems(2) p(2) available_finite [OF Suc.prems(1)] by simp
  then obtain ps s2 where ps: "take_pages take_page n s1 = Some (ps, s2)" "length ps = n"
    "distinct ps" "set ps \<subseteq> A - {p}" "available s2 (A - {p} - set ps)"
    using Suc.IH [OF p(3)] by blast
  moreover have "A - {p} - set ps = A - set (p # ps)" by auto
  ultimately show ?case using p(1,2) by (intro exI [of _ "p # ps"] exI [of _ s2]) auto
qed

end

locale page_pool = page_source available take_page
  for available :: "'s \<Rightarrow> addr set \<Rightarrow> bool" and take_page :: "'s \<Rightarrow> (addr \<times> 's) option" +
  fixes give_page :: "addr \<Rightarrow> 's \<Rightarrow> 's option"
    and may_give :: "'s \<Rightarrow> addr \<Rightarrow> bool"
  assumes take_may_give: "available s A \<Longrightarrow> take_page s = Some (p, s') \<Longrightarrow> may_give s' p"
    and give_available: "available s A \<Longrightarrow> may_give s p \<Longrightarrow>
      \<exists>s'. give_page p s = Some s' \<and> available s' (insert p A)"
begin

text \<open>Giving back what was just taken restores the pool.\<close>

lemma take_give:
  assumes "available s A" and "A \<noteq> {}"
  shows "\<exists>p s1 s2. take_page s = Some (p, s1) \<and> give_page p s1 = Some s2 \<and> available s2 A"
proof -
  obtain p s1 where p: "take_page s = Some (p, s1)" "p \<in> A" "available s1 (A - {p})"
    using take_available [OF assms] by blast
  obtain s2 where "give_page p s1 = Some s2" "available s2 (insert p (A - {p}))"
    using give_available [OF p(3) take_may_give [OF assms(1) p(1)]] by blast
  with p show ?thesis by (auto simp: insert_absorb)
qed

end

subsection \<open>Allocation\<close>

lemma pool_ConsD:
  assumes "pool e s (p # ps)"
  shows "freelist_head s = p" and "p \<noteq> 0" and "xlate e p \<noteq> None"
    and "path e (pages s) (link (pages s (phys e p))) ps 0" and "phys e p \<notin> phys e ` set ps"
    and "free_pages s = of_nat (length ps) + 1"
  using assms by (auto simp: pool_def)

lemma allocate_pool:
  assumes "pool e s (p # ps)"
  shows "\<exists>s'. allocate e s = Some ((p, case hhdm e of None \<Rightarrow> 0 | Some off \<Rightarrow> p + off), s')
    \<and> pool e s' ps \<and> total_pages s' = total_pages s"
proof -
  note p = pool_ConsD [OF assms]
  let ?next = "link (pages s (phys e p))"
  let ?s1 = "s\<lparr>freelist_head := ?next\<rparr>"
  let ?s2 = "if kPmmUseFifo e \<and> ?next = 0 then ?s1\<lparr>freelist_tail := 0\<rparr> else ?s1"
  let ?s3 = "?s2\<lparr>free_pages := free_pages s - 1\<rparr>"
  have empty: "?next = 0 \<longleftrightarrow> ps = []" by (rule path_head [OF p(4)])
  have pool3: "pool e ?s3 ps" using assms p(4,6) empty by (auto simp: pool_def)
  obtain s' where s': "(if kPmmZeroOnAlloc e then zero_page e p ?s3 else Some ?s3) = Some s'"
    "pool e s' ps" "total_pages s' = total_pages s"
    using p(3) pool3 pool_other_page [OF pool3 p(5)] by (cases "kPmmZeroOnAlloc e") auto
  have "allocate e s = Some ((p, case hhdm e of None \<Rightarrow> 0 | Some off \<Rightarrow> p + off), s')"
    using p(1-3) s'(1)
    by (cases "kPmmUseFifo e \<and> ?next = 0"; cases "kPmmZeroOnAlloc e")
      (auto simp: allocate_def Let_def)
  with s' show ?thesis by blast
qed

lemma allocate_empty: "pool e s [] \<Longrightarrow> allocate e s = None \<and> tryAllocate e s = Some ((0, 0), s)"
  using pool_head [of e s "[]"] by (simp add: allocate_def tryAllocate_def kpanic_def)

definition pmm_take :: "pmm_env \<Rightarrow> pmm \<Rightarrow> (addr \<times> pmm) option" where
  "pmm_take e s = map_option (\<lambda>((p, v), s'). (p, s')) (allocate e s)"

lemma pmm_take_pool:
  "pool e s (p # ps) \<Longrightarrow> \<exists>s'. pmm_take e s = Some (p, s') \<and> pool e s' ps"
  using allocate_pool [of e s p ps] by (auto simp: pmm_take_def)

lemma pool_distinct: "pool e s ps \<Longrightarrow> distinct ps"
  by (simp add: pool_def distinct_map)

interpretation pmm_source: page_source "\<lambda>s A. \<exists>ps. pool e s ps \<and> set ps = A" "pmm_take e"
  for e :: pmm_env
proof unfold_locales
  fix s A assume "\<exists>ps. pool e s ps \<and> set ps = A"
  then show "finite A" by auto
next
  fix s and A :: "addr set"
  assume "\<exists>ps. pool e s ps \<and> set ps = A" and "A \<noteq> {}"
  then obtain p ps where ps: "pool e s (p # ps)" "A = set (p # ps)"
    by (metis neq_Nil_conv set_empty)
  have "A - {p} = set ps" using ps pool_distinct [OF ps(1)] by auto
  with pmm_take_pool [OF ps(1)] ps(2)
  show "\<exists>p s'. pmm_take e s = Some (p, s') \<and> p \<in> A \<and> (\<exists>ps. pool e s' ps \<and> set ps = A - {p})"
    by (metis list.set_intros(1))
qed

text \<open>
  From a pool of frames any number of pages up to its size can be allocated; they are
  pairwise different pages of the pool, and the pool left has the others.
\<close>

lemma pmm_allocations_distinct:
  assumes "pool e s ps" and "n \<le> length ps"
  shows "\<exists>qs s' rest. take_pages (pmm_take e) n s = Some (qs, s') \<and> length qs = n \<and> distinct qs
    \<and> set qs \<subseteq> set ps \<and> pool e s' rest \<and> set rest = set ps - set qs"
proof -
  have "n \<le> card (set ps)" using assms distinct_card [OF pool_distinct [OF assms(1)]] by simp
  moreover have "\<exists>xs. pool e s xs \<and> set xs = set ps" using assms(1) by blast
  ultimately obtain qs s' where "take_pages (pmm_take e) n s = Some (qs, s')" "length qs = n"
    "distinct qs" "set qs \<subseteq> set ps" "\<exists>xs. pool e s' xs \<and> set xs = set ps - set qs"
    using pmm_source.take_pages_distinct [of e s "set ps" n] by blast
  then show ?thesis by blast
qed

subsection \<open>Freeing\<close>

lemma in_freelist_path:
  "path e (pages s) it ps 0 \<Longrightarrow> page \<noteq> 0 \<Longrightarrow> in_freelist e it page s = Some (page \<in> set ps)"
proof (induction ps arbitrary: it)
  case Nil
  then show ?case by (subst in_freelist.simps) simp
next
  case (Cons p ps)
  then show ?case by (subst in_freelist.simps) auto
qed

definition aligned :: "addr \<Rightarrow> bool" where
  "aligned p \<longleftrightarrow> p AND (PageSize - 1) = 0"

lemma pool_path: "pool e s ps \<Longrightarrow> path e (pages s) (freelist_head s) ps 0"
  by (simp add: pool_def)

text \<open>
  Freeing links the page at the address the higher-half map gives it, if that pointer is not
  in the list already; every other case leaves the list alone and prints a warning.
\<close>

lemma free_pool:
  assumes "pool e s ps" and "aligned p" and "fresh e ps (p + hhdm_offset e)"
  shows "\<exists>s'. free e p s = Some s' \<and> pool e s' (enlist e (p + hhdm_offset e) ps)
    \<and> total_pages s' = total_pages s"
proof -
  let ?v = "p + hhdm_offset e"
  have v: "?v \<noteq> 0" "xlate e ?v \<noteq> None" "phys e ?v \<notin> phys e ` set ps" "?v \<notin> set ps"
    using assms(3) by (auto simp: fresh_def)
  have dup: "in_freelist e (freelist_head s) ?v s = Some False"
    using in_freelist_path [OF pool_path [OF assms(1)] v(1)] v(4) by simp
  obtain s1 where s1: "(if kPmmZeroOnFree e then zero_page e ?v s else Some s) = Some s1"
    "pool e s1 ps" "total_pages s1 = total_pages s"
    using v(2) assms(1) pool_other_page [OF assms(1) v(3)] by (cases "kPmmZeroOnFree e") auto
  obtain s2 where s2: "link_freed e ?v s1 = Some s2" "total_pages s2 = total_pages s1"
    "free_pages s2 = free_pages s1"
    "pool e (s2\<lparr>free_pages := free_pages s1 + 1\<rparr>) (enlist e ?v ps)"
    using link_freed_pool [OF s1(2) assms(3)] by blast
  have "free e p s = Some (s2\<lparr>free_pages := free_pages s1 + 1\<rparr>)"
    using assms(2) dup s1(1) s2(1,3)
    by (simp add: free_def Let_def aligned_def kEnableDoubleFreeCheck_def)
  with s1 s2 show ?thesis by simp
qed

lemma free_listed:
  assumes "pool e s ps" and "aligned p" and "p + hhdm_offset e \<in> set ps" and "\<not> kPanicOnError e"
  shows "free e p s = Some (say (WDoubleFree p) s)"
proof -
  have "p + hhdm_offset e \<noteq> 0" using path_nonzero [OF pool_path [OF assms(1)] assms(3)] by simp
  with in_freelist_path [OF pool_path [OF assms(1)] this] assms show ?thesis
    by (simp add: free_def Let_def aligned_def kEnableDoubleFreeCheck_def)
qed

text \<open>Both refusals of \<open>free\<close> leave the pool alone.\<close>

lemma pmm_free_refuses:
  assumes "pool e s ps" and "\<not> kPanicOnError e"
    and "\<not> aligned p \<or> p + hhdm_offset e \<in> set ps"
  shows "free e p s = Some (say (if aligned p then WDoubleFree p else WNotAligned p) s)
    \<and> pool e (say (if aligned p then WDoubleFree p else WNotAligned p) s) ps"
proof (cases "aligned p")
  case True
  then show ?thesis using free_listed [OF assms(1)] assms by (simp add: say_def)
next
  case False
  then show ?thesis using assms by (simp add: free_def Let_def aligned_def say_def)
qed

subsection \<open>Without a higher-half offset the allocator keeps its contract\<close>

definition aligned_pool :: "pmm_env \<Rightarrow> pmm \<Rightarrow> addr set \<Rightarrow> bool" where
  "aligned_pool e s A \<longleftrightarrow>
     hhdm_offset e = 0 \<and> (\<exists>ps. pool e s ps \<and> set ps = A) \<and> (\<forall>p \<in> A. aligned p)"

definition returnable :: "pmm_env \<Rightarrow> pmm \<Rightarrow> addr \<Rightarrow> bool" where
  "returnable e s p \<longleftrightarrow> aligned p \<and> (\<exists>ps. pool e s ps \<and> fresh e ps p)"

lemma path_unique: "path e h p xs 0 \<Longrightarrow> path e h p ys 0 \<Longrightarrow> xs = ys"
proof (induction xs arbitrary: p ys)
  case Nil
  then show ?case by (cases ys) auto
next
  case (Cons x xs)
  then show ?case by (cases ys) auto
qed

lemma pool_unique: "pool e s ps \<Longrightarrow> pool e s qs \<Longrightarrow> ps = qs"
  using path_unique pool_path by blast

interpretation pmm_aligned: page_pool "aligned_pool e" "pmm_take e" "free e" "returnable e"
  for e :: pmm_env
proof unfold_locales
  fix s A assume "aligned_pool e s A"
  then show "finite A" by (auto simp: aligned_pool_def)
next
  fix s A assume A: "aligned_pool e s A" "A \<noteq> {}"
  then obtain p s' where "pmm_take e s = Some (p, s')" "p \<in> A"
    "\<exists>ps. pool e s' ps \<and> set ps = A - {p}"
    using pmm_source.take_available [of e s A] by (auto simp: aligned_pool_def)
  with A show "\<exists>p s'. pmm_take e s = Some (p, s') \<and> p \<in> A \<and> aligned_pool e s' (A - {p})"
    by (auto simp: aligned_pool_def)
next
  fix s A p s' assume A: "aligned_pool e s A" and t: "pmm_take e s = Some (p, s')"
  from A obtain ps where ps: "pool e s ps" "set ps = A" by (auto simp: aligned_pool_def)
  have "ps \<noteq> []" using t ps(1) allocate_empty [of e s] by (auto simp: pmm_take_def)
  then obtain qs where qs: "ps = p # qs" "pool e s' qs"
    using t ps(1) pmm_take_pool [of e s] by (cases ps) auto
  have "fresh e qs p" using pool_ConsD [OF ps(1) [unfolded qs(1)]] by (simp add: fresh_def)
  moreover have "aligned p" using A ps(2) qs(1) by (auto simp: aligned_pool_def)
  ultimately show "returnable e s' p" using qs(2) by (auto simp: returnable_def)
next
  fix s A p assume A: "aligned_pool e s A" and p: "returnable e s p"
  from A obtain ps where ps: "pool e s ps" "set ps = A" by (auto simp: aligned_pool_def)
  moreover have "fresh e ps p" using p ps(1) pool_unique by (auto simp: returnable_def)
  ultimately obtain s' where "free e p s = Some s'" "pool e s' (enlist e p ps)"
    using free_pool [OF ps(1), of p] A p by (auto simp: aligned_pool_def returnable_def)
  with A p ps(2) show "\<exists>s'. free e p s = Some s' \<and> aligned_pool e s' (insert p A)"
    by (auto simp: aligned_pool_def returnable_def intro!: exI [of _ "enlist e p ps"])
qed

text \<open>
  C26: With no higher-half offset, allocating a page and freeing it gives back the pool: the same
  set of frames is available, under either list discipline.
\<close>

theorem pmm_allocate_free:
  assumes "pool e s ps" and "ps \<noteq> []" and "\<forall>p \<in> set ps. aligned p" and "hhdm_offset e = 0"
  shows "\<exists>p v s1 s2 qs. allocate e s = Some ((p, v), s1) \<and> p \<in> set ps \<and> free e p s1 = Some s2
    \<and> pool e s2 qs \<and> set qs = set ps"
proof -
  have "aligned_pool e s (set ps)" using assms by (auto simp: aligned_pool_def)
  moreover have "set ps \<noteq> {}" using assms(2) by simp
  ultimately obtain p s1 s2 where t: "pmm_take e s = Some (p, s1)" "free e p s1 = Some s2"
    "aligned_pool e s2 (set ps)"
    using pmm_aligned.take_give by blast
  then have "p \<in> set ps"
    using assms(1,2) pmm_take_pool [of e s "hd ps" "tl ps"] by auto
  with t show ?thesis by (fastforce simp: pmm_take_def aligned_pool_def)
qed

subsection \<open>With one it does not\<close>

text \<open>
  C28: With the list discipline of the kernel, a freed page is the next one allocated, but under
  the address of its higher-half mapping: the physical address \<open>allocate\<close> returns is the one
  freed plus the offset.
\<close>

theorem freed_page_returns_shifted:
  assumes "pool e s ps" and "aligned p" and "fresh e ps (p + off)"
    and "hhdm e = Some off" and "\<not> kPmmUseFifo e"
  shows "\<exists>s1 s2. free e p s = Some s1
    \<and> allocate e s1 = Some ((p + off, p + off + off), s2) \<and> pool e s2 ps"
proof -
  have off: "hhdm_offset e = off" using assms(4) by (simp add: hhdm_offset_def)
  then obtain s1 where "free e p s = Some s1" "pool e s1 ((p + off) # ps)"
    using free_pool [OF assms(1,2)] assms(3,5) by (auto simp: enlist_def)
  then show ?thesis using allocate_pool [of e s1 "p + off" ps] assms(4) by auto
qed

text \<open>
  C29: The search for a double free compares pointers, so a page that is in the list under its
  physical address is not found under its higher-half one. Freeing the first page of the
  list a second time ties the list into a knot: after the next allocation every further one
  returns that same page.
\<close>

theorem double_free_of_head_undetected:
  assumes "pool e s (p # ps)" and "aligned p" and "p + hhdm_offset e \<notin> set (p # ps)"
    and "p + hhdm_offset e \<noteq> 0" and "xlate e (p + hhdm_offset e) = xlate e p"
    and "\<not> kPmmUseFifo e" and "\<not> kPmmZeroOnAlloc e"
  shows "\<exists>s1 s2 v. free e p s = Some s1 \<and> allocate e s1 = Some ((p + hhdm_offset e, v), s2)
    \<and> (\<exists>s3. take_pages (pmm_take e) n s2 = Some (replicate n p, s3))"
proof -
  let ?v = "p + hhdm_offset e"
  note h = pool_ConsD [OF assms(1)]
  have x: "xlate e ?v \<noteq> None" "phys e ?v = phys e p" using h(3) assms(5) by (simp_all add: phys_def)
  have loop: "\<exists>s3. take_pages (pmm_take e) n t = Some (replicate n p, s3)"
    if "freelist_head t = p" "link (pages t (phys e p)) = p" for t
    using that
  proof (induction n arbitrary: t)
    case 0
    then show ?case by simp
  next
    case (Suc n)
    let ?t = "t\<lparr>freelist_head := p, free_pages := free_pages t - 1\<rparr>"
    have "pmm_take e t = Some (p, ?t)"
      using Suc.prems h(2,3) assms(7) by (simp add: pmm_take_def allocate_def Let_def)
    moreover obtain s3 where "take_pages (pmm_take e) n ?t = Some (replicate n p, s3)"
      using Suc.IH [of ?t] Suc.prems by auto
    ultimately show ?case by simp
  qed
  have dup: "in_freelist e (freelist_head s) ?v s = Some False"
    using in_freelist_path [OF pool_path [OF assms(1)] assms(4)] assms(3) by simp
  obtain s1 where s1: "free e p s = Some s1" "freelist_head s1 = ?v" "link (pages s1 (phys e p)) = p"
    using assms(2,6) dup x h(1)
    by (cases "kPmmZeroOnFree e"; cases "freelist_tail s = 0")
      (simp_all add: free_def link_freed_def Let_def aligned_def kEnableDoubleFreeCheck_def)
  let ?s2 = "s1\<lparr>freelist_head := p, free_pages := free_pages s1 - 1\<rparr>"
  have "\<exists>v. allocate e s1 = Some ((?v, v), ?s2)"
    using s1(2,3) assms(4,6,7) x by (simp add: allocate_def Let_def)
  moreover have "\<exists>s3. take_pages (pmm_take e) n ?s2 = Some (replicate n p, s3)"
    using s1(3) by (intro loop) simp_all
  ultimately show ?thesis using s1(1) by blast
qed

subsection \<open>Reserving a region\<close>

text \<open>The invariant without the tail pointer, which the loops leave behind.\<close>

definition chain :: "pmm_env \<Rightarrow> pmm \<Rightarrow> addr list \<Rightarrow> bool" where
  "chain e s ps \<longleftrightarrow> path e (pages s) (freelist_head s) ps 0
     \<and> distinct (map (phys e) ps) \<and> free_pages s = of_nat (length ps)"

lemma pool_chain: "pool e s ps \<longleftrightarrow> chain e s ps
    \<and> (kPmmUseFifo e \<longrightarrow> freelist_tail s = (if ps = [] then 0 else last ps))"
  by (auto simp: pool_def chain_def)

text \<open>Taking one node out, behind the nodes \<open>xs\<close> already passed.\<close>

lemma unlink_one:
  assumes "chain e s (xs @ y # ys)"
  defines "nxt \<equiv> link (pages s (phys e y))"
  shows "\<exists>s'. (if (if xs = [] then 0 else last xs) = 0 then Some (s\<lparr>freelist_head := nxt\<rparr>)
        else store_next e (if xs = [] then 0 else last xs) nxt s) = Some s'
    \<and> free_pages s' = free_pages s \<and> total_pages s' = total_pages s
    \<and> chain e (s'\<lparr>free_pages := free_pages s - 1\<rparr>) (xs @ ys) \<and> path e (pages s') nxt ys 0"
proof (cases xs rule: rev_cases)
  case Nil
  then show ?thesis using assms by (auto simp: chain_def)
next
  case (snoc zs t)
  have p: "path e (pages s) (freelist_head s) (zs @ [t]) y" "path e (pages s) nxt ys 0"
    using assms by (auto simp: chain_def snoc path_append)
  have t: "t \<noteq> 0" "xlate e t \<noteq> None" using path_nonzero [OF p(1)] by auto
  have dist: "phys e t \<notin> phys e ` set zs" "phys e t \<notin> phys e ` set ys"
    using assms(1) by (auto simp: chain_def snoc)
  let ?s = "s\<lparr>pages := (pages s)(phys e t := (pages s (phys e t))\<lparr>link := nxt\<rparr>)\<rparr>"
  have "path e (pages ?s) (freelist_head s) (zs @ [t]) nxt" "path e (pages ?s) nxt ys 0"
    using path_last [OF p(1) dist(1), of "(pages s (phys e t))\<lparr>link := nxt\<rparr>"] p(2) dist(2)
    by (simp_all add: path_upd)
  then have "path e (pages ?s) (freelist_head s) (xs @ ys) 0"
    unfolding snoc path_append by blast
  moreover have "distinct (map (phys e) (xs @ ys))" "free_pages s - 1 = of_nat (length (xs @ ys))"
    using assms(1) by (auto simp: chain_def)
  ultimately show ?thesis
    using t p(2) dist(2) by (intro exI [of _ ?s]) (simp add: chain_def snoc path_upd)
qed

lemma unlink_from_chain:
  "chain e s (xs @ ys) \<Longrightarrow> path e (pages s) it ys 0 \<Longrightarrow>
     \<exists>s'. unlink_from e a (if xs = [] then 0 else last xs) it s = Some s'
       \<and> chain e s' (xs @ filter (\<lambda>p. p \<noteq> a) ys) \<and> total_pages s' = total_pages s"
proof (induction ys arbitrary: xs s it)
  case Nil
  then show ?case by (subst unlink_from.simps) simp
next
  case (Cons y ys)
  define prev where "prev = (if xs = [] then 0 else last xs)"
  let ?nxt = "link (pages s (phys e y))"
  have y: "it = y" "y \<noteq> 0" "xlate e y \<noteq> None" "path e (pages s) ?nxt ys 0"
    using Cons.prems(2) by auto
  show ?case
  proof (cases "y = a")
    case True
    obtain s1 where s1: "(if prev = 0 then Some (s\<lparr>freelist_head := ?nxt\<rparr>)
        else store_next e prev ?nxt s) = Some s1"
      "free_pages s1 = free_pages s" "total_pages s1 = total_pages s"
      "chain e (s1\<lparr>free_pages := free_pages s - 1\<rparr>) (xs @ ys)" "path e (pages s1) ?nxt ys 0"
      using unlink_one [OF Cons.prems(1), folded prev_def] by blast
    obtain s2 where "unlink_from e a prev ?nxt (s1\<lparr>free_pages := free_pages s - 1\<rparr>) = Some s2"
      "chain e s2 (xs @ filter (\<lambda>p. p \<noteq> a) ys)" "total_pages s2 = total_pages s"
      using Cons.IH [OF s1(4), of ?nxt, folded prev_def] s1(3,5) by auto
    with True y s1(1,2) show ?thesis
      unfolding prev_def [symmetric]
      by (cases "prev = 0"; subst unlink_from.simps) auto
  next
    case False
    obtain s2 where "unlink_from e a y ?nxt s = Some s2"
      "chain e s2 ((xs @ [y]) @ filter (\<lambda>p. p \<noteq> a) ys)" "total_pages s2 = total_pages s"
      using Cons.IH [of s "xs @ [y]" ?nxt] Cons.prems(1) y(4) by auto
    with False y show ?thesis by (subst unlink_from.simps) simp
  qed
qed

lemma reserve_pages_chain:
  assumes "unat a + n * 4096 < 2 ^ 64" and "unat stop = unat a + n * 4096" and "chain e s ps"
  shows "\<exists>s'. reserve_pages e a stop s = Some s' \<and> total_pages s' = total_pages s
    \<and> chain e s' (filter (\<lambda>p. p \<notin> set (frames a n)) ps)"
  using assms
proof (induction n arbitrary: a s ps)
  case 0
  then have "\<not> a < stop" by (simp add: word_less_nat_alt)
  then show ?case using 0 by (subst reserve_pages.simps) simp
next
  case (Suc n)
  have less: "a < stop" using Suc.prems(2) by (simp add: word_less_nat_alt)
  obtain s1 where s1: "unlink_from e a 0 (freelist_head s) s = Some s1"
    "chain e s1 (filter (\<lambda>p. p \<noteq> a) ps)" "total_pages s1 = total_pages s"
    using unlink_from_chain [of e s "[]" ps "freelist_head s" a] Suc.prems(3)
    by (auto simp: chain_def)
  have "unat (a + PageSize) = unat a + 4096"
    using unat_add_of_nat [of a 4096] Suc.prems(1) by (simp add: PageSize_def)
  then obtain s2 where "reserve_pages e (a + PageSize) stop s1 = Some s2"
    "total_pages s2 = total_pages s1"
    "chain e s2 (filter (\<lambda>p. p \<notin> set (frames (a + PageSize) n)) (filter (\<lambda>p. p \<noteq> a) ps))"
    using Suc.IH [OF _ _ s1(2), of "a + PageSize"] Suc.prems(1,2) by auto
  with less s1 show ?case by (subst reserve_pages.simps) (auto simp: conj_commute)
qed

lemma find_tail_path:
  "path e (pages s) it ps 0 \<Longrightarrow> find_tail e it s = Some (if ps = [] then 0 else last ps)"
proof (induction ps arbitrary: it)
  case Nil
  then show ?case by (subst find_tail.simps) simp
next
  case (Cons p ps)
  then have "link (pages s (phys e p)) = 0 \<longleftrightarrow> ps = []"
    using path_head [of e "pages s" "link (pages s (phys e p))" ps] by simp
  with Cons show ?case by (subst find_tail.simps) auto
qed

text \<open>
  C27: Reserving a region takes exactly the frames wholly inside it out of the pool, keeps the
  order of the others and adjusts the free count, not the total; for FIFO the tail is found
  again.
\<close>

theorem pmm_reserve_region:
  assumes "pool e s ps" and "unat base + unat len + 4096 \<le> 2 ^ 64"
  shows "\<exists>s' qs. reserveRegion e base len s = Some s' \<and> pool e s' qs
    \<and> qs = filter (\<lambda>p. \<not> (unat p mod 4096 = 0 \<and> unat base \<le> unat p
                          \<and> unat p + 4096 \<le> unat base + unat len)) ps
    \<and> totalPages s' = totalPages s"
proof -
  let ?start = "alignUp base PageSize" and ?stop = "alignDown (base + len) PageSize"
  let ?n = "(unat ?stop - unat ?start) div 4096"
  let ?in = "\<lambda>p. unat p mod 4096 = 0 \<and> unat base \<le> unat p \<and> unat p + 4096 \<le> unat base + unat len"
  have sum: "unat (base + len) = unat base + unat len"
    using assms(2) unat_add_of_nat [of base "unat len"] by (simp add: of_nat_unat_64)
  have S: "unat ?start = (unat base + 4095) div 4096 * 4096" using assms(2) by (intro unat_alignUp) simp
  have E: "unat ?stop = (unat base + unat len) div 4096 * 4096" unfolding sum [symmetric] by (rule unat_alignDown)
  have "unat ?stop < 2 ^ 64" "unat ?start < 2 ^ 64" by (rule unat_less_size)+
  then have bound: "unat ?start + ?n * 4096 < 2 ^ 64" by (cases "unat ?start \<le> unat ?stop") auto
  have mem: "p \<in> set (frames ?start ?n) \<longleftrightarrow> ?in p" for p
    unfolding set_frames [OF bound] by (rule page_grid [OF S E])
  have filt: "filter (\<lambda>p. p \<notin> set (frames ?start ?n)) ps = filter (\<lambda>p. \<not> ?in p) ps"
    by (simp add: mem)
  show ?thesis
  proof (cases "?stop \<le> ?start")
    case True
    then have "?n = 0" by (simp add: word_le_nat_alt)
    then have "filter (\<lambda>p. \<not> ?in p) ps = ps" unfolding filt [symmetric] by simp
    with True assms(1) show ?thesis by (simp add: reserveRegion_def)
  next
    case False
    then have "unat ?start < unat ?stop" by (simp add: word_le_nat_alt)
    then have n: "unat ?stop = unat ?start + ?n * 4096"
      unfolding S E by (simp flip: diff_mult_distrib add_mult_distrib)
    obtain s1 where s1: "reserve_pages e ?start ?stop s = Some s1" "total_pages s1 = total_pages s"
      "chain e s1 (filter (\<lambda>p. \<not> ?in p) ps)"
      using reserve_pages_chain [OF bound n, of e s ps] assms(1) unfolding filt pool_chain by blast
    then show ?thesis
      using False find_tail_path [of e s1 "freelist_head s1" "filter (\<lambda>p. \<not> ?in p) ps"]
      by (auto simp: reserveRegion_def pool_chain chain_def totalPages_def)
  qed
qed

subsection \<open>Concrete memories\<close>

text \<open>One page at 1 MiB, everything mapped to itself, and the switches of the kernel.\<close>

definition one_page :: "addr \<Rightarrow> pmm" where
  "one_page p = \<lparr>freelist_head = p, freelist_tail = p, total_pages = 1, free_pages = 1,
     pages = (\<lambda>_. \<lparr>link = 0, flags = 0\<rparr>), log = []\<rparr>"

lemma one_page_pool: "p \<noteq> 0 \<Longrightarrow> xlate e p \<noteq> None \<Longrightarrow> pool e (one_page p) [p]"
  by (simp add: pool_def one_page_def)

theorem pmm_allocate_free_witness:
  "\<exists>p v s1 s2 qs. allocate (kernel_env None Some) (one_page 0x100000) = Some ((p, v), s1)
     \<and> p \<in> set [0x100000] \<and> free (kernel_env None Some) p s1 = Some s2
     \<and> pool (kernel_env None Some) s2 qs \<and> set qs = set [0x100000]"
  by (rule pmm_allocate_free [OF one_page_pool])
    (simp_all add: kernel_env_def hhdm_offset_def aligned_def PageSize_def)

text \<open>A higher-half map at an offset: two pointers to one frame.\<close>

definition mapped_twice :: "u64 \<Rightarrow> addr \<Rightarrow> addr option" where
  "mapped_twice off p = Some (if off \<le> p then p - off else p)"

theorem freed_page_returns_shifted_witness:
  "\<exists>s1 s2. free (kernel_env (Some 0x800000000000) (mapped_twice 0x800000000000)) 0x101000
        (one_page 0x100000) = Some s1
     \<and> allocate (kernel_env (Some 0x800000000000) (mapped_twice 0x800000000000)) s1
        = Some ((0x101000 + 0x800000000000, 0x101000 + 0x800000000000 + 0x800000000000), s2)
     \<and> pool (kernel_env (Some 0x800000000000) (mapped_twice 0x800000000000)) s2 [0x100000]"
  by (rule freed_page_returns_shifted [OF one_page_pool])
    (simp_all add: kernel_env_def mapped_twice_def aligned_def PageSize_def fresh_def phys_def)

theorem double_free_of_head_undetected_witness:
  "\<exists>s1 s2 v. free (kernel_env (Some 0x800000000000) (mapped_twice 0x800000000000)) 0x100000
        (one_page 0x100000) = Some s1
     \<and> allocate (kernel_env (Some 0x800000000000) (mapped_twice 0x800000000000)) s1
        = Some ((0x800000100000, v), s2)
     \<and> (\<exists>s3. take_pages (pmm_take (kernel_env (Some 0x800000000000) (mapped_twice 0x800000000000)))
           3 s2 = Some (replicate 3 0x100000, s3))"
  using double_free_of_head_undetected [OF one_page_pool, of "0x100000"
      "kernel_env (Some 0x800000000000) (mapped_twice 0x800000000000)" 3]
  by (simp add: kernel_env_def mapped_twice_def aligned_def PageSize_def hhdm_offset_def)

theorem pmm_reserve_region_witness:
  "\<exists>s' qs. reserveRegion (kernel_env None Some) 0xFF000 0x2000 (one_page 0x100000) = Some s'
     \<and> pool (kernel_env None Some) s' qs \<and> qs = []"
proof -
  have "pool (kernel_env None Some) (one_page 0x100000) [0x100000]"
    by (rule one_page_pool) (simp_all add: kernel_env_def)
  from pmm_reserve_region [OF this, of "0xFF000" "0x2000"] show ?thesis by auto
qed

end
