(* ===== verification/Idt.thy ===== *)
theory Idt
  imports Prelude
begin

text \<open>
  Interrupts (\<^verbatim>\<open>arch/idt.hh\<close>, \<^verbatim>\<open>arch/idt.S\<close>): the descriptor table and the handler table, and
  the assembly stubs that build the register frame.

  The tables are lists of 256 entries; an index beyond them is \<open>None\<close>. A handler is the null
  the table starts with, one of the two handlers of the class or the address of another
  function. The stubs are translated instruction by instruction over a stack of 64-bit words,
  its top first; offset \<open>8 * i\<close> from the stack pointer is element \<open>i\<close>.
\<close>

subsection \<open>Gates\<close>

record idt_entry =
  offset_low :: u16
  selector :: u16
  ist :: u8
  attribute :: u8
  offset_mid :: u16
  offset_high :: u32
  zero :: u32

datatype handler = NullHandler | DefaultInterruptHandler | HaltCatchFire | Custom u64

text \<open>The debug messages: the table being loaded, a vector set up, a handler registered.\<close>

datatype idt_message = MLoading u64 u16 | MException u32 | MInterrupt u32 | MRegistered u16

record idt =
  idt_table :: "idt_entry list"
  real_handler_table :: "handler list"
  idt_limit :: u16
  idt_base :: u64
  loaded :: bool
  idt_log :: "idt_message list"

definition INTERRUPT_GATE :: u8 where "INTERRUPT_GATE = 0x8E"
definition TRAP_GATE :: u8 where "TRAP_GATE = 0x8F"

definition empty_entry :: idt_entry where
  "empty_entry = \<lparr>offset_low = 0, selector = 0, ist = 0, attribute = 0, offset_mid = 0,
     offset_high = 0, zero = 0\<rparr>"

definition idt_start :: idt where
  "idt_start = \<lparr>idt_table = replicate 256 empty_entry, real_handler_table = replicate 256 NullHandler,
     idt_limit = 0, idt_base = 0, loaded = False, idt_log = []\<rparr>"

definition idt_say :: "bool \<Rightarrow> idt_message \<Rightarrow> idt \<Rightarrow> idt" where
  "idt_say debug msg s = (if debug then s\<lparr>idt_log := idt_log s @ [msg]\<rparr> else s)"

definition gate :: "u64 \<Rightarrow> u8 \<Rightarrow> idt_entry" where
  "gate base flags = \<lparr>
     offset_low = ucast (base AND 0xFFFF), selector = 0x08, ist = 0, attribute = flags,
     offset_mid = ucast (drop_bit 16 base AND 0xFFFF),
     offset_high = ucast (drop_bit 32 base AND 0xFFFFFFFF), zero = 0\<rparr>"

definition setGate :: "nat \<Rightarrow> u64 \<Rightarrow> u8 \<Rightarrow> idt \<Rightarrow> idt option" where
  "setGate vec base flags s =
     (if vec < length (idt_table s)
      then Some (s\<lparr>idt_table := (idt_table s)[vec := gate base flags]\<rparr>) else None)"

definition set_handler :: "nat \<Rightarrow> handler \<Rightarrow> idt \<Rightarrow> idt option" where
  "set_handler vec h s =
     (if vec < length (real_handler_table s)
      then Some (s\<lparr>real_handler_table := (real_handler_table s)[vec := h]\<rparr>) else None)"

text \<open>
  One of the two loops of \<open>init\<close>, from \<open>vec\<close> up to \<open>stop\<close>, with its debug message. The stub
  table is a parameter: its addresses are the linker's.
\<close>

function init_gates ::
  "bool \<Rightarrow> (u32 \<Rightarrow> idt_message) \<Rightarrow> (nat \<Rightarrow> u64) \<Rightarrow> u8 \<Rightarrow> handler \<Rightarrow> nat \<Rightarrow> nat \<Rightarrow> idt \<Rightarrow> idt option"
where
  "init_gates debug msg stubs flags h stop vec s =
     (if vec < stop then do {
        s \<leftarrow> setGate vec (stubs vec) flags s;
        s \<leftarrow> set_handler vec h (idt_say debug (msg (of_nat vec)) s);
        init_gates debug msg stubs flags h stop (vec + 1) s
      } else Some s)"
  by pat_completeness auto
termination by (relation "measure (\<lambda>(debug, msg, stubs, flags, h, stop, vec, s). stop - vec)") auto

declare init_gates.simps [simp del]

text \<open>\<^verbatim>\<open>lidt\<close>: the processor takes the limit and the base as they are then.\<close>

definition idt_load :: "idt \<Rightarrow> idt" where
  "idt_load s = s\<lparr>loaded := True\<rparr>"

declare idt_load_def [simp]

definition idt_init :: "bool \<Rightarrow> bool \<Rightarrow> bool \<Rightarrow> (nat \<Rightarrow> u64) \<Rightarrow> u64 \<Rightarrow> idt \<Rightarrow> idt option" where
  "idt_init debug useTrapGate panicOnException stubs table_addr s = do {
     let s = s\<lparr>idt_limit := 16 * 256 - 1, idt_base := table_addr\<rparr>;
     let s = idt_say debug (MLoading (idt_base s) (idt_limit s)) s;
     s \<leftarrow> init_gates debug MException stubs (if useTrapGate then TRAP_GATE else INTERRUPT_GATE)
            (if panicOnException then DefaultInterruptHandler else HaltCatchFire) 32 0 s;
     s \<leftarrow> init_gates debug MInterrupt stubs INTERRUPT_GATE DefaultInterruptHandler 256 32 s;
     Some (idt_load s)
   }"

text \<open>The vector is 16 bits wide and not compared with the size of the table.\<close>

definition registerHandler :: "bool \<Rightarrow> u16 \<Rightarrow> handler \<Rightarrow> idt \<Rightarrow> (bool \<times> idt) option" where
  "registerHandler debug vec h s =
     (if unat vec < length (real_handler_table s) then
        (let old = real_handler_table s ! unat vec
         in if old = DefaultInterruptHandler \<or> old = HaltCatchFire
            then Some (True, idt_say debug (MRegistered vec)
              (s\<lparr>real_handler_table := (real_handler_table s)[unat vec := h]\<rparr>))
            else Some (False, s))
      else None)"

subsection \<open>The stubs\<close>

record cpu =
  rax :: u64
  rbx :: u64
  rcx :: u64
  rdx :: u64
  rsi :: u64
  rdi :: u64
  rbp :: u64
  r8 :: u64
  r9 :: u64
  r10 :: u64
  r11 :: u64
  r12 :: u64
  r13 :: u64
  r14 :: u64
  r15 :: u64
  ds :: u64
  es :: u64
  cr0 :: u64
  cr2 :: u64
  cr3 :: u64
  cr4 :: u64

definition err_vectors :: "nat list" where
  "err_vectors = [8, 10, 11, 12, 13, 14, 17]"

text \<open>\<^verbatim>\<open>STUB_ERR\<close> and \<^verbatim>\<open>STUB_NOERR\<close>: what \<^verbatim>\<open>stub_n\<close> pushes before it jumps to the common part.\<close>

definition isr_stub :: "nat \<Rightarrow> u64 list \<Rightarrow> u64 list" where
  "isr_stub n stk =
     (if n \<in> set err_vectors then of_nat n # stk else of_nat n # 0 # stk)"

text \<open>The pushes of \<^verbatim>\<open>common_stub\<close>, the last one first.\<close>

definition save_regs :: "cpu \<Rightarrow> u64 list \<Rightarrow> u64 list" where
  "save_regs c stk = cr4 c # cr3 c # cr2 c # cr0 c # es c # ds c # rbp c # rdi c # rsi c # rdx c
     # rcx c # rbx c # rax c # r8 c # r9 c # r10 c # r11 c # r12 c # r13 c # r14 c # r15 c # stk"

text \<open>\<^verbatim>\<open>movq 120(%rsp), %rax\<close>: the index with which the handler table is read.\<close>

definition handler_index :: "u64 list \<Rightarrow> u64" where
  "handler_index frame = frame ! (120 div 8)"

text \<open>\<^verbatim>\<open>call *real_handler_table(,%rax,8)\<close>: the entry the common part calls.\<close>

definition dispatch :: "idt \<Rightarrow> u64 list \<Rightarrow> handler option" where
  "dispatch s frame =
     (let i = handler_index frame
      in if unat i < length (real_handler_table s) then Some (real_handler_table s ! unat i) else None)"

text \<open>The frame as the handlers see it: \<^verbatim>\<open>registers_ctx\<close>, word by word.\<close>

definition ctx_fields :: "string list" where
  "ctx_fields = [''es'', ''ds'', ''cr4'', ''cr3'', ''cr2'', ''cr0'', ''r15'', ''r14'', ''r13'', ''r12'',
     ''r11'', ''r10'', ''r9'', ''r8'', ''rax'', ''rbx'', ''rcx'', ''rdx'', ''rsi'', ''rdi'', ''rbp'',
     ''interrupt_vector'', ''error_code'', ''rip'', ''cs'', ''rflags'', ''rsp'', ''ss'']"

fun position :: "string list \<Rightarrow> string \<Rightarrow> nat" where
  "position [] f = 0"
| "position (x # xs) f = (if f = x then 0 else Suc (position xs f))"

definition ctx_read :: "u64 list \<Rightarrow> string \<Rightarrow> u64" where
  "ctx_read frame f = frame ! position ctx_fields f"

definition exception_names :: "string list" where
  "exception_names = [''Divide-by-zero Error'', ''Debug'', ''Non-maskable Interrupt'', ''Breakpoint'',
     ''Overflow'', ''Bound Range Exceeded'', ''Invalid Opcode'', ''Device Not Available'',
     ''Double Fault'', ''Coprocessor Segment Overrun'', ''Invalid TSS'', ''Segment Not Present'',
     ''Stack Segment Fault'', ''General Protection Fault'', ''Page Fault'', ''Reserved'',
     ''x87 Floating-Point Exception'', ''Alignment Check'', ''Machine Check'',
     ''SIMD Floating-Point Exception'', ''Virtualization Exception'', ''Control Protection Exception'',
     ''Reserved'', ''Reserved'', ''Reserved'', ''Reserved'', ''Reserved'', ''Reserved'',
     ''Hypervisor Injection Exception'', ''VMM Communication Exception'', ''Security Exception'',
     ''Reserved'']"

datatype panic_cause = UnhandledException u64 string | UnhandledInterrupt u64

definition defaultInterruptHandler :: "u64 list \<Rightarrow> panic_cause" where
  "defaultInterruptHandler frame =
     (let vector = ctx_read frame ''interrupt_vector''
      in if vector < 32 then UnhandledException vector (exception_names ! unat vector)
         else UnhandledInterrupt vector)"

subsection \<open>The tables after initialisation\<close>

text \<open>The address the processor reads out of a gate.\<close>

definition gate_offset :: "idt_entry \<Rightarrow> u64" where
  "gate_offset g = ucast (offset_low g) OR push_bit 16 (ucast (offset_mid g))
     OR push_bit 32 (ucast (offset_high g))"

lemma gate_offset_gate [simp]: "gate_offset (gate base flags) = base"
proof -
  have m: "(0xFFFF :: u64) = mask 16" "(0xFFFFFFFF :: u64) = mask 32"
    by (simp_all add: mask_eq_exp_minus_1)
  show ?thesis
  proof (rule bit_word_eqI)
    fix n assume n: "n < LENGTH(64)"
    then consider "n < 16" | "16 \<le> n" "n < 32" | "32 \<le> n" by linarith
    then show "bit (gate_offset (gate base flags)) n = bit base n"
      using n unfolding gate_offset_def gate_def m
      by cases (auto simp: bit_simps simp flip: take_bit_eq_mask)
  qed
qed

lemma idt_say_state [simp]:
  "idt_table (idt_say d msg s) = idt_table s"
  "real_handler_table (idt_say d msg s) = real_handler_table s"
  "idt_limit (idt_say d msg s) = idt_limit s" "idt_base (idt_say d msg s) = idt_base s"
  "idt_log (idt_say d msg s) = idt_log s @ (if d then [msg] else [])"
  by (simp_all add: idt_say_def)

lemma init_gates_effect:
  assumes "length (idt_table s) = 256" and "length (real_handler_table s) = 256"
    and "stop \<le> 256" and "vec \<le> stop"
  shows "\<exists>s'. init_gates debug msg stubs flags h stop vec s = Some s'
    \<and> length (idt_table s') = 256 \<and> length (real_handler_table s') = 256
    \<and> (\<forall>i < 256. idt_table s' ! i
         = (if vec \<le> i \<and> i < stop then gate (stubs i) flags else idt_table s ! i))
    \<and> (\<forall>i < 256. real_handler_table s' ! i
         = (if vec \<le> i \<and> i < stop then h else real_handler_table s ! i))
    \<and> idt_limit s' = idt_limit s \<and> idt_base s' = idt_base s
    \<and> idt_log s' = idt_log s @ (if debug then map (\<lambda>v. msg (of_nat v)) [vec..<stop] else [])"
  using assms
proof (induction debug msg stubs flags h stop vec s rule: init_gates.induct)
  case (1 debug msg stubs flags h stop vec s)
  show ?case
  proof (cases "vec < stop")
    case True
    let ?s1 = "s\<lparr>idt_table := (idt_table s)[vec := gate (stubs vec) flags]\<rparr>"
    let ?s2 = "idt_say debug (msg (of_nat vec)) ?s1"
    let ?s3 = "?s2\<lparr>real_handler_table := (real_handler_table s)[vec := h]\<rparr>"
    have steps: "setGate vec (stubs vec) flags s = Some ?s1" "set_handler vec h ?s2 = Some ?s3"
      using True "1.prems" by (simp_all add: setGate_def set_handler_def)
    then have "init_gates debug msg stubs flags h stop vec s
        = init_gates debug msg stubs flags h stop (vec + 1) ?s3"
      using True by (subst init_gates.simps) simp
    moreover note "1.IH" [OF True steps]
    moreover have "[vec..<stop] = vec # [vec + 1..<stop]" using True by (simp add: upt_conv_Cons)
    ultimately show ?thesis
      using True "1.prems" by (auto simp: nth_list_update cong: if_cong)
  next
    case False
    with "1.prems" show ?thesis by (subst init_gates.simps) auto
  qed
qed

text \<open>What \<open>init\<close> leaves in the two tables, as lists.\<close>

lemma idt_init_tables:
  "\<exists>s'. idt_init debug useTrap panicOn stubs a idt_start = Some s'
    \<and> idt_table s' = map (\<lambda>i. gate (stubs i) (if useTrap \<and> i < 32 then TRAP_GATE else INTERRUPT_GATE)) [0..<256]
    \<and> real_handler_table s'
        = map (\<lambda>i. if \<not> panicOn \<and> i < 32 then HaltCatchFire else DefaultInterruptHandler) [0..<256]
    \<and> loaded s' \<and> idt_limit s' = 4095 \<and> idt_base s' = a
    \<and> idt_log s' = (if debug then MLoading a 4095 # map (\<lambda>v. MException (of_nat v)) [0..<32]
        @ map (\<lambda>v. MInterrupt (of_nat v)) [32..<256] else [])"
proof -
  let ?fl = "if useTrap then TRAP_GATE else INTERRUPT_GATE"
  let ?h = "if panicOn then DefaultInterruptHandler else HaltCatchFire"
  let ?s0 = "idt_say debug (MLoading a 4095) (idt_start\<lparr>idt_limit := 16 * 256 - 1, idt_base := a\<rparr>)"
  have "length (idt_table ?s0) = 256" "length (real_handler_table ?s0) = 256"
    by (simp_all add: idt_start_def)
  from init_gates_effect [OF this, of 32 0 debug MException stubs ?fl ?h]
  obtain s1 where s1: "init_gates debug MException stubs ?fl ?h 32 0 ?s0 = Some s1"
    "length (idt_table s1) = 256" "length (real_handler_table s1) = 256"
    "\<forall>i < 256. i < 32 \<longrightarrow> idt_table s1 ! i = gate (stubs i) ?fl"
    "\<forall>i < 256. i < 32 \<longrightarrow> real_handler_table s1 ! i = ?h"
    "idt_limit s1 = 4095" "idt_base s1 = a"
    "idt_log s1 = (if debug then MLoading a 4095 # map (\<lambda>v. MException (of_nat v)) [0..<32] else [])"
    by (auto simp: idt_start_def)
  from init_gates_effect [OF s1(2,3), of 256 32 debug MInterrupt stubs INTERRUPT_GATE DefaultInterruptHandler]
  obtain s2 where s2: "init_gates debug MInterrupt stubs INTERRUPT_GATE DefaultInterruptHandler 256 32 s1 = Some s2"
    "length (idt_table s2) = 256" "length (real_handler_table s2) = 256"
    "\<forall>i < 256. idt_table s2 ! i = (if i < 32 then idt_table s1 ! i else gate (stubs i) INTERRUPT_GATE)"
    "\<forall>i < 256. real_handler_table s2 ! i
       = (if i < 32 then real_handler_table s1 ! i else DefaultInterruptHandler)"
    "idt_limit s2 = 4095" "idt_base s2 = a"
    "idt_log s2 = idt_log s1 @ (if debug then map (\<lambda>v. MInterrupt (of_nat v)) [32..<256] else [])"
    using s1(6,7) by auto
  have "idt_table s2 ! i = gate (stubs i) (if useTrap \<and> i < 32 then TRAP_GATE else INTERRUPT_GATE)"
    "real_handler_table s2 ! i = (if \<not> panicOn \<and> i < 32 then HaltCatchFire else DefaultInterruptHandler)"
    if "i < 256" for i
    using s1(4,5) s2(4,5) that by (cases "i < 32"; simp)+
  then have "idt_table s2 = map (\<lambda>i. gate (stubs i) (if useTrap \<and> i < 32 then TRAP_GATE else INTERRUPT_GATE)) [0..<256]"
    "real_handler_table s2 = map (\<lambda>i. if \<not> panicOn \<and> i < 32 then HaltCatchFire else DefaultInterruptHandler) [0..<256]"
    using s2(2,3) by (simp_all add: list_eq_iff_nth_eq del: upt_rec_numeral)
  moreover have "idt_init debug useTrap panicOn stubs a idt_start = Some (s2\<lparr>loaded := True\<rparr>)"
    using s1(1) s2(1) by (simp add: idt_init_def)
  ultimately show ?thesis using s1(8) s2(6-8)
    by (intro exI [of _ "s2\<lparr>loaded := True\<rparr>"]) (simp del: upt_rec_numeral)
qed

text \<open>
  C9: For every setting of the switches, after \<open>init\<close> each of the 256 gates leads to its stub
  through the kernel code segment, as an interrupt gate, or for an exception as a trap gate
  where that is configured; each vector has the default handler, but the exceptions only halt
  where they are configured not to panic. The limit and base of the table are set and it is
  loaded. The debug log names the table and then every vector once, in order.
\<close>

theorem idt_init_gates:
  "\<exists>s'. idt_init debug useTrap panicOn stubs a idt_start = Some s' \<and> loaded s'
    \<and> idt_limit s' = 4095 \<and> idt_base s' = a
    \<and> (\<forall>i < 256. gate_offset (idt_table s' ! i) = stubs i \<and> selector (idt_table s' ! i) = 0x08
         \<and> attribute (idt_table s' ! i) = (if useTrap \<and> i < 32 then TRAP_GATE else INTERRUPT_GATE)
         \<and> real_handler_table s' ! i
           = (if \<not> panicOn \<and> i < 32 then HaltCatchFire else DefaultInterruptHandler))
    \<and> idt_log s' = (if debug then MLoading a 4095 # map (\<lambda>v. MException (of_nat v)) [0..<32]
        @ map (\<lambda>v. MInterrupt (of_nat v)) [32..<256] else [])"
proof -
  have "selector (gate b f) = 0x08" "attribute (gate b f) = f" for b f
    by (simp_all add: gate_def)
  then show ?thesis
    using idt_init_tables [of debug useTrap panicOn stubs a]
    by (elim exE) (simp del: upt_rec_numeral)
qed

theorem idt_init_gates_witness:
  "\<exists>s'. idt_init True True True (\<lambda>n. of_nat n * 16) 0x1000 idt_start = Some s'
     \<and> gate_offset (idt_table s' ! 14) = 224 \<and> attribute (idt_table s' ! 14) = TRAP_GATE"
  using idt_init_gates [of True True True "\<lambda>n. of_nat n * 16" "0x1000"] by fastforce

text \<open>
  A handler can be registered once per vector: the first registration on a vector that has a
  handler of the class succeeds and installs it, a second one with the vector taken by
  another function is refused and changes nothing, and other vectors keep their handlers.
\<close>

lemma registerHandler_once:
  assumes "length (real_handler_table s) = 256" and "unat vec < 256"
    and "real_handler_table s ! unat vec = DefaultInterruptHandler"
  shows "\<exists>s'. registerHandler d vec (Custom f) s = Some (True, s')
    \<and> registerHandler d vec (Custom g) s' = Some (False, s')
    \<and> real_handler_table s' = (real_handler_table s)[unat vec := Custom f]
    \<and> idt_table s' = idt_table s"
  using assms by (simp add: registerHandler_def Let_def)

text \<open>A vector of 256 or more, which the parameter type allows, indexes behind the table.\<close>

lemma registerHandler_out_of_bounds:
  "length (real_handler_table s) = 256 \<Longrightarrow> 256 \<le> unat vec \<Longrightarrow> registerHandler d vec h s = None"
  by (simp add: registerHandler_def)

text \<open>Before \<open>init\<close> the table holds null pointers, and no handler can be registered.\<close>

lemma registerHandler_before_init:
  "unat vec < 256 \<Longrightarrow> registerHandler d vec h idt_start = Some (False, idt_start)"
  by (simp add: registerHandler_def idt_start_def Let_def)

subsection \<open>The register frame\<close>

text \<open>The frame of an interrupt: what the processor pushes, the stub and the common part.\<close>

definition frame :: "cpu \<Rightarrow> nat \<Rightarrow> u64 list \<Rightarrow> u64 list" where
  "frame c n hw = save_regs c (isr_stub n hw)"

lemma frame_nth:
  "frame c n hw = cr4 c # cr3 c # cr2 c # cr0 c # es c # ds c # rbp c # rdi c # rsi c # rdx c
     # rcx c # rbx c # rax c # r8 c # r9 c # r10 c # r11 c # r12 c # r13 c # r14 c # r15 c
     # of_nat n # (if n \<in> set err_vectors then hw else 0 # hw)"
  by (simp add: frame_def save_regs_def isr_stub_def)

text \<open>
  The common stub selects the handler with the saved \<^verbatim>\<open>r10\<close>: the word at offset 120 is the
  tenth register, and the vector lies at offset 168.
\<close>

lemma stub_dispatches_on_r10:
  "handler_index (frame c n hw) = r10 c \<and> frame c n hw ! (168 div 8) = of_nat n"
  by (simp add: handler_index_def frame_nth)

text \<open>
  Of the fields of \<^verbatim>\<open>registers_ctx\<close> below the processor's own frame only \<^verbatim>\<open>r8\<close> and the vector
  lie where the stub puts them. The rest name other registers: \<^verbatim>\<open>rax\<close> reads \<^verbatim>\<open>r9\<close>, \<^verbatim>\<open>rbp\<close>
  reads \<^verbatim>\<open>r15\<close>, \<^verbatim>\<open>cr2\<close>, the address of a page fault, reads \<^verbatim>\<open>es\<close>.
\<close>

theorem ctx_fields_shifted:
  "map (ctx_read (frame c n hw)) (take 22 ctx_fields)
    = [cr4 c, cr3 c, cr2 c, cr0 c, es c, ds c, rbp c, rdi c, rsi c, rdx c, rcx c, rbx c, rax c,
       r8 c, r9 c, r10 c, r11 c, r12 c, r13 c, r14 c, r15 c, of_nat n]
   \<and> take 22 ctx_fields
    = [''es'', ''ds'', ''cr4'', ''cr3'', ''cr2'', ''cr0'', ''r15'', ''r14'', ''r13'', ''r12'', ''r11'',
       ''r10'', ''r9'', ''r8'', ''rax'', ''rbx'', ''rcx'', ''rdx'', ''rsi'', ''rdi'', ''rbp'',
       ''interrupt_vector'']"
  by (simp add: ctx_read_def ctx_fields_def frame_nth)

text \<open>
  The vectors for which the processor itself pushes an error code, by the architecture
  manuals. The stubs know the first seven of them.
\<close>

definition cpu_pushes_error :: "nat \<Rightarrow> bool" where
  "cpu_pushes_error n \<longleftrightarrow> n \<in> {8, 10, 11, 12, 13, 14, 17, 21, 29, 30}"

text \<open>What the processor pushes before the stub: where it was interrupted, and the error code.\<close>

definition hw_words :: "nat \<Rightarrow> u64 \<Rightarrow> u64 \<Rightarrow> u64 \<Rightarrow> u64 \<Rightarrow> u64 \<Rightarrow> u64 \<Rightarrow> u64 list" where
  "hw_words n err ip cseg fl sp sseg = (if cpu_pushes_error n then [err] else []) @ [ip, cseg, fl, sp, sseg]"

text \<open>The message of the default handler: its vector is read from the right place.\<close>

lemma defaultInterruptHandler_vector:
  "n < 256 \<Longrightarrow> defaultInterruptHandler (frame c n hw)
     = (if n < 32 then UnhandledException (of_nat n) (exception_names ! n) else UnhandledInterrupt (of_nat n))"
proof -
  assume n: "n < 256"
  have "ctx_read (frame c n hw) ''interrupt_vector'' = of_nat n"
    by (simp add: ctx_read_def ctx_fields_def frame_nth)
  moreover have "(of_nat n :: u64) < 32 \<longleftrightarrow> n < 32"
    using n by (simp add: word_less_nat_alt unat_of_nat_64)
  moreover have "unat (of_nat n :: u64) = n" using n by (simp add: unat_of_nat_64)
  ultimately show ?thesis by (simp add: defaultInterruptHandler_def Let_def)
qed

end
