(* ===== verification/Gdt.thy ===== *)
theory Gdt
  imports Prelude
begin

text \<open>
  Segments (\<^verbatim>\<open>arch/gdt.hh\<close>): the global descriptor table with its task state segment, the
  two operations on the latter, and \<open>load\<close>, which makes the processor use the table. The address of the task state segment is a parameter, the
  linker's choice. Descriptors are read back the way the processor reads them
  (\<open>descriptor_base\<close>, \<open>descriptor_limit\<close>), which is specification.
\<close>

subsection \<open>Tables\<close>

record gdt_entry =
  limit_low :: u16
  base_low :: u16
  base_mid :: u8
  access :: u8
  granularity :: u8
  base_high :: u8

record gdt_entry64 =
  low_part :: gdt_entry
  base_upper :: u32
  reserved :: u32

record tss64 =
  rsp0 :: u64
  rsp1 :: u64
  rsp2 :: u64
  ists :: "u64 list"
  io_map_base :: u16

text \<open>The debug messages: the table being loaded, and the values written.\<close>

datatype gdt_message = GLoading u64 u32 | GRsp0 u64 | GIsts "u64 list"

record gdt =
  gdt_entries :: "gdt_entry list"
  tss_entry :: gdt_entry64
  gdt_ptr_size :: u16
  gdt_ptr_base :: u64
  tss_instance :: tss64
  gdt_log :: "gdt_message list"

definition KERNEL_CODE :: u16 where "KERNEL_CODE = 0x08"
definition KERNEL_DATA :: u16 where "KERNEL_DATA = 0x10"
definition USER_CODE :: u16 where "USER_CODE = 0x18"
definition USER_DATA :: u16 where "USER_DATA = 0x20"
definition TSS :: u16 where "TSS = 0x28"

definition ACCESS_PRESENT :: u8 where "ACCESS_PRESENT = 0x90"
definition ACCESS_PRIV_KERNEL :: u8 where "ACCESS_PRIV_KERNEL = 0x00"
definition ACCESS_PRIV_USER :: u8 where "ACCESS_PRIV_USER = 0x60"
definition ACCESS_CODE :: u8 where "ACCESS_CODE = 0x0A"
definition ACCESS_DATA :: u8 where "ACCESS_DATA = 0x02"
definition ACCESS_TSS :: u8 where "ACCESS_TSS = 0x09"
definition GRAN_4K :: u8 where "GRAN_4K = 0x80"
definition GRAN_32BIT :: u8 where "GRAN_32BIT = 0x40"
definition GRAN_LONG :: u8 where "GRAN_LONG = 0x20"

definition segment :: "u16 \<Rightarrow> u16 \<Rightarrow> u8 \<Rightarrow> u8 \<Rightarrow> u8 \<Rightarrow> u8 \<Rightarrow> gdt_entry" where
  "segment l bl bm a g bh = \<lparr>limit_low = l, base_low = bl, base_mid = bm, access = a,
     granularity = g, base_high = bh\<rparr>"

text \<open>\<^verbatim>\<open>sizeof(TSS64)\<close>: the packed members, seven of them in \<^verbatim>\<open>ists\<close>.\<close>

definition sizeof_TSS64 :: nat where
  "sizeof_TSS64 = 4 + 3 * 8 + 8 + 7 * 8 + 8 + 2 + 2"

text \<open>\<^verbatim>\<open>sizeof(gdt_table)\<close>: five entries of 8 bytes and one of 16, rounded up to a multiple of 16.\<close>

definition sizeof_gdt_table :: nat where
  "sizeof_gdt_table = (5 * 8 + 16 + 15) div 16 * 16"

definition tss_start :: tss64 where
  "tss_start = \<lparr>rsp0 = 0, rsp1 = 0, rsp2 = 0, ists = replicate 7 0, io_map_base = of_nat sizeof_TSS64\<rparr>"

definition tss_descriptor :: "u64 \<Rightarrow> gdt_entry64" where
  "tss_descriptor a = \<lparr>
     low_part = segment (of_nat (sizeof_TSS64 - 1)) (ucast (a AND 0xFFFF))
       (ucast (drop_bit 16 a AND 0xFF)) 0x89
       (ucast (drop_bit 8 (drop_bit 16 a AND 0xF00))) (ucast (drop_bit 24 a AND 0xFF)),
     base_upper = ucast (drop_bit 32 a), reserved = 0\<rparr>"

definition gdt_start :: "u64 \<Rightarrow> u64 \<Rightarrow> gdt" where
  "gdt_start table_addr tss_addr = \<lparr>
     gdt_entries = [segment 0 0 0 0 0 0, segment 0xFFFF 0 0 0x9A 0xA0 0, segment 0xFFFF 0 0 0x92 0xC0 0,
       segment 0xFFFF 0 0 0xFA 0xA0 0, segment 0xFFFF 0 0 0xF2 0xC0 0],
     tss_entry = tss_descriptor tss_addr,
     gdt_ptr_size = of_nat (sizeof_gdt_table - 1), gdt_ptr_base = table_addr,
     tss_instance = tss_start, gdt_log = []\<rparr>"

definition gdt_say :: "bool \<Rightarrow> gdt_message \<Rightarrow> gdt \<Rightarrow> gdt" where
  "gdt_say debug msg g = (if debug then g\<lparr>gdt_log := gdt_log g @ [msg]\<rparr> else g)"

definition set_rsp0 :: "bool \<Rightarrow> u64 \<Rightarrow> gdt \<Rightarrow> gdt" where
  "set_rsp0 debug v g =
     (let g = gdt_say debug (GRsp0 v) g in g\<lparr>tss_instance := (tss_instance g)\<lparr>rsp0 := v\<rparr>\<rparr>)"

text \<open>The argument is an array of seven words, all of which are printed and copied.\<close>

definition set_ists :: "bool \<Rightarrow> u64 list \<Rightarrow> gdt \<Rightarrow> gdt option" where
  "set_ists debug v g =
     (if 7 \<le> length v then
        (let g = gdt_say debug (GIsts (take 7 v)) g
         in Some (g\<lparr>tss_instance := (tss_instance g)\<lparr>ists := take 7 v\<rparr>\<rparr>))
      else None)"

text \<open>The registers of the processor that \<open>load\<close> is about.\<close>

record segments =
  gdtr_limit :: u16
  gdtr_base :: u64
  sel_cs :: u16
  sel_ds :: u16
  sel_es :: u16
  sel_fs :: u16
  sel_gs :: u16
  sel_ss :: u16
  task_register :: u16

text \<open>
  \<^verbatim>\<open>ltr\<close> of the selector behind the five segments: the processor takes the descriptor of a present
  task state segment that is not busy, and marks it busy in the table; any other one faults.
\<close>

definition ltr :: "gdt \<Rightarrow> gdt option" where
  "ltr g =
     (let d = low_part (tss_entry g)
      in if access d AND 0x9F = 0x89
         then Some (g\<lparr>tss_entry := (tss_entry g)\<lparr>low_part := d\<lparr>access := access d OR 2\<rparr>\<rparr>\<rparr>)
         else None)"

text \<open>\<^verbatim>\<open>lgdt\<close>, the moves to the data segment registers, the far return, \<^verbatim>\<open>ltr\<close>.\<close>

definition gdt_load :: "bool \<Rightarrow> gdt \<Rightarrow> segments \<Rightarrow> (segments \<times> gdt) option" where
  "gdt_load debug g r =
     (let g = gdt_say debug (GLoading (gdt_ptr_base g) (ucast (gdt_ptr_size g))) g;
          r = r\<lparr>gdtr_limit := gdt_ptr_size g, gdtr_base := gdt_ptr_base g\<rparr>;
          r = r\<lparr>sel_ds := 0x10, sel_es := 0x10, sel_fs := 0x10, sel_gs := 0x10\<rparr>;
          r = r\<lparr>sel_cs := 0x08\<rparr>
      in map_option (\<lambda>g. (r\<lparr>task_register := 0x28\<rparr>, g)) (ltr g))"

subsection \<open>What the processor reads\<close>

definition descriptor_base :: "gdt_entry \<Rightarrow> u32" where
  "descriptor_base d = ucast (base_low d) OR push_bit 16 (ucast (base_mid d))
     OR push_bit 24 (ucast (base_high d))"

definition descriptor_limit :: "gdt_entry \<Rightarrow> u32" where
  "descriptor_limit d = ucast (limit_low d) OR push_bit 16 (ucast (granularity d AND 0xF))"

definition descriptor_base64 :: "gdt_entry64 \<Rightarrow> u64" where
  "descriptor_base64 d = ucast (descriptor_base (low_part d)) OR push_bit 32 (ucast (base_upper d))"

definition dpl :: "gdt_entry \<Rightarrow> u8" where
  "dpl d = drop_bit 5 (access d) AND 3"

text \<open>Bits of the access and granularity bytes.\<close>

definition is_code :: "gdt_entry \<Rightarrow> bool" where "is_code d = bit (access d) 3"
definition long_mode :: "gdt_entry \<Rightarrow> bool" where "long_mode d = bit (granularity d) 5"

lemma masks_64: "(0xFFFF :: u64) = mask 16" "(0xFF :: u64) = mask 8" "(0xF :: u8) = mask 4"
  by (simp_all add: mask_eq_exp_minus_1)

lemma tss_descriptor_base: "descriptor_base64 (tss_descriptor a) = a"
proof (rule bit_word_eqI)
  fix n assume n: "n < LENGTH(64)"
  then consider "n < 16" | "16 \<le> n" "n < 24" | "24 \<le> n" "n < 32" | "32 \<le> n" by linarith
  then show "bit (descriptor_base64 (tss_descriptor a)) n = bit a n"
    using n unfolding descriptor_base64_def descriptor_base_def tss_descriptor_def segment_def masks_64
    by cases (auto simp: bit_simps simp flip: take_bit_eq_mask)
qed

text \<open>The low nibble of the granularity byte, where the limit continues, gets address bits 24 to 27.\<close>

lemma tss_descriptor_limit:
  "descriptor_limit (low_part (tss_descriptor a))
    = 103 OR push_bit 16 (ucast (drop_bit 24 a AND 0xF))"
proof -
  have f00: "(0xF00 :: u64) = push_bit 8 (mask 4)" "(0xF :: u64) = mask 4"
    by (simp_all add: mask_eq_exp_minus_1)
  have "ucast ((ucast (drop_bit 8 (drop_bit 16 a AND 0xF00)) :: u8) AND 0xF)
      = (ucast (drop_bit 24 a AND 0xF) :: u32)"
    unfolding f00 masks_64 by (rule bit_word_eqI) (auto simp: bit_simps)
  then show ?thesis
    by (simp add: descriptor_limit_def tss_descriptor_def segment_def sizeof_TSS64_def)
qed

text \<open>
  C32: The task state segment descriptor holds the full 64-bit address of the segment, but its
  limit is its size less one only when bits 24 to 27 of the address are zero: the code puts
  those bits where bits 16 to 19 of the limit belong.
\<close>

theorem tss_descriptor_reads_back:
  "descriptor_base64 (tss_entry (gdt_start t a)) = a
    \<and> (descriptor_limit (low_part (tss_entry (gdt_start t a))) = of_nat (sizeof_TSS64 - 1)
        \<longleftrightarrow> drop_bit 24 a AND 0xF = 0)"
proof -
  define k :: u32 where "k = ucast (drop_bit 24 a AND 0xF)"
  have f: "(0xF :: u64) = mask 4" by (simp add: mask_eq_exp_minus_1)
  have zero: "k = 0 \<longleftrightarrow> drop_bit 24 a AND 0xF = 0"
  proof -
    have "bit k n = bit (drop_bit 24 a AND mask 4) n" for n
      unfolding k_def f by (auto simp: bit_simps)
    then show ?thesis unfolding f by (metis bit_0_eq bit_word_eqI)
  qed
  have "take_bit 16 (103 :: u32) = 103" by simp
  then have "\<not> bit (103 :: u32) (n + 16)" for n by (metis bit_take_bit_iff not_add_less2)
  note high = this
  have "push_bit 16 k = 0" if "103 OR push_bit 16 k = 103"
  proof (rule bit_word_eqI)
    fix n
    have "bit (103 OR push_bit 16 k) n = bit (103 :: u32) n" using that by simp
    then have "bit (push_bit 16 k) n \<Longrightarrow> bit (103 :: u32) n" by (simp add: bit_or_iff)
    moreover have "bit (push_bit 16 k) n \<Longrightarrow> \<not> bit (103 :: u32) n"
      using high [of "n - 16"] by (auto simp: bit_push_bit_iff)
    ultimately show "bit (push_bit 16 k) n = bit 0 n" by auto
  qed
  then have "103 OR push_bit 16 k = 103 \<longleftrightarrow> push_bit 16 k = 0" by auto
  moreover have "push_bit 16 k = 0 \<longleftrightarrow> k = 0"
  proof -
    have "bit k n \<Longrightarrow> n < 4" for n unfolding k_def f by (auto simp: bit_simps)
    then have "bit k n \<Longrightarrow> bit (push_bit 16 k) (n + 16)" for n
      by (fastforce simp: bit_push_bit_iff)
    then have "\<not> bit k n" if "push_bit 16 k = 0" for n using that by fastforce
    then have "push_bit 16 k = 0 \<Longrightarrow> k = 0" by (intro bit_word_eqI) simp
    then show ?thesis by auto
  qed
  ultimately show ?thesis
    using zero tss_descriptor_base
    by (simp add: gdt_start_def tss_descriptor_limit sizeof_TSS64_def k_def)
qed

text \<open>
  The code and data segments have base zero and limit field 0xFFFF, the code segments of the kernel and the user are 64-bit
  code, the user's have privilege 3 and the kernel's 0, and their access bytes are made of
  the constants the class names.
\<close>

theorem segment_privileges:
  "map (\<lambda>d. (descriptor_base d, descriptor_limit d, is_code d, long_mode d, dpl d))
      (tl (gdt_entries (gdt_start t a)))
    = [(0, 0xFFFF, True, True, 0), (0, 0xFFFF, False, False, 0),
       (0, 0xFFFF, True, True, 3), (0, 0xFFFF, False, False, 3)]
   \<and> map access (tl (gdt_entries (gdt_start t a)))
    = [ACCESS_PRESENT OR ACCESS_PRIV_KERNEL OR ACCESS_CODE, ACCESS_PRESENT OR ACCESS_PRIV_KERNEL OR ACCESS_DATA,
       ACCESS_PRESENT OR ACCESS_PRIV_USER OR ACCESS_CODE, ACCESS_PRESENT OR ACCESS_PRIV_USER OR ACCESS_DATA]"
  by (simp add: gdt_start_def segment_def descriptor_base_def descriptor_limit_def is_code_def
      long_mode_def dpl_def ACCESS_PRESENT_def ACCESS_PRIV_KERNEL_def ACCESS_PRIV_USER_def
      ACCESS_CODE_def ACCESS_DATA_def)

text \<open>
  The limit of the table counts the 8 bytes of padding behind the last descriptor, so the
  table the processor knows has a ninth, all-zero slot.
\<close>

lemma gdt_limit_includes_padding: "gdt_ptr_size (gdt_start t a) = 63 \<and> 5 * 8 + 16 = (56 :: nat)"
  by (simp add: gdt_start_def sizeof_gdt_table_def)

lemma set_ists_reads_back:
  "length v = 7 \<Longrightarrow> \<exists>g'. set_ists d v g = Some g' \<and> ists (tss_instance g') = v
     \<and> rsp0 (tss_instance g') = rsp0 (tss_instance g)"
  by (simp add: set_ists_def gdt_say_def)

lemma set_rsp0_reads_back:
  "rsp0 (tss_instance (set_rsp0 d v g)) = v \<and> ists (tss_instance (set_rsp0 d v g)) = ists (tss_instance g)"
  by (simp add: set_rsp0_def gdt_say_def Let_def)

text \<open>
  After \<open>load\<close> the code segment register names the kernel's code segment, the four data segment
  registers its data segment, and the task register the slot behind the five segments. The
  stack segment register keeps the selector it had, which belongs to the boot loader's table.
\<close>

definition named :: "gdt \<Rightarrow> u16 \<Rightarrow> gdt_entry option" where
  "named g sel = (let i = unat sel div 8 in if i < length (gdt_entries g) then Some (gdt_entries g ! i) else None)"

lemma gdt_load_selects:
  assumes "gdt_load d (gdt_start t a) r = Some (r', g')"
  shows "gdtr_base r' = t \<and> gdtr_limit r' = 63
    \<and> named g' (sel_cs r') = Some (segment 0xFFFF 0 0 0x9A 0xA0 0)
    \<and> (\<forall>sel \<in> {sel_ds r', sel_es r', sel_fs r', sel_gs r'}. named g' sel = Some (segment 0xFFFF 0 0 0x92 0xC0 0))
    \<and> unat (task_register r') = 8 * length (gdt_entries g')
    \<and> sel_cs r' = KERNEL_CODE \<and> sel_ds r' = KERNEL_DATA \<and> task_register r' = TSS
    \<and> sel_ss r' = sel_ss r"
  using assms
  by (auto simp: gdt_load_def ltr_def gdt_say_def gdt_start_def named_def sizeof_gdt_table_def KERNEL_CODE_def
      KERNEL_DATA_def TSS_def Let_def split: if_splits)

text \<open>All of what \<open>load\<close> changes, from the tables as they are at the start.\<close>

lemma gdt_load_start:
  "gdt_load d (gdt_start t a) r = Some
    (r\<lparr>gdtr_limit := 63, gdtr_base := t, sel_cs := 8, sel_ds := 16, sel_es := 16, sel_fs := 16, sel_gs := 16,
       task_register := 40\<rparr>,
     (gdt_start t a)\<lparr>gdt_log := (if d then [GLoading t 63] else []),
       tss_entry := (tss_descriptor a)\<lparr>low_part := (low_part (tss_descriptor a))\<lparr>access := 0x8B\<rparr>\<rparr>\<rparr>)"
  by (simp add: gdt_load_def ltr_def gdt_say_def gdt_start_def sizeof_gdt_table_def tss_descriptor_def segment_def)

text \<open>The busy mark stays, so a second \<open>load\<close> faults at \<^verbatim>\<open>ltr\<close>.\<close>

lemma gdt_load_twice:
  "gdt_load d (gdt_start t a) r = Some (r', g') \<Longrightarrow> gdt_load d g' r' = None"
  by (auto simp: gdt_load_start gdt_load_def [of _ "gdt_start t a\<lparr>gdt_log := _, tss_entry := _\<rparr>"] ltr_def
      gdt_say_def Let_def)

end
