(* ===== verification/StringView.thy ===== *)
theory StringView
  imports StrFun
begin

text \<open>
  \<^verbatim>\<open>ktl::string_view\<close> (\<^verbatim>\<open>ktl/string_view\<close>): a pointer and a length over bytes in memory. The
  operations that do not read are total functions on the pair; \<open>compare\<close> and the constructor
  from a C string read memory and may fault.

  The content of a view is \<open>sv_bytes\<close>: the bytes in memory it denotes. Every operation is
  described by what it does to the content.
\<close>

record string_view =
  m_data :: addr
  m_size :: usize

definition sv_empty :: string_view where
  "sv_empty = \<lparr>m_data = nullptr, m_size = 0\<rparr>"

definition sv_of :: "addr \<Rightarrow> usize \<Rightarrow> string_view" where
  "sv_of s count = \<lparr>m_data = s, m_size = count\<rparr>"

partial_function (option) compute_length :: "mem \<Rightarrow> addr \<Rightarrow> usize \<Rightarrow> usize option" where
  "compute_length m s len = do {
     c \<leftarrow> m (s + len);
     if c \<noteq> 0 then compute_length m s (len + 1) else Some len
   }"

definition sv_of_cstr :: "mem \<Rightarrow> addr \<Rightarrow> string_view option" where
  "sv_of_cstr m s = do { n \<leftarrow> compute_length m s 0; Some (sv_of s n) }"

text \<open>A string literal of \<open>N\<close> characters with its terminator.\<close>

definition sv_of_array :: "addr \<Rightarrow> usize \<Rightarrow> string_view" where
  "sv_of_array s N = sv_of s (N - 1)"

definition sv_is_empty :: "string_view \<Rightarrow> bool" where
  "sv_is_empty v = (m_size v = 0)"

definition sv_at :: "mem \<Rightarrow> string_view \<Rightarrow> usize \<Rightarrow> u8 option" where
  "sv_at m v pos = m (m_data v + pos)"

definition sv_end :: "string_view \<Rightarrow> addr" where
  "sv_end v = m_data v + m_size v"

definition sv_remove_prefix :: "usize \<Rightarrow> string_view \<Rightarrow> string_view" where
  "sv_remove_prefix n v = v\<lparr>m_data := m_data v + n, m_size := m_size v - n\<rparr>"

definition sv_remove_suffix :: "usize \<Rightarrow> string_view \<Rightarrow> string_view" where
  "sv_remove_suffix n v = v\<lparr>m_size := m_size v - n\<rparr>"

definition sv_substr :: "usize \<Rightarrow> usize \<Rightarrow> string_view \<Rightarrow> string_view" where
  "sv_substr pos count v =
     (let pos = (if pos > m_size v then m_size v else pos);
          rcount = (if count < m_size v - pos then count else m_size v - pos)
      in sv_of (m_data v + pos) rcount)"

function sv_compare_loop :: "mem \<Rightarrow> addr \<Rightarrow> addr \<Rightarrow> usize \<Rightarrow> usize \<Rightarrow> int option" where
  "sv_compare_loop m a b n i =
     (if i < n then do {
        x \<leftarrow> m (a + i);
        y \<leftarrow> m (b + i);
        if char_val x < char_val y then Some (- 1)
        else if char_val x > char_val y then Some 1
        else sv_compare_loop m a b n (i + 1)
      } else Some 0)"
  by pat_completeness auto
termination
  by (relation "measure (\<lambda>(m, a, b, n, i). unat n - unat i)") (simp_all add: count_up_less)

declare sv_compare_loop.simps [simp del]

definition sv_compare :: "mem \<Rightarrow> string_view \<Rightarrow> string_view \<Rightarrow> int option" where
  "sv_compare m v w = do {
     let n = (if m_size v < m_size w then m_size v else m_size w);
     r \<leftarrow> sv_compare_loop m (m_data v) (m_data w) n 0;
     if r \<noteq> 0 then Some r
     else if m_size v < m_size w then Some (- 1)
     else if m_size v > m_size w then Some 1
     else Some 0
   }"

definition sv_eq :: "mem \<Rightarrow> string_view \<Rightarrow> string_view \<Rightarrow> bool option" where
  "sv_eq m v w = map_option (\<lambda>r. r = 0) (sv_compare m v w)"

definition sv_less :: "mem \<Rightarrow> string_view \<Rightarrow> string_view \<Rightarrow> bool option" where
  "sv_less m v w = map_option (\<lambda>r. r < 0) (sv_compare m v w)"

definition sv_less_eq :: "mem \<Rightarrow> string_view \<Rightarrow> string_view \<Rightarrow> bool option" where
  "sv_less_eq m v w = map_option (\<lambda>r. r \<le> 0) (sv_compare m v w)"

subsection \<open>The content of a view\<close>

definition sv_bytes :: "mem \<Rightarrow> string_view \<Rightarrow> u8 list \<Rightarrow> bool" where
  "sv_bytes m v cs \<longleftrightarrow> bytes_at m (m_data v) cs \<and> unat (m_size v) = length cs"

lemma sv_bytes_size: "sv_bytes m v cs \<Longrightarrow> m_size v = of_nat (length cs) \<and> length cs < 2 ^ 64"
  using unat_less_size [of "m_size v"] of_nat_unat_64 [of "m_size v"] by (simp add: sv_bytes_def)

lemma sv_bytes_unique: "sv_bytes m v cs \<Longrightarrow> sv_bytes m v ds \<Longrightarrow> cs = ds"
  by (auto simp: sv_bytes_def dest: bytes_at_unique)

lemma compute_length_cstr:
  "cstr_at m (s + of_nat n) cs \<Longrightarrow> compute_length m s (of_nat n) = Some (of_nat (n + length cs))"
proof (induction cs arbitrary: n)
  case Nil
  then show ?case by (subst compute_length.simps) simp
next
  case (Cons c cs)
  then have "cstr_at m (s + of_nat (Suc n)) cs" by (simp add: ac_simps)
  from Cons.IH [OF this] Cons.prems show ?case
    by (subst compute_length.simps) (simp add: ac_simps)
qed

lemma sv_of_cstr_bytes:
  assumes "cstr_at m s cs"
  shows "\<exists>v. sv_of_cstr m s = Some v \<and> m_data v = s \<and> sv_bytes m v cs"
proof -
  have "compute_length m s 0 = Some (of_nat (length cs))"
    using compute_length_cstr [of m s 0 cs] assms by simp
  moreover have "bytes_at m s cs" using assms by (simp add: cstr_at_def bytes_at_append)
  ultimately show ?thesis
    using cstr_at_length [OF assms]
    by (simp add: sv_of_cstr_def sv_of_def sv_bytes_def unat_of_nat_64)
qed

lemma bytes_at_take_drop:
  assumes "bytes_at m p cs"
  shows "bytes_at m (p + of_nat (min i (length cs))) (take k (drop i cs))"
proof -
  have "cs = take i cs @ take k (drop i cs) @ drop k (drop i cs)"
    by (metis append_take_drop_id)
  with assms have "bytes_at m p (take i cs @ take k (drop i cs) @ drop k (drop i cs))" by simp
  then show ?thesis unfolding bytes_at_append by (simp add: min.commute)
qed

text \<open>
  \<open>substr\<close> of a view denotes the bytes a list operation would take, for every position and
  count, in range or not: \<open>take count (drop pos content)\<close>.
\<close>

theorem sv_substr_content:
  assumes "sv_bytes m v cs"
  shows "sv_bytes m (sv_substr pos count v) (take (unat count) (drop (unat pos) cs))"
proof -
  note sz = sv_bytes_size [OF assms]
  define p where "p = (if pos > m_size v then m_size v else pos)"
  have p: "unat p = min (unat pos) (length cs)"
    using assms by (auto simp: p_def sv_bytes_def word_less_nat_alt)
  have rest: "unat (m_size v - p) = length cs - unat p"
    using assms p by (subst unat_sub) (auto simp: sv_bytes_def word_le_nat_alt)
  have "bytes_at m (m_data v + p) (take (unat count) (drop (unat pos) cs))"
    using bytes_at_take_drop [of m "m_data v" cs "unat pos" "unat count"] assms p
      of_nat_unat_64 [of p] by (simp add: sv_bytes_def)
  moreover have "unat (if count < m_size v - p then count else m_size v - p)
      = length (take (unat count) (drop (unat pos) cs))"
    using p rest by (auto simp: word_less_nat_alt)
  ultimately show ?thesis
    by (simp add: sv_bytes_def sv_substr_def sv_of_def Let_def flip: p_def)
qed

theorem sv_substr_content_witness:
  "sv_bytes (put_bytes Map.empty 16 [65, 66, 67]) (sv_substr 1 9 (sv_of 16 3)) [66, 67]"
  using sv_substr_content [of "put_bytes Map.empty 16 [65, 66, 67]" "sv_of 16 3" "[65, 66, 67]" 1 9]
  by (simp add: sv_bytes_def sv_of_def)

text \<open>Within the view the removals drop from the front and from the back.\<close>

lemma sv_remove_prefix_content:
  "sv_bytes m v cs \<Longrightarrow> unat n \<le> length cs \<Longrightarrow> sv_bytes m (sv_remove_prefix n v) (drop (unat n) cs)"
  using bytes_at_take_drop [of m "m_data v" cs "unat n" "length cs"]
  by (simp add: sv_bytes_def sv_remove_prefix_def min_def of_nat_unat_64 unat_sub word_le_nat_alt)

lemma sv_remove_suffix_content:
  assumes "sv_bytes m v cs" and "unat n \<le> length cs"
  shows "sv_bytes m (sv_remove_suffix n v) (take (length cs - unat n) cs)"
  using bytes_at_take_drop [of m "m_data v" cs 0 "length cs - unat n"] assms
  by (simp add: sv_bytes_def sv_remove_suffix_def unat_sub word_le_nat_alt)

text \<open>Past the end they do not clamp, as those of a slice do: the size wraps around.\<close>

lemma sv_remove_prefix_wraps: "m_size (sv_remove_prefix 4 (sv_of s 3)) = size_max"
  by (simp add: sv_remove_prefix_def sv_of_def)

subsection \<open>Comparison\<close>

fun lex_cmp :: "u8 list \<Rightarrow> u8 list \<Rightarrow> int" where
  "lex_cmp [] [] = 0"
| "lex_cmp [] (y # ys) = - 1"
| "lex_cmp (x # xs) [] = 1"
| "lex_cmp (x # xs) (y # ys) =
     (if sint x < sint y then - 1 else if sint x > sint y then 1 else lex_cmp xs ys)"

lemma lex_cmp_order:
  "lex_cmp xs ys = (if xs = ys then 0 else if map sint xs < map sint ys then - 1 else 1)"
proof (induction xs ys rule: lex_cmp.induct)
  case (4 x xs y ys)
  have "sint x = sint y \<longleftrightarrow> x = y" by (auto intro: signed_word_eqI)
  with 4 show ?case by auto
qed simp_all

lemma sv_compare_loop_lex:
  "bytes_at m (a + i) xs \<Longrightarrow> bytes_at m (b + i) ys \<Longrightarrow>
     unat n = unat i + min (length xs) (length ys) \<Longrightarrow>
   \<exists>r. sv_compare_loop m a b n i = Some r
     \<and> lex_cmp xs ys = (if r \<noteq> 0 then r else if length xs < length ys then - 1
         else if length xs > length ys then 1 else 0)"
proof (induction xs ys arbitrary: i rule: lex_cmp.induct)
  case (4 x xs y ys)
  have less: "i < n" using "4.prems"(3) by (simp add: word_less_nat_alt)
  note i1 = unat_incr [OF less]
  consider "sint x < sint y" | "sint x > sint y" | "sint x = sint y" by linarith
  then show ?case
  proof cases
    case 3
    then obtain r where "sv_compare_loop m a b n (i + 1) = Some r"
      "lex_cmp xs ys = (if r \<noteq> 0 then r else if length xs < length ys then - 1
         else if length xs > length ys then 1 else 0)"
      using "4.IH" [of "i + 1"] "4.prems" i1 by (auto simp: add.assoc)
    with 3 less "4.prems" show ?thesis by (subst sv_compare_loop.simps) simp
  qed (use less "4.prems" in \<open>subst sv_compare_loop.simps, simp\<close>)+
qed (subst sv_compare_loop.simps, simp add: word_less_nat_alt)+

lemma sv_compare_lex:
  assumes "sv_bytes m v cs" and "sv_bytes m w ds"
  shows "sv_compare m v w = Some (lex_cmp cs ds)"
proof -
  let ?n = "if m_size v < m_size w then m_size v else m_size w"
  have "unat ?n = min (length cs) (length ds)"
    using assms by (auto simp: sv_bytes_def word_less_nat_alt)
  then obtain r where r: "sv_compare_loop m (m_data v) (m_data w) ?n 0 = Some r"
    "lex_cmp cs ds = (if r \<noteq> 0 then r else if length cs < length ds then - 1
       else if length cs > length ds then 1 else 0)"
    using sv_compare_loop_lex [of m "m_data v" 0 cs "m_data w" ds ?n] assms
    by (auto simp: sv_bytes_def)
  have "m_size v < m_size w \<longleftrightarrow> length cs < length ds" "m_size w < m_size v \<longleftrightarrow> length ds < length cs"
    using assms by (auto simp: sv_bytes_def word_less_nat_alt)
  with r show ?thesis by (simp add: sv_compare_def Let_def)
qed

text \<open>
  C37: \<open>compare\<close> is the lexicographic order of the contents with characters read as signed, and
  so the comparison operators decide equality of the contents and a total order on them.
\<close>

theorem sv_compare_orders:
  assumes "sv_bytes m v cs" and "sv_bytes m w ds"
  shows "sv_eq m v w = Some (cs = ds) \<and> sv_less m v w = Some (map sint cs < map sint ds)
    \<and> sv_less_eq m v w = Some (map sint cs \<le> map sint ds)"
proof -
  have "map sint cs = map sint ds \<longleftrightarrow> cs = ds"
    by (rule inj_map_eq_map) (auto intro: injI signed_word_eqI)
  then show ?thesis
    using sv_compare_lex [OF assms] lex_cmp_order [of cs ds]
    by (auto simp: sv_eq_def sv_less_def sv_less_eq_def)
qed

theorem sv_compare_orders_witness:
  "sv_less (put_bytes Map.empty 16 [65, 200, 65, 66]) (sv_of 16 2) (sv_of 18 2) = Some True"
  using sv_compare_orders [of "put_bytes Map.empty 16 [65, 200, 65, 66]" "sv_of 16 2" "[65, 200]"
      "sv_of 18 2" "[65, 66]"]
  by (simp add: sv_bytes_def sv_of_def)

end
