(* ===== verification/Slice.thy ===== *)
theory Slice
  imports StringView
begin

text \<open>
  \<^verbatim>\<open>ktl::slice\<close> (\<^verbatim>\<open>ktl/slice\<close>): a pointer to an array and its number of elements, with an
  optional static extent.

  A pointer to \<open>T\<close> advances by \<^verbatim>\<open>sizeof(T)\<close>, the argument \<open>w\<close> of the operations that move it.
  Reading an element is the argument \<open>rd\<close>, for the element type decides how its bytes are
  read. The content of a slice is \<open>sl_elems\<close>: the elements in memory it denotes.
\<close>

record slice =
  sl_data :: addr
  sl_size :: usize

definition dynamic_extent :: usize where
  "dynamic_extent = size_max"

definition sl_empty :: slice where
  "sl_empty = \<lparr>sl_data = nullptr, sl_size = 0\<rparr>"

text \<open>With a static extent the count must match it; a failed \<^verbatim>\<open>assert\<close> traps.\<close>

definition sl_of :: "usize \<Rightarrow> addr \<Rightarrow> usize \<Rightarrow> slice option" where
  "sl_of extent ptr count =
     (if extent \<noteq> dynamic_extent \<and> count \<noteq> extent then None
      else Some \<lparr>sl_data = ptr, sl_size = count\<rparr>)"

text \<open>A static assertion that fails does not compile, which is \<open>None\<close> too.\<close>

definition sl_of_array :: "usize \<Rightarrow> addr \<Rightarrow> usize \<Rightarrow> slice option" where
  "sl_of_array extent arr N =
     (if extent \<noteq> dynamic_extent \<and> N \<noteq> extent then None
      else Some \<lparr>sl_data = arr, sl_size = N\<rparr>)"

text \<open>
  From a pair of pointers: their difference in elements, which the language leaves undefined
  for pointers that are not a whole number of elements apart. A static extent is not tested here.
\<close>

definition sl_of_range :: "u64 \<Rightarrow> addr \<Rightarrow> addr \<Rightarrow> slice option" where
  "sl_of_range w p q =
     (if sint (q - p) mod uint w = 0
      then Some \<lparr>sl_data = p, sl_size = word_of_int (sint (q - p) div uint w)\<rparr> else None)"

text \<open>
  From an initializer list, whose size is not a constant the assertion could compare with a
  static extent.
\<close>

definition sl_of_list :: "usize \<Rightarrow> addr \<Rightarrow> usize \<Rightarrow> slice option" where
  "sl_of_list extent il_begin il_size =
     (if extent \<noteq> dynamic_extent then None else Some \<lparr>sl_data = il_begin, sl_size = il_size\<rparr>)"

text \<open>
  Assignment of a slice of the same type, whose assertion for a static extent always fails, and
  assignment and conversion of a slice of another type, with its own extent.
\<close>

definition sl_assign :: "usize \<Rightarrow> slice \<Rightarrow> slice \<Rightarrow> slice option" where
  "sl_assign extent s other =
     (if extent \<noteq> dynamic_extent then None
      else Some (s\<lparr>sl_data := sl_data other, sl_size := sl_size other\<rparr>))"

definition sl_assign_other :: "usize \<Rightarrow> usize \<Rightarrow> slice \<Rightarrow> slice \<Rightarrow> slice option" where
  "sl_assign_other extent other_extent s other =
     (if extent \<noteq> dynamic_extent \<and> (other_extent \<noteq> extent \<or> sl_size other \<noteq> extent) then None
      else Some (s\<lparr>sl_data := sl_data other, sl_size := sl_size other\<rparr>))"

definition sl_convert :: "usize \<Rightarrow> usize \<Rightarrow> slice \<Rightarrow> slice option" where
  "sl_convert extent other_extent other =
     (if extent = dynamic_extent \<or> other_extent = extent
      then Some \<lparr>sl_data = sl_data other, sl_size = sl_size other\<rparr> else None)"

definition sl_of_view :: "string_view \<Rightarrow> slice" where
  "sl_of_view sv = \<lparr>sl_data = m_data sv, sl_size = m_size sv\<rparr>"

definition sl_to_view :: "slice \<Rightarrow> string_view" where
  "sl_to_view s = sv_of (sl_data s) (sl_size s)"

definition sl_is_empty :: "slice \<Rightarrow> bool" where
  "sl_is_empty s = (sl_size s = 0)"

definition sl_at :: "(addr \<Rightarrow> 'a option) \<Rightarrow> u64 \<Rightarrow> slice \<Rightarrow> usize \<Rightarrow> 'a option" where
  "sl_at rd w s i = rd (sl_data s + i * w)"

definition sl_front :: "(addr \<Rightarrow> 'a option) \<Rightarrow> u64 \<Rightarrow> slice \<Rightarrow> 'a option" where
  "sl_front rd w s = sl_at rd w s 0"

definition sl_back :: "(addr \<Rightarrow> 'a option) \<Rightarrow> u64 \<Rightarrow> slice \<Rightarrow> 'a option" where
  "sl_back rd w s = sl_at rd w s (sl_size s - 1)"

definition sl_end :: "u64 \<Rightarrow> slice \<Rightarrow> addr" where
  "sl_end w s = sl_data s + sl_size s * w"

definition sl_subslice :: "u64 \<Rightarrow> usize \<Rightarrow> usize \<Rightarrow> slice \<Rightarrow> slice" where
  "sl_subslice w offset count s =
     (let avail = (if sl_size s > offset then sl_size s - offset else 0);
          len = (if count = dynamic_extent \<or> count > avail then avail else count)
      in \<lparr>sl_data = sl_data s + offset * w, sl_size = len\<rparr>)"

definition sl_first :: "u64 \<Rightarrow> usize \<Rightarrow> slice \<Rightarrow> slice" where
  "sl_first w n s = sl_subslice w 0 n s"

definition sl_last :: "u64 \<Rightarrow> usize \<Rightarrow> slice \<Rightarrow> slice" where
  "sl_last w n s = sl_subslice w (sl_size s - n) n s"

definition sl_remove_prefix :: "u64 \<Rightarrow> usize \<Rightarrow> slice \<Rightarrow> slice" where
  "sl_remove_prefix w n s =
     (let n = (if n > sl_size s then sl_size s else n)
      in s\<lparr>sl_data := sl_data s + n * w, sl_size := sl_size s - n\<rparr>)"

definition sl_remove_suffix :: "usize \<Rightarrow> slice \<Rightarrow> slice" where
  "sl_remove_suffix n s =
     (let n = (if n > sl_size s then sl_size s else n)
      in s\<lparr>sl_size := sl_size s - n\<rparr>)"

definition sl_as_bytes :: "u64 \<Rightarrow> slice \<Rightarrow> slice" where
  "sl_as_bytes w s = \<lparr>sl_data = sl_data s, sl_size = sl_size s * w\<rparr>"

function sl_eq_loop :: "(addr \<Rightarrow> 'a option) \<Rightarrow> u64 \<Rightarrow> slice \<Rightarrow> slice \<Rightarrow> usize \<Rightarrow> bool option" where
  "sl_eq_loop rd w a b i =
     (if i < sl_size a then do {
        x \<leftarrow> sl_at rd w a i;
        y \<leftarrow> sl_at rd w b i;
        if x \<noteq> y then Some False else sl_eq_loop rd w a b (i + 1)
      } else Some True)"
  by pat_completeness auto
termination
  by (relation "measure (\<lambda>(rd, w, a, b, i). unat (sl_size a) - unat i)")
    (simp_all add: count_up_less)

declare sl_eq_loop.simps [simp del]

definition sl_eq :: "(addr \<Rightarrow> 'a option) \<Rightarrow> u64 \<Rightarrow> slice \<Rightarrow> slice \<Rightarrow> bool option" where
  "sl_eq rd w a b = (if sl_size a \<noteq> sl_size b then Some False else sl_eq_loop rd w a b 0)"

subsection \<open>Static extents\<close>

text \<open>A slice with a static extent has that many elements.\<close>

definition extent_ok :: "usize \<Rightarrow> slice \<Rightarrow> bool" where
  "extent_ok extent s \<longleftrightarrow> extent = dynamic_extent \<or> sl_size s = extent"

text \<open>Construction with a count, from an array and from another slice keep that; so does assignment.\<close>

lemma extent_kept:
  "sl_of extent p n = Some s \<Longrightarrow> extent_ok extent s"
  "sl_of_array extent p n = Some s \<Longrightarrow> extent_ok extent s"
  "sl_of_list extent p n = Some s \<Longrightarrow> extent_ok extent s"
  "extent_ok other_extent t \<Longrightarrow> sl_convert extent other_extent t = Some s \<Longrightarrow> extent_ok extent s"
  "sl_assign extent r t = Some s \<Longrightarrow> extent_ok extent s"
  "sl_assign_other extent other_extent r t = Some s \<Longrightarrow> extent_ok extent s"
  by (auto simp: extent_ok_def sl_of_def sl_of_array_def sl_of_list_def sl_convert_def sl_assign_def
      sl_assign_other_def split: if_splits)

text \<open>The default constructor, a pair of pointers and the removals do not.\<close>

lemma extent_broken:
  assumes "extent \<noteq> dynamic_extent" and "extent \<noteq> 0"
  shows "\<not> extent_ok extent sl_empty" and "\<exists>s. sl_of_range 1 p p = Some s \<and> \<not> extent_ok extent s"
    and "extent_ok extent s \<Longrightarrow> \<not> extent_ok extent (sl_remove_prefix w 1 s)"
    and "extent_ok extent s \<Longrightarrow> \<not> extent_ok extent (sl_remove_suffix 1 s)"
  using assms
  by (auto simp: extent_ok_def sl_empty_def sl_of_range_def sl_remove_prefix_def sl_remove_suffix_def Let_def)

text \<open>A pair of pointers: \<open>begin\<close> and \<open>end\<close> of a slice give the slice back, up to 2^63 bytes.\<close>

lemma sl_of_range_ends:
  assumes "w \<noteq> 0" and "unat (sl_size s) * unat w < 2 ^ 63"
  shows "sl_of_range w (sl_data s) (sl_end w s) = Some s"
proof -
  have n: "uint (sl_size s) * uint w < 2 ^ 63"
  proof -
    have "int (unat (sl_size s) * unat w) < int (2 ^ 63)"
      using assms(2) by (simp only: of_nat_less_iff)
    then show ?thesis by (simp only: of_nat_mult uint_nat [symmetric] of_nat_power of_nat_numeral)
  qed
  have "uint (sl_size s * w) = uint (sl_size s) * uint w"
    using n by (simp add: uint_word_ariths)
  then have "sint (sl_size s * w) = uint (sl_size s) * uint w"
    using n signed_take_bit_int_eq_self [of 63 "uint (sl_size s) * uint w"]
    by (simp add: sint_uint order_trans [of _ 0])
  moreover have "uint w \<noteq> 0" using assms(1) by (simp add: uint_0_iff)
  ultimately show ?thesis by (simp add: sl_of_range_def sl_end_def)
qed

subsection \<open>The content of a slice\<close>

fun elems_at :: "(addr \<Rightarrow> 'a option) \<Rightarrow> u64 \<Rightarrow> addr \<Rightarrow> 'a list \<Rightarrow> bool" where
  "elems_at rd w p [] = True"
| "elems_at rd w p (x # xs) = (rd p = Some x \<and> elems_at rd w (p + w) xs)"

definition sl_elems :: "(addr \<Rightarrow> 'a option) \<Rightarrow> u64 \<Rightarrow> slice \<Rightarrow> 'a list \<Rightarrow> bool" where
  "sl_elems rd w s xs \<longleftrightarrow> elems_at rd w (sl_data s) xs \<and> unat (sl_size s) = length xs"

lemma elems_at_append:
  "elems_at rd w p (xs @ ys) \<longleftrightarrow>
     elems_at rd w p xs \<and> elems_at rd w (p + of_nat (length xs) * w) ys"
  by (induction xs arbitrary: p) (auto simp: algebra_simps)

lemma elems_at_nth:
  assumes "elems_at rd w p xs" and "i < length xs"
  shows "rd (p + of_nat i * w) = Some (xs ! i)"
proof -
  have "xs = take i xs @ xs ! i # drop (Suc i) xs" using assms(2) by (rule id_take_nth_drop)
  with assms have "elems_at rd w p (take i xs @ xs ! i # drop (Suc i) xs)" by simp
  then show ?thesis using assms(2) unfolding elems_at_append by simp
qed

lemma elems_at_take_drop:
  assumes "elems_at rd w p xs"
  shows "elems_at rd w (p + of_nat (min i (length xs)) * w) (take k (drop i xs))"
proof -
  have "xs = take i xs @ take k (drop i xs) @ drop k (drop i xs)"
    by (metis append_take_drop_id)
  with assms have "elems_at rd w p (take i xs @ take k (drop i xs) @ drop k (drop i xs))" by simp
  then show ?thesis unfolding elems_at_append by (simp add: min.commute)
qed

lemma sl_at_elems:
  "sl_elems rd w s xs \<Longrightarrow> unat i < length xs \<Longrightarrow> sl_at rd w s i = Some (xs ! unat i)"
  using elems_at_nth [of rd w "sl_data s" xs "unat i"]
  by (simp add: sl_elems_def sl_at_def of_nat_unat_64)

text \<open>An array of bytes is a slice of elements of size 1, and converts to a string view.\<close>

lemma elems_at_bytes: "elems_at m 1 p bs = bytes_at m p bs"
  by (induction bs arbitrary: p) auto

text \<open>An array of pointers is a run of little-endian words.\<close>

lemma elems_at_pointers:
  "bytes_at m p (concat (map (le_bytes 8) ps)) \<Longrightarrow> elems_at (read64 m) 8 p ps"
  by (induction ps arbitrary: p) (auto simp: bytes_at_append dest: read64_bytes)

lemma length_pointers: "length (concat (map (le_bytes 8) ps)) = 8 * length ps"
  by (induction ps) simp_all

lemma sl_to_view_content: "sl_elems m 1 s bs \<Longrightarrow> sv_bytes m (sl_to_view s) bs"
  by (simp add: sl_elems_def sv_bytes_def sl_to_view_def sv_of_def elems_at_bytes)

subsection \<open>Parts of a slice\<close>

lemma sl_subslice_elems:
  assumes "sl_elems rd w s xs"
  shows "sl_elems rd w (sl_subslice w off cnt s) (take (unat cnt) (drop (unat off) xs))"
proof -
  let ?avail = "if sl_size s > off then sl_size s - off else 0"
  have sz: "unat (sl_size s) = length xs" using assms by (simp add: sl_elems_def)
  have avail: "unat ?avail = length xs - unat off"
    using sz by (auto simp: word_less_nat_alt unat_sub word_le_nat_alt)
  have "length xs < 2 ^ 64" using sz unat_less_size [of "sl_size s"] by simp
  then have len: "unat (if cnt = dynamic_extent \<or> cnt > ?avail then ?avail else cnt)
      = min (unat cnt) (length xs - unat off)"
    using avail by (auto simp: dynamic_extent_def unat_size_max word_less_nat_alt)
  have "elems_at rd w (sl_data s + off * w) (take (unat cnt) (drop (unat off) xs))"
  proof (cases "unat off < length xs")
    case True
    then show ?thesis
      using assms elems_at_take_drop [of rd w "sl_data s" xs "unat off" "unat cnt"]
      by (simp add: sl_elems_def of_nat_unat_64)
  qed simp
  with len show ?thesis by (simp add: sl_elems_def sl_subslice_def Let_def min.commute)
qed

lemma sl_last_elems:
  assumes "sl_elems rd w s xs"
  shows "sl_elems rd w (sl_last w n s)
    (if unat n \<le> length xs then drop (length xs - unat n) xs else [])"
proof -
  have sz: "unat (sl_size s) = length xs" using assms by (simp add: sl_elems_def)
  note sub = sl_subslice_elems [OF assms, of "sl_size s - n" n]
  show ?thesis
  proof (cases "unat n \<le> length xs")
    case True
    then have "unat (sl_size s - n) = length xs - unat n"
      using sz by (simp add: unat_sub word_le_nat_alt)
    with True sub show ?thesis by (simp add: sl_last_def)
  next
    case False
    then have "unat (sl_size s - n) = 2 ^ 64 + length xs - unat n"
      using sz by (simp add: unat_sub_if_size word_size)
    then have "length xs \<le> unat (sl_size s - n)" using unat_less_size [of n] by simp
    with False sub show ?thesis by (simp add: sl_last_def)
  qed
qed

lemma sl_remove_prefix_elems:
  assumes "sl_elems rd w s xs"
  shows "sl_elems rd w (sl_remove_prefix w n s) (drop (unat n) xs)"
proof -
  have sz: "unat (sl_size s) = length xs" using assms by (simp add: sl_elems_def)
  define k where "k = (if n > sl_size s then sl_size s else n)"
  have k: "unat k = min (unat n) (length xs)"
    using sz by (auto simp: k_def word_less_nat_alt)
  have "unat (sl_size s - k) = length xs - unat n"
    using sz k by (simp add: unat_sub word_le_nat_alt min_def)
  moreover have "elems_at rd w (sl_data s + k * w) (drop (unat n) xs)"
    using assms elems_at_take_drop [of rd w "sl_data s" xs "unat n" "length xs"] k
      of_nat_unat_64 [of k] by (simp add: sl_elems_def)
  ultimately show ?thesis
    by (simp add: sl_elems_def sl_remove_prefix_def Let_def flip: k_def)
qed

lemma sl_remove_suffix_elems:
  assumes "sl_elems rd w s xs"
  shows "sl_elems rd w (sl_remove_suffix n s) (take (length xs - unat n) xs)"
proof -
  have sz: "unat (sl_size s) = length xs" using assms by (simp add: sl_elems_def)
  have "unat (sl_size s - (if n > sl_size s then sl_size s else n)) = length xs - unat n"
    using sz by (auto simp: word_less_nat_alt unat_sub word_le_nat_alt)
  moreover have "elems_at rd w (sl_data s) (take (length xs - unat n) xs)"
    using assms elems_at_take_drop [of rd w "sl_data s" xs 0 "length xs - unat n"]
    by (simp add: sl_elems_def)
  ultimately show ?thesis by (simp add: sl_elems_def sl_remove_suffix_def Let_def)
qed

text \<open>
  C13: The parts of a slice are the parts of its content: \<open>subslice\<close> and \<open>first\<close> clamp their
  arguments, the removals clamp, and \<open>last\<close> of more elements than there are is empty rather
  than the whole slice.
\<close>

theorem slice_parts_content:
  assumes "sl_elems rd w s xs"
  shows "sl_elems rd w (sl_subslice w off cnt s) (take (unat cnt) (drop (unat off) xs))
    \<and> sl_elems rd w (sl_first w n s) (take (unat n) xs)
    \<and> sl_elems rd w (sl_last w n s)
        (if unat n \<le> length xs then drop (length xs - unat n) xs else [])
    \<and> sl_elems rd w (sl_remove_prefix w n s) (drop (unat n) xs)
    \<and> sl_elems rd w (sl_remove_suffix n s) (take (length xs - unat n) xs)"
  using sl_subslice_elems [OF assms, of off cnt] sl_subslice_elems [OF assms, of 0 n]
    sl_last_elems [OF assms, of n] sl_remove_prefix_elems [OF assms, of n]
    sl_remove_suffix_elems [OF assms, of n]
  by (simp add: sl_first_def)

theorem slice_parts_content_witness:
  "sl_elems (put_bytes Map.empty 16 [65, 66, 67]) 1 (sl_last 1 2 \<lparr>sl_data = 16, sl_size = 3\<rparr>) [66, 67]"
  using slice_parts_content [of "put_bytes Map.empty 16 [65, 66, 67]" 1 "\<lparr>sl_data = 16, sl_size = 3\<rparr>"
      "[65, 66, 67]" 0 0 2]
  by (simp add: sl_elems_def)

subsection \<open>Equality\<close>

lemma sl_eq_loop_elems:
  assumes "sl_elems rd w a xs" and "sl_elems rd w b ys" and "length xs = length ys"
  shows "unat i \<le> length xs \<Longrightarrow>
    sl_eq_loop rd w a b i = Some (drop (unat i) xs = drop (unat i) ys)"
proof (induction "length xs - unat i" arbitrary: i)
  case 0
  then show ?case using assms
    by (subst sl_eq_loop.simps) (simp add: sl_elems_def word_less_nat_alt)
next
  case (Suc k)
  then have less: "unat i < length xs" by simp
  with assms have "i < sl_size a" by (simp add: sl_elems_def word_less_nat_alt)
  note i1 = unat_incr [OF this]
  have "drop (unat i) xs = xs ! unat i # drop (Suc (unat i)) xs"
    "drop (unat i) ys = ys ! unat i # drop (Suc (unat i)) ys"
    using less assms(3) by (simp_all add: Cons_nth_drop_Suc)
  moreover have "sl_at rd w a i = Some (xs ! unat i)" "sl_at rd w b i = Some (ys ! unat i)"
    using sl_at_elems [OF assms(1)] sl_at_elems [OF assms(2)] less assms(3) by auto
  moreover have "sl_eq_loop rd w a b (i + 1) =
      Some (drop (Suc (unat i)) xs = drop (Suc (unat i)) ys)"
    using Suc i1 less by (metis Suc_leI diff_Suc_eq_diff_pred diff_Suc_1 diff_Suc)
  ultimately show ?case using \<open>i < sl_size a\<close> by (subst sl_eq_loop.simps) simp
qed

text \<open>\<open>operator==\<close> of two slices decides the equality of their contents.\<close>

theorem sl_eq_decides:
  assumes "sl_elems rd w a xs" and "sl_elems rd w b ys"
  shows "sl_eq rd w a b = Some (xs = ys)"
proof (cases "length xs = length ys")
  case True
  with assms have "sl_size a = sl_size b" by (simp add: sl_elems_def word_unat_eq_iff)
  with sl_eq_loop_elems [OF assms True, of 0] show ?thesis by (simp add: sl_eq_def)
next
  case False
  with assms have "sl_size a \<noteq> sl_size b" by (auto simp: sl_elems_def)
  with False show ?thesis by (auto simp: sl_eq_def)
qed

theorem sl_eq_decides_witness:
  "sl_eq (put_bytes Map.empty 16 [65, 66, 65, 66]) 1 \<lparr>sl_data = 16, sl_size = 2\<rparr> \<lparr>sl_data = 18, sl_size = 2\<rparr>
     = Some True"
  using sl_eq_decides [of "put_bytes Map.empty 16 [65, 66, 65, 66]" 1 "\<lparr>sl_data = 16, sl_size = 2\<rparr>" "[65, 66]"
      "\<lparr>sl_data = 18, sl_size = 2\<rparr>" "[65, 66]"]
  by (simp add: sl_elems_def)

text \<open>The size in bytes is a product of 64 bits and can wrap around.\<close>

lemma sl_as_bytes_size:
  "unat (sl_size s) * unat w < 2 ^ 64 \<Longrightarrow>
     unat (sl_size (sl_as_bytes w s)) = unat (sl_size s) * unat w"
  by (simp add: sl_as_bytes_def unat_word_ariths)

end
