(* ===== verification/Limine.thy ===== *)
theory Limine
  imports Slice
begin

text \<open>
  The boot loader's answers (\<^verbatim>\<open>core/limine.hh\<close>): one class per request, whose static member
  \<^verbatim>\<open>request\<close> the boot loader finds in the image and whose \<^verbatim>\<open>response\<close> pointer it fills in.

  A request is a \<open>limine_request\<close>; \<open>response\<close> is \<open>None\<close> while the pointer is null. An
  accessor of value \<open>None\<close> faults: it dereferenced a null or unmapped pointer. The classes
  down to \<open>ExecutableAddressInfo\<close>, and \<open>HHDM\<close>, test the pointer first; \<open>ModuleList\<close> and the
  classes after \<open>ExecutableAddressInfo\<close> do not.

  The protocol's own header is not part of the sources: a response holds the fields the
  accessors read, the structures behind its pointers are read by an argument \<open>rd\<close>, and the
  protocol's constants are arguments. The preprocessor's \<^verbatim>\<open>LIMINE_API_REVISION\<close> is the
  argument \<open>api\<close>. The whole file is inside \<^verbatim>\<open>#if 0\<close> at this commit.
\<close>

datatype limine_id =
    LIMINE_BOOTLOADER_INFO_REQUEST | LIMINE_EXECUTABLE_CMDLINE_REQUEST
  | LIMINE_FIRMWARE_TYPE_REQUEST | LIMINE_FRAMEBUFFER_REQUEST | LIMINE_MEMMAP_REQUEST
  | LIMINE_MODULE_REQUEST | LIMINE_EXECUTABLE_FILE_REQUEST | LIMINE_KERNEL_FILE_REQUEST
  | LIMINE_EXECUTABLE_ADDRESS_REQUEST | LIMINE_KERNEL_ADDRESS_REQUEST
  | LIMINE_EFI_SYSTEM_TABLE_REQUEST | LIMINE_EFI_MEMMAP_REQUEST | LIMINE_RSDP_REQUEST
  | LIMINE_SMBIOS_REQUEST | LIMINE_DATE_AT_BOOT_REQUEST | LIMINE_BOOT_TIME_REQUEST
  | LIMINE_HHDM_REQUEST

record 'r limine_request =
  req_id :: limine_id
  req_revision :: u64
  response :: "'r option"

text \<open>A request as the image holds it, before the boot loader answers.\<close>

definition limine_ask :: "limine_id \<Rightarrow> u64 \<Rightarrow> 'r limine_request" where
  "limine_ask i api = \<lparr>req_id = i, req_revision = api, response = None\<rparr>"

text \<open>The boot loader answers a request.\<close>

definition limine_answer :: "'r \<Rightarrow> 'r limine_request \<Rightarrow> 'r limine_request" where
  "limine_answer r q = q\<lparr>response := Some r\<rparr>"

text \<open>A C string of a response, as a view: \<^verbatim>\<open>{ p, __builtin_strlen(p) }\<close>.\<close>

definition view_of :: "mem \<Rightarrow> addr \<Rightarrow> string_view option" where
  "view_of m p = do { n \<leftarrow> strlen m p; Some (sv_of p n) }"

subsection \<open>\<open>BootloaderInfo\<close> and \<open>ExecutableCmdline\<close>\<close>

record bootloader_info =
  bi_revision :: u64
  bi_name :: addr
  bi_version :: addr

definition bootloader_request :: "u64 \<Rightarrow> bootloader_info limine_request" where
  "bootloader_request api = limine_ask LIMINE_BOOTLOADER_INFO_REQUEST api"

definition bootloader_available :: "bootloader_info limine_request \<Rightarrow> bool" where
  "bootloader_available q = (case response q of None \<Rightarrow> False | Some r \<Rightarrow> bi_revision r \<noteq> 0)"

definition bootloader_name :: "mem \<Rightarrow> bootloader_info limine_request \<Rightarrow> string_view option" where
  "bootloader_name m q =
     (if \<not> bootloader_available q then Some sv_empty
      else do { r \<leftarrow> response q; view_of m (bi_name r) })"

definition bootloader_version :: "mem \<Rightarrow> bootloader_info limine_request \<Rightarrow> string_view option" where
  "bootloader_version m q =
     (if \<not> bootloader_available q then Some sv_empty
      else do { r \<leftarrow> response q; view_of m (bi_version r) })"

record cmdline_response =
  cl_revision :: u64
  cl_cmdline :: addr

definition cmdline_request :: "u64 \<Rightarrow> cmdline_response limine_request" where
  "cmdline_request api = limine_ask LIMINE_EXECUTABLE_CMDLINE_REQUEST api"

definition cmdline_available :: "cmdline_response limine_request \<Rightarrow> bool" where
  "cmdline_available q = (case response q of None \<Rightarrow> False | Some r \<Rightarrow> cl_revision r \<noteq> 0)"

definition cmdline :: "mem \<Rightarrow> cmdline_response limine_request \<Rightarrow> string_view option" where
  "cmdline m q =
     (if \<not> cmdline_available q then Some sv_empty
      else do { r \<leftarrow> response q; view_of m (cl_cmdline r) })"

subsection \<open>\<open>FirmwareType\<close>\<close>

record firmware_response =
  fw_revision :: u64
  fw_type :: u64

text \<open>The values of \<^verbatim>\<open>LIMINE_FIRMWARE_TYPE_*\<close>.\<close>

record firmware_consts =
  X86BIOS :: u64
  UEFI32 :: u64
  UEFI64 :: u64
  SBI :: u64

definition firmware_request :: "u64 \<Rightarrow> firmware_response limine_request" where
  "firmware_request api = limine_ask LIMINE_FIRMWARE_TYPE_REQUEST api"

definition firmware_available :: "firmware_response limine_request \<Rightarrow> bool" where
  "firmware_available q = (case response q of None \<Rightarrow> False | Some r \<Rightarrow> fw_revision r \<noteq> 0)"

definition firmware_type :: "firmware_response limine_request \<Rightarrow> u64 option" where
  "firmware_type q =
     (if \<not> firmware_available q then Some (- 1) else do { r \<leftarrow> response q; Some (fw_type r) })"

definition firmware_name :: "firmware_consts \<Rightarrow> u64 \<Rightarrow> string" where
  "firmware_name c t =
     (if t = X86BIOS c then ''x86 BIOS''
      else if t = UEFI32 c then ''UEFI (32-bit)''
      else if t = UEFI64 c then ''UEFI (64-bit)''
      else if t = SBI c then ''SBI (RISC-V)''
      else ''Unknown'')"

text \<open>The literals lie where the argument \<open>lit\<close> says.\<close>

definition firmware_asString ::
  "mem \<Rightarrow> (string \<Rightarrow> addr) \<Rightarrow> firmware_consts \<Rightarrow> firmware_response limine_request \<Rightarrow> string_view option"
where
  "firmware_asString m lit c q =
     (if \<not> firmware_available q then Some sv_empty
      else do { r \<leftarrow> response q; sv_of_cstr m (lit (firmware_name c (fw_type r))) })"

subsection \<open>\<open>Framebuffer\<close>\<close>

record framebuffer =
  fb_address :: addr
  fb_width :: u64
  fb_height :: u64
  fb_pitch :: u64
  fb_bpp :: u16
  fb_memory_model :: u8
  fb_mode_count :: u64
  fb_modes :: addr

record framebuffer_response =
  fbr_revision :: u64
  fbr_count :: u64
  fbr_framebuffers :: addr

definition framebuffer_request :: "u64 \<Rightarrow> framebuffer_response limine_request" where
  "framebuffer_request api = limine_ask LIMINE_FRAMEBUFFER_REQUEST api"

definition framebuffer_available :: "framebuffer_response limine_request \<Rightarrow> bool" where
  "framebuffer_available q =
     (case response q of None \<Rightarrow> False | Some r \<Rightarrow> fbr_revision r \<noteq> 0 \<and> fbr_count r > 0)"

definition framebufferCount :: "framebuffer_response limine_request \<Rightarrow> usize option" where
  "framebufferCount q =
     (if \<not> framebuffer_available q then Some 0 else do { r \<leftarrow> response q; Some (fbr_count r) })"

definition framebuffers :: "framebuffer_response limine_request \<Rightarrow> slice option" where
  "framebuffers q =
     (if \<not> framebuffer_available q then Some sl_empty
      else do { r \<leftarrow> response q; sl_of dynamic_extent (fbr_framebuffers r) (fbr_count r) })"

text \<open>The struct \<^verbatim>\<open>FB\<close> is the pointer it wraps.\<close>

definition framebufferAt :: "mem \<Rightarrow> framebuffer_response limine_request \<Rightarrow> usize \<Rightarrow> addr option" where
  "framebufferAt m q idx = do {
     n \<leftarrow> framebufferCount q;
     if idx \<ge> n then Some nullptr
     else do { r \<leftarrow> response q; read64 m (fbr_framebuffers r + idx * 8) }
   }"

definition FB_width :: "(addr \<Rightarrow> framebuffer option) \<Rightarrow> addr \<Rightarrow> usize option" where
  "FB_width rd fb = do { f \<leftarrow> rd fb; Some (fb_width f) }"

definition FB_height :: "(addr \<Rightarrow> framebuffer option) \<Rightarrow> addr \<Rightarrow> usize option" where
  "FB_height rd fb = do { f \<leftarrow> rd fb; Some (fb_height f) }"

definition FB_pitch :: "(addr \<Rightarrow> framebuffer option) \<Rightarrow> addr \<Rightarrow> usize option" where
  "FB_pitch rd fb = do { f \<leftarrow> rd fb; Some (fb_pitch f) }"

definition FB_bpp :: "(addr \<Rightarrow> framebuffer option) \<Rightarrow> addr \<Rightarrow> u16 option" where
  "FB_bpp rd fb = do { f \<leftarrow> rd fb; Some (fb_bpp f) }"

definition FB_model :: "(addr \<Rightarrow> framebuffer option) \<Rightarrow> addr \<Rightarrow> u8 option" where
  "FB_model rd fb = do { f \<leftarrow> rd fb; Some (fb_memory_model f) }"

definition FB_address :: "(addr \<Rightarrow> framebuffer option) \<Rightarrow> addr \<Rightarrow> addr option" where
  "FB_address rd fb = do { f \<leftarrow> rd fb; Some (fb_address f) }"

definition FB_asBytes :: "(addr \<Rightarrow> framebuffer option) \<Rightarrow> addr \<Rightarrow> slice option" where
  "FB_asBytes rd fb = do {
     f \<leftarrow> rd fb;
     sl_of dynamic_extent (fb_address f) (fb_height f * fb_pitch f)
   }"

definition FB_modeCount :: "(addr \<Rightarrow> framebuffer option) \<Rightarrow> addr \<Rightarrow> usize option" where
  "FB_modeCount rd fb = do { f \<leftarrow> rd fb; Some (fb_mode_count f) }"

definition FB_modes :: "(addr \<Rightarrow> framebuffer option) \<Rightarrow> addr \<Rightarrow> slice option" where
  "FB_modes rd fb = do { f \<leftarrow> rd fb; sl_of dynamic_extent (fb_modes f) (fb_mode_count f) }"

subsection \<open>\<open>MemoryMap\<close> and \<open>ModuleList\<close>\<close>

record memmap_response =
  mm_revision :: u64
  mm_entry_count :: u64
  mm_entries :: addr

definition memmap_request :: "u64 \<Rightarrow> memmap_response limine_request" where
  "memmap_request api = limine_ask LIMINE_MEMMAP_REQUEST api"

definition memmap_available :: "memmap_response limine_request \<Rightarrow> bool" where
  "memmap_available q =
     (case response q of None \<Rightarrow> False | Some r \<Rightarrow> mm_revision r \<noteq> 0 \<and> mm_entry_count r > 0)"

definition entryCount :: "memmap_response limine_request \<Rightarrow> usize option" where
  "entryCount q =
     (if \<not> memmap_available q then Some 0 else do { r \<leftarrow> response q; Some (mm_entry_count r) })"

definition memmap_entries :: "memmap_response limine_request \<Rightarrow> slice option" where
  "memmap_entries q =
     (if \<not> memmap_available q then Some sl_empty
      else do { r \<leftarrow> response q; sl_of dynamic_extent (mm_entries r) (mm_entry_count r) })"

definition entryAt :: "mem \<Rightarrow> memmap_response limine_request \<Rightarrow> usize \<Rightarrow> addr option" where
  "entryAt m q idx =
     (if \<not> memmap_available q then Some nullptr
      else do {
        n \<leftarrow> entryCount q;
        if idx \<ge> n then Some nullptr
        else do { r \<leftarrow> response q; read64 m (mm_entries r + idx * 8) }
      })"

record module_response =
  ml_revision :: u64
  ml_module_count :: u64
  ml_modules :: addr

definition module_request :: "u64 \<Rightarrow> module_response limine_request" where
  "module_request api = limine_ask LIMINE_MODULE_REQUEST api"

definition module_available :: "module_response limine_request \<Rightarrow> bool option" where
  "module_available q = do { r \<leftarrow> response q; Some (ml_revision r \<noteq> 0 \<and> ml_module_count r > 0) }"

definition moduleCount :: "module_response limine_request \<Rightarrow> usize option" where
  "moduleCount q = do {
     av \<leftarrow> module_available q;
     if \<not> av then Some 0 else do { r \<leftarrow> response q; Some (ml_module_count r) }
   }"

definition modules :: "module_response limine_request \<Rightarrow> slice option" where
  "modules q = do {
     av \<leftarrow> module_available q;
     if \<not> av then Some sl_empty
     else do { r \<leftarrow> response q; sl_of dynamic_extent (ml_modules r) (ml_module_count r) }
   }"

definition moduleAt :: "mem \<Rightarrow> module_response limine_request \<Rightarrow> usize \<Rightarrow> addr option" where
  "moduleAt m q idx = do {
     n \<leftarrow> moduleCount q;
     if idx \<ge> n then Some nullptr
     else do { r \<leftarrow> response q; read64 m (ml_modules r + idx * 8) }
   }"

subsection \<open>\<open>ExecutableFileInfo\<close> and \<open>ExecutableAddressInfo\<close>\<close>

record limine_file =
  file_path :: addr
  file_string :: addr

record exec_file_response =
  ef_revision :: u64
  ef_file :: addr

definition exec_file_request :: "u64 \<Rightarrow> exec_file_response limine_request" where
  "exec_file_request api =
     limine_ask (if api \<ge> 2 then LIMINE_EXECUTABLE_FILE_REQUEST else LIMINE_KERNEL_FILE_REQUEST) api"

text \<open>\<^verbatim>\<open>file()\<close> dereferences the response without a test.\<close>

definition exec_file :: "exec_file_response limine_request \<Rightarrow> addr option" where
  "exec_file q = do { r \<leftarrow> response q; Some (ef_file r) }"

definition exec_file_available :: "exec_file_response limine_request \<Rightarrow> bool option" where
  "exec_file_available q = (case response q of
     None \<Rightarrow> Some False
   | Some r \<Rightarrow>
       if ef_revision r = 0 then Some False
       else do { f \<leftarrow> exec_file q; Some (f \<noteq> nullptr) })"

definition exec_file_path ::
  "mem \<Rightarrow> (addr \<Rightarrow> limine_file option) \<Rightarrow> exec_file_response limine_request \<Rightarrow> string_view option"
where
  "exec_file_path m rd q = do {
     av \<leftarrow> exec_file_available q;
     if \<not> av then Some sv_empty
     else do { p \<leftarrow> exec_file q; f \<leftarrow> rd p; view_of m (file_path f) }
   }"

text \<open>\<^verbatim>\<open>string()\<close> from API revision 3 on.\<close>

definition exec_file_string ::
  "mem \<Rightarrow> (addr \<Rightarrow> limine_file option) \<Rightarrow> exec_file_response limine_request \<Rightarrow> string_view option"
where
  "exec_file_string m rd q = do {
     av \<leftarrow> exec_file_available q;
     if \<not> av then Some sv_empty
     else do { p \<leftarrow> exec_file q; f \<leftarrow> rd p; view_of m (file_string f) }
   }"

record exec_address_response =
  ea_revision :: u64
  ea_physical_base :: u64
  ea_virtual_base :: u64

definition exec_address_request :: "u64 \<Rightarrow> exec_address_response limine_request" where
  "exec_address_request api =
     limine_ask (if api \<ge> 2 then LIMINE_EXECUTABLE_ADDRESS_REQUEST
                 else LIMINE_KERNEL_ADDRESS_REQUEST) api"

definition exec_address_available :: "exec_address_response limine_request \<Rightarrow> bool" where
  "exec_address_available q = (case response q of None \<Rightarrow> False | Some r \<Rightarrow> ea_revision r \<noteq> 0)"

definition physicalBase :: "exec_address_response limine_request \<Rightarrow> u64 option" where
  "physicalBase q =
     (if \<not> exec_address_available q then Some 0
      else do { r \<leftarrow> response q; Some (ea_physical_base r) })"

definition virtualBase :: "exec_address_response limine_request \<Rightarrow> u64 option" where
  "virtualBase q =
     (if \<not> exec_address_available q then Some 0
      else do { r \<leftarrow> response q; Some (ea_virtual_base r) })"

subsection \<open>The firmware tables\<close>

record efi_system_table_response =
  es_revision :: u64
  es_address :: u64

record efi_memmap_response =
  em_revision :: u64
  em_memmap :: addr
  em_memmap_size :: u64
  em_desc_size :: u64
  em_desc_version :: u64

definition efi_sys_request :: "u64 \<Rightarrow> efi_system_table_response limine_request" where
  "efi_sys_request api = limine_ask LIMINE_EFI_SYSTEM_TABLE_REQUEST api"

definition efi_mem_request :: "u64 \<Rightarrow> efi_memmap_response limine_request" where
  "efi_mem_request api = limine_ask LIMINE_EFI_MEMMAP_REQUEST api"

definition systemTableAvailable :: "efi_system_table_response limine_request \<Rightarrow> bool option" where
  "systemTableAvailable q = do { r \<leftarrow> response q; Some (es_revision r \<noteq> 0) }"

definition efiSystemTableAddress :: "efi_system_table_response limine_request \<Rightarrow> u64 option" where
  "efiSystemTableAddress q = do { r \<leftarrow> response q; Some (es_address r) }"

definition memmapAvailable :: "efi_memmap_response limine_request \<Rightarrow> bool option" where
  "memmapAvailable q = do { r \<leftarrow> response q; Some (em_revision r \<noteq> 0) }"

definition efiMemmapAddress :: "efi_memmap_response limine_request \<Rightarrow> addr option" where
  "efiMemmapAddress q = do { r \<leftarrow> response q; Some (em_memmap r) }"

definition efiMemmapSize :: "efi_memmap_response limine_request \<Rightarrow> u64 option" where
  "efiMemmapSize q = do { r \<leftarrow> response q; Some (em_memmap_size r) }"

definition efiDescSize :: "efi_memmap_response limine_request \<Rightarrow> u64 option" where
  "efiDescSize q = do { r \<leftarrow> response q; Some (em_desc_size r) }"

definition efiDescVersion :: "efi_memmap_response limine_request \<Rightarrow> u64 option" where
  "efiDescVersion q = do { r \<leftarrow> response q; Some (em_desc_version r) }"

record rsdp_response =
  rs_revision :: u64
  rs_address :: u64

definition rsdp_request :: "u64 \<Rightarrow> rsdp_response limine_request" where
  "rsdp_request api = limine_ask LIMINE_RSDP_REQUEST api"

definition rsdp_available :: "rsdp_response limine_request \<Rightarrow> bool option" where
  "rsdp_available q = do { r \<leftarrow> response q; Some (rs_revision r \<noteq> 0) }"

definition rsdp_address :: "rsdp_response limine_request \<Rightarrow> u64 option" where
  "rsdp_address q = do { r \<leftarrow> response q; Some (rs_address r) }"

record smbios_response =
  sm_revision :: u64
  sm_entry_32 :: u64
  sm_entry_64 :: u64

definition smbios_request :: "u64 \<Rightarrow> smbios_response limine_request" where
  "smbios_request api = limine_ask LIMINE_SMBIOS_REQUEST api"

definition smbios_available :: "smbios_response limine_request \<Rightarrow> bool option" where
  "smbios_available q = do { r \<leftarrow> response q; Some (sm_revision r \<noteq> 0) }"

definition entry32 :: "smbios_response limine_request \<Rightarrow> u64 option" where
  "entry32 q = do { r \<leftarrow> response q; Some (sm_entry_32 r) }"

definition entry64 :: "smbios_response limine_request \<Rightarrow> u64 option" where
  "entry64 q = do { r \<leftarrow> response q; Some (sm_entry_64 r) }"

subsection \<open>\<open>BootTime\<close> and \<open>HHDM\<close>\<close>

text \<open>The field is called \<^verbatim>\<open>timestamp\<close> from API revision 3 on, \<^verbatim>\<open>boot_time\<close> before.\<close>

record boot_time_response =
  bt_revision :: u64
  bt_time :: u64

definition boot_time_request :: "u64 \<Rightarrow> boot_time_response limine_request" where
  "boot_time_request api =
     limine_ask (if api \<ge> 3 then LIMINE_DATE_AT_BOOT_REQUEST else LIMINE_BOOT_TIME_REQUEST) api"

definition boot_time_available :: "boot_time_response limine_request \<Rightarrow> bool option" where
  "boot_time_available q = do { r \<leftarrow> response q; Some (bt_revision r \<noteq> 0) }"

definition timestamp :: "boot_time_response limine_request \<Rightarrow> int option" where
  "timestamp q = do { r \<leftarrow> response q; Some (sint (bt_time r)) }"

record hhdm_response =
  hh_revision :: u64
  hh_offset :: u64

definition hhdm_request :: "u64 \<Rightarrow> hhdm_response limine_request" where
  "hhdm_request api = limine_ask LIMINE_HHDM_REQUEST api"

definition hhdm_available :: "hhdm_response limine_request \<Rightarrow> bool" where
  "hhdm_available q = (case response q of None \<Rightarrow> False | Some r \<Rightarrow> hh_revision r \<noteq> 0)"

definition HHDM_offset :: "hhdm_response limine_request \<Rightarrow> u64 option" where
  "HHDM_offset q =
     (if \<not> hhdm_available q then Some 0 else do { r \<leftarrow> response q; Some (hh_offset r) })"

end
