(* ===== verification/LimineProps.thy ===== *)
theory LimineProps
  imports Limine
begin

text \<open>
  Properties of the boot loader interface: the tables of pointers behind \<open>Framebuffer\<close>,
  \<open>MemoryMap\<close> and \<open>ModuleList\<close> share the contract \<open>boot_table\<close>; the accessors of strings
  denote the strings of the response; an unanswered request yields the accessors' defaults
  where the class tests the pointer, and a fault where it does not.
\<close>

named_theorems limine_defs \<open>the accessors of the boot loader interface\<close>

lemmas guarded_defs [limine_defs] =
  bootloader_available_def bootloader_name_def bootloader_version_def
  cmdline_available_def cmdline_def firmware_available_def firmware_type_def
  firmware_asString_def framebuffer_available_def framebufferCount_def framebuffers_def
  framebufferAt_def memmap_available_def entryCount_def memmap_entries_def entryAt_def
  exec_file_available_def exec_file_path_def exec_file_string_def
  exec_address_available_def physicalBase_def virtualBase_def hhdm_available_def HHDM_offset_def

lemmas unguarded_defs [limine_defs] =
  module_available_def moduleCount_def modules_def moduleAt_def exec_file_def
  systemTableAvailable_def efiSystemTableAddress_def memmapAvailable_def efiMemmapAddress_def
  efiMemmapSize_def efiDescSize_def efiDescVersion_def rsdp_available_def rsdp_address_def
  smbios_available_def entry32_def entry64_def boot_time_available_def timestamp_def

lemmas request_defs [limine_defs] =
  limine_ask_def bootloader_request_def cmdline_request_def firmware_request_def
  framebuffer_request_def memmap_request_def module_request_def exec_file_request_def
  exec_address_request_def efi_sys_request_def efi_mem_request_def rsdp_request_def
  smbios_request_def boot_time_request_def hhdm_request_def

lemma sl_of_dynamic [simp]: "sl_of dynamic_extent p n = Some \<lparr>sl_data = p, sl_size = n\<rparr>"
  by (simp add: sl_of_def)

subsection \<open>Tables of pointers\<close>

text \<open>
  Three classes offer the same interface: a count, a slice of pointers, and an access by
  index that answers null outside the table. The loops over a table rely on these laws.
\<close>

locale boot_table =
  fixes count :: "'q \<Rightarrow> usize option"
    and arr :: "'q \<Rightarrow> slice option"
    and at :: "mem \<Rightarrow> 'q \<Rightarrow> usize \<Rightarrow> addr option"
  assumes count_arr: "count q = map_option sl_size (arr q)"
    and at_beyond: "count q = Some n \<Longrightarrow> n \<le> i \<Longrightarrow> at m q i = Some nullptr"
    and at_within: "arr q = Some s \<Longrightarrow> i < sl_size s \<Longrightarrow> at m q i = sl_at (read64 m) 8 s i"
begin

lemma count_elems:
  "arr q = Some s \<Longrightarrow> sl_elems (read64 m) 8 s ps \<Longrightarrow>
     \<exists>n. count q = Some n \<and> unat n = length ps"
  by (simp add: count_arr sl_elems_def)

lemma at_elems:
  assumes "arr q = Some s" and "sl_elems (read64 m) 8 s ps"
  shows "at m q i = Some (if unat i < length ps then ps ! unat i else nullptr)"
proof (cases "i < sl_size s")
  case True
  then have "unat i < length ps" using assms(2) by (simp add: sl_elems_def word_less_nat_alt)
  with assms True show ?thesis by (simp add: at_within sl_at_elems)
next
  case False
  then have "\<not> unat i < length ps" using assms(2) by (simp add: sl_elems_def word_less_nat_alt)
  with assms False show ?thesis by (simp add: at_beyond [of q "sl_size s"] count_arr)
qed

end

interpretation framebuffer_table: boot_table framebufferCount framebuffers framebufferAt
  by unfold_locales
    (auto simp: framebufferCount_def framebuffers_def framebufferAt_def framebuffer_available_def
       sl_empty_def sl_at_def split: option.splits if_splits)

interpretation memmap_table: boot_table entryCount memmap_entries entryAt
  by unfold_locales
    (auto simp: entryCount_def memmap_entries_def entryAt_def memmap_available_def
       sl_empty_def sl_at_def split: option.splits if_splits)

interpretation module_table: boot_table moduleCount modules moduleAt
proof unfold_locales
  fix q :: "module_response limine_request" and s n i m
  show "moduleCount q = map_option sl_size (modules q)"
    by (cases "response q") (auto simp: moduleCount_def modules_def module_available_def sl_empty_def)
  show "moduleCount q = Some n \<Longrightarrow> n \<le> i \<Longrightarrow> moduleAt m q i = Some nullptr"
    by (simp add: moduleAt_def)
  show "modules q = Some s \<Longrightarrow> i < sl_size s \<Longrightarrow> moduleAt m q i = sl_at (read64 m) 8 s i"
    by (cases "response q")
      (auto simp: moduleCount_def modules_def moduleAt_def module_available_def sl_at_def sl_empty_def
         split: if_splits)
qed

text \<open>
  In each of the three tables the access by index yields exactly the pointers of the
  slice, in order, and null outside it.
\<close>

theorem boot_tables_index:
  assumes "framebuffers qf = Some sf" and "sl_elems (read64 m) 8 sf fs"
    and "memmap_entries qm = Some sm" and "sl_elems (read64 m) 8 sm es"
    and "modules ql = Some sl" and "sl_elems (read64 m) 8 sl ls"
  shows "framebufferAt m qf i = Some (if unat i < length fs then fs ! unat i else nullptr)
    \<and> entryAt m qm i = Some (if unat i < length es then es ! unat i else nullptr)
    \<and> moduleAt m ql i = Some (if unat i < length ls then ls ! unat i else nullptr)"
  by (intro conjI framebuffer_table.at_elems [OF assms(1,2)] memmap_table.at_elems [OF assms(3,4)]
      module_table.at_elems [OF assms(5,6)])

theorem boot_tables_index_witness:
  "entryAt (put_bytes Map.empty 16 (le_bytes 8 0x5000))
     \<lparr>req_id = LIMINE_MEMMAP_REQUEST, req_revision = 3,
      response = Some \<lparr>mm_revision = 1, mm_entry_count = 1, mm_entries = 16\<rparr>\<rparr> 0 = Some 0x5000"
proof -
  let ?m = "put_bytes Map.empty 16 (le_bytes 8 0x5000)" and ?s = "\<lparr>sl_data = 16, sl_size = 1\<rparr>"
  have "read64 ?m 16 = Some 0x5000"
    by (rule read64_bytes) (simp add: bytes_at_put_bytes)
  then have "sl_elems (read64 ?m) 8 ?s [0x5000]" by (simp add: sl_elems_def)
  then show ?thesis
    using boot_tables_index
      [of "\<lparr>req_id = LIMINE_FRAMEBUFFER_REQUEST, req_revision = 3,
           response = Some \<lparr>fbr_revision = 1, fbr_count = 1, fbr_framebuffers = 16\<rparr>\<rparr>" ?s ?m "[0x5000]"
         "\<lparr>req_id = LIMINE_MEMMAP_REQUEST, req_revision = 3,
           response = Some \<lparr>mm_revision = 1, mm_entry_count = 1, mm_entries = 16\<rparr>\<rparr>" ?s "[0x5000]"
         "\<lparr>req_id = LIMINE_MODULE_REQUEST, req_revision = 3,
           response = Some \<lparr>ml_revision = 1, ml_module_count = 1, ml_modules = 16\<rparr>\<rparr>" ?s "[0x5000]" 0]
    by (simp add: framebuffers_def framebuffer_available_def memmap_entries_def memmap_available_def
        modules_def module_available_def)
qed

subsection \<open>Strings\<close>

lemma view_of_content:
  assumes "cstr_at m p cs"
  shows "\<exists>v. view_of m p = Some v \<and> m_data v = p \<and> sv_bytes m v cs"
proof -
  have "bytes_at m p cs" using assms by (simp add: cstr_at_def bytes_at_append)
  with assms show ?thesis
    using cstr_at_length [OF assms] strlen_correct [OF assms]
    by (simp add: view_of_def sv_of_def sv_bytes_def unat_of_nat_64)
qed

lemma bootloader_strings:
  assumes "bootloader_available q" and "response q = Some r"
    and "cstr_at m (bi_name r) ns" and "cstr_at m (bi_version r) vs"
  shows "\<exists>v w. bootloader_name m q = Some v \<and> sv_bytes m v ns
    \<and> bootloader_version m q = Some w \<and> sv_bytes m w vs"
  using assms view_of_content [OF assms(3)] view_of_content [OF assms(4)]
  by (auto simp: bootloader_name_def bootloader_version_def)

lemma cmdline_string:
  "cmdline_available q \<Longrightarrow> response q = Some r \<Longrightarrow> cstr_at m (cl_cmdline r) cs \<Longrightarrow>
     \<exists>v. cmdline m q = Some v \<and> sv_bytes m v cs"
  using view_of_content [of m "cl_cmdline r" cs] by (auto simp: cmdline_def)

lemma exec_file_strings:
  assumes "exec_file_available q = Some True" and "response q = Some r" and "rd (ef_file r) = Some f"
    and "cstr_at m (file_path f) ps" and "cstr_at m (file_string f) cs"
  shows "\<exists>v w. exec_file_path m rd q = Some v \<and> sv_bytes m v ps
    \<and> exec_file_string m rd q = Some w \<and> sv_bytes m w cs"
  using assms view_of_content [OF assms(4)] view_of_content [OF assms(5)]
  by (auto simp: exec_file_path_def exec_file_string_def exec_file_def)

lemma firmware_string:
  "firmware_available q \<Longrightarrow> response q = Some r \<Longrightarrow>
     cstr_at m (lit (firmware_name c (fw_type r))) cs \<Longrightarrow>
   \<exists>v. firmware_asString m lit c q = Some v \<and> sv_bytes m v cs"
  using sv_of_cstr_bytes [of m "lit (firmware_name c (fw_type r))" cs]
  by (auto simp: firmware_asString_def)

subsection \<open>Requests without an answer\<close>

text \<open>
  While the response pointer is null, every accessor of a class that tests it answers its
  default, and every accessor of the other classes faults, \<open>available\<close> included.
\<close>

lemma limine_unanswered:
  "bootloader_name m (bootloader_request api) = Some sv_empty
   \<and> bootloader_version m (bootloader_request api) = Some sv_empty
   \<and> cmdline m (cmdline_request api) = Some sv_empty
   \<and> firmware_type (firmware_request api) = Some (- 1)
   \<and> framebufferCount (framebuffer_request api) = Some 0
   \<and> framebufferAt m (framebuffer_request api) i = Some nullptr
   \<and> entryCount (memmap_request api) = Some 0
   \<and> entryAt m (memmap_request api) i = Some nullptr
   \<and> exec_file_path m rd (exec_file_request api) = Some sv_empty
   \<and> physicalBase (exec_address_request api) = Some 0
   \<and> virtualBase (exec_address_request api) = Some 0
   \<and> HHDM_offset (hhdm_request api) = Some 0
   \<and> exec_file (exec_file_request api) = None
   \<and> moduleCount (module_request api) = None
   \<and> systemTableAvailable (efi_sys_request api) = None
   \<and> memmapAvailable (efi_mem_request api) = None
   \<and> rsdp_available (rsdp_request api) = None
   \<and> smbios_available (smbios_request api) = None
   \<and> boot_time_available (boot_time_request api) = None"
  by (simp add: limine_defs)

text \<open>An answer of revision 0 is ignored by the classes that test the pointer.\<close>

lemma revision_0_unavailable:
  "bi_revision r1 = 0 \<Longrightarrow> \<not> bootloader_available (limine_answer r1 q1)"
  "cl_revision r2 = 0 \<Longrightarrow> \<not> cmdline_available (limine_answer r2 q2)"
  "fw_revision r3 = 0 \<Longrightarrow> \<not> firmware_available (limine_answer r3 q3)"
  "fbr_revision r4 = 0 \<Longrightarrow> \<not> framebuffer_available (limine_answer r4 q4)"
  "mm_revision r5 = 0 \<Longrightarrow> \<not> memmap_available (limine_answer r5 q5)"
  "ef_revision r6 = 0 \<Longrightarrow> exec_file_available (limine_answer r6 q6) = Some False"
  "ea_revision r7 = 0 \<Longrightarrow> \<not> exec_address_available (limine_answer r7 q7)"
  "hh_revision r8 = 0 \<Longrightarrow> \<not> hhdm_available (limine_answer r8 q8)"
  by (simp_all add: limine_answer_def limine_defs)

text \<open>A frame buffer past the end of the table wraps a null pointer; its accessors fault.\<close>

lemma framebuffer_beyond_faults:
  "framebuffers q = Some s \<Longrightarrow> sl_size s \<le> i \<Longrightarrow> rd nullptr = None \<Longrightarrow>
     (do { fb \<leftarrow> framebufferAt m q i; FB_width rd fb }) = None"
  by (simp add: framebuffer_table.at_beyond [of q "sl_size s"] framebuffer_table.count_arr FB_width_def)

end
