(* ===== verification/PmmBoot.thy ===== *)
theory PmmBoot
  imports PmmProps LimineProps
begin

text \<open>
  The memory manager started from the boot loader's answers: \<open>init\<close> (\<^verbatim>\<open>core/pmm.hh\<close>) as it
  walks the memory map through \<^verbatim>\<open>Limine::MemoryMap::entryAt\<close>, and the higher-half map through
  \<^verbatim>\<open>Limine::HHDM\<close>. It refines \<open>pmm_init\<close>, which takes the entries as a list, so the pool
  invariant holds for it.

  The memory \<open>m\<close> that holds the boot loader's tables is not changed by the writes of \<open>init\<close>
  to the frames it links, for the boot loader does not place its tables in usable memory.
\<close>

text \<open>What \<open>allocate\<close> and \<open>free\<close> learn about the higher-half map.\<close>

definition boot_env :: "(addr \<Rightarrow> addr option) \<Rightarrow> hhdm_response limine_request \<Rightarrow> pmm_env" where
  "boot_env xl q = kernel_env (if hhdm_available q then HHDM_offset q else None) xl"

lemma boot_env_offset: "HHDM_offset q = Some (hhdm_offset (boot_env xl q))"
  by (cases "response q")
    (auto simp: boot_env_def kernel_env_def hhdm_offset_def HHDM_offset_def hhdm_available_def)

function pmm_boot_loop ::
  "pmm_env \<Rightarrow> mem \<Rightarrow> (addr \<Rightarrow> memmap_entry option) \<Rightarrow> memmap_response limine_request
     \<Rightarrow> usize \<Rightarrow> usize \<Rightarrow> pmm \<Rightarrow> pmm option"
where
  "pmm_boot_loop e m rd q count i s =
     (if i < count then do {
        p \<leftarrow> entryAt m q i;
        entry \<leftarrow> rd p;
        s \<leftarrow> init_entry e i entry s;
        pmm_boot_loop e m rd q count (i + 1) s
      } else Some s)"
  by pat_completeness auto
termination
  by (relation "measure (\<lambda>(e, m, rd, q, count, i, s). unat count - unat i)")
    (simp_all add: count_up_less)

declare pmm_boot_loop.simps [simp del]

definition pmm_boot ::
  "pmm_env \<Rightarrow> mem \<Rightarrow> (addr \<Rightarrow> memmap_entry option) \<Rightarrow> memmap_response limine_request
     \<Rightarrow> pmm \<Rightarrow> pmm option"
where
  "pmm_boot e m rd q s =
     (if \<not> memmap_available q then kpanic
      else do {
        let s = debug e MStart s;
        count \<leftarrow> entryCount q;
        let s = debug e (MCount count) s;
        s \<leftarrow> pmm_boot_loop e m rd q count 0 s;
        Some (debug e (MDone (total_pages s) (free_pages s)) s)
      })"

text \<open>The memory map a response describes.\<close>

definition memmap_holds ::
  "mem \<Rightarrow> (addr \<Rightarrow> memmap_entry option) \<Rightarrow> memmap_response limine_request \<Rightarrow> memmap_entry list \<Rightarrow> bool"
where
  "memmap_holds m rd q es \<longleftrightarrow> memmap_available q
     \<and> (\<exists>s ps. memmap_entries q = Some s \<and> sl_elems (read64 m) 8 s ps \<and> map rd ps = map Some es)"

lemma pmm_boot_loop_entries:
  assumes "memmap_entries q = Some sl" and "sl_elems (read64 m) 8 sl ps"
    and "map rd ps = map Some es" and "unat count = length es"
  shows "unat i \<le> length es \<Longrightarrow>
    pmm_boot_loop e m rd q count i s = init_entries e i (drop (unat i) es) s"
proof (induction "length es - unat i" arbitrary: i s)
  case 0
  then show ?case using assms(4)
    by (subst pmm_boot_loop.simps) (simp add: word_less_nat_alt)
next
  case (Suc k)
  then have less: "unat i < length es" by simp
  with assms(4) have i: "i < count" by (simp add: word_less_nat_alt)
  note i1 = unat_incr [OF i]
  have "length ps = length es" using assms(3) by (metis length_map)
  then have "entryAt m q i = Some (ps ! unat i)" "rd (ps ! unat i) = Some (es ! unat i)"
    using memmap_table.at_elems [OF assms(1,2), of i] less assms(3)
    by (simp_all, metis nth_map)
  moreover have "drop (unat i) es = es ! unat i # drop (Suc (unat i)) es"
    using less by (simp add: Cons_nth_drop_Suc)
  moreover have "pmm_boot_loop e m rd q count (i + 1)
      = init_entries e (i + 1) (drop (Suc (unat i)) es)"
    using Suc(1) [of "i + 1"] Suc(2) i1 less by (intro ext) simp
  ultimately show ?case using i by (subst pmm_boot_loop.simps) simp
qed

lemma pmm_boot_init:
  assumes "memmap_holds m rd q es"
  shows "pmm_boot e m rd q s = pmm_init e (Some es) s"
proof -
  obtain sl ps where av: "memmap_available q" and sl: "memmap_entries q = Some sl"
    "sl_elems (read64 m) 8 sl ps" "map rd ps = map Some es"
    using assms by (auto simp: memmap_holds_def)
  obtain count where count: "entryCount q = Some count" "unat count = length ps"
    using memmap_table.count_elems [OF sl(1,2)] by blast
  have "length ps = length es" using sl(3) by (metis length_map)
  with count have len: "unat count = length es" by simp
  then have "count = of_nat (length es)" using of_nat_unat_64 [of count] by simp
  with av count show ?thesis
    using pmm_boot_loop_entries [OF sl len, of 0]
    by (simp add: pmm_boot_def pmm_init_def)
qed

text \<open>
  Walking the memory map through the boot loader interface refines \<open>pmm_init\<close> on the list
  of its entries: same result, same messages, in the same order. An unanswered request and an
  answer of revision 0 or without entries panic, as the absent list does.
\<close>

lemma pmm_boot_refines_init:
  assumes "if memmap_available q then entries \<noteq> None \<and> memmap_holds m rd q (the entries) else entries = None"
  shows "pmm_boot e m rd q s = pmm_init e entries s"
  using assms pmm_boot_init [of m rd q "the entries" e s]
  by (auto simp: pmm_boot_def pmm_init_def split: if_splits)

text \<open>A memory map of one entry, whose pointer lies at address 16.\<close>

definition one_entry_map :: mem where
  "one_entry_map = put_bytes Map.empty 16 (le_bytes 8 0x5000)"

definition one_entry_request :: "memmap_response limine_request" where
  "one_entry_request =
     limine_answer \<lparr>mm_revision = 1, mm_entry_count = 1, mm_entries = 16\<rparr> (memmap_request 3)"

lemma one_entry_holds:
  assumes "rd 0x5000 = Some x"
  shows "memmap_available one_entry_request \<and> memmap_holds one_entry_map rd one_entry_request [x]"
proof -
  have "read64 one_entry_map 16 = Some 0x5000"
    unfolding one_entry_map_def by (rule read64_bytes) (simp add: bytes_at_put_bytes)
  with assms show ?thesis
    by (auto simp: memmap_holds_def one_entry_request_def limine_answer_def memmap_available_def
        memmap_entries_def sl_elems_def intro!: exI [of _ "[0x5000]"])
qed

lemma pmm_boot_refines_init_example:
  "pmm_boot (kernel_env None Some) one_entry_map
     (\<lambda>_. Some \<lparr>entry_base = 0, entry_length = 0x2000, entry_type = 1\<rparr>) one_entry_request
     (pmm_start (\<lambda>_. \<lparr>link = 7, flags = 7\<rparr>))
   = pmm_init (kernel_env None Some) (Some [\<lparr>entry_base = 0, entry_length = 0x2000, entry_type = 1\<rparr>])
     (pmm_start (\<lambda>_. \<lparr>link = 7, flags = 7\<rparr>))"
  by (rule pmm_boot_refines_init) (simp add: one_entry_holds)

text \<open>
  C5: The kernel's memory manager, started on what the boot loader answered, holds in its free
  list exactly the 4 KiB frames that lie wholly inside a usable entry of the memory map and not
  below 1 MiB, each once, and both counters are their number. Every such frame must be mapped,
  at its own place, and the usable entries lie apart and end before the last page.
\<close>

theorem pmm_boot_pool:
  assumes "memmap_holds m rd q entries"
    and "\<forall>x \<in> set entries. usable x \<longrightarrow> unat (entry_base x) + unat (entry_length x) + 4096 \<le> 2 ^ 64"
    and "\<forall>x \<in> set entries. \<forall>p. frame_of x p \<longrightarrow> xl p \<noteq> None"
    and "distinct (map (phys (boot_env xl h)) (concat (map entry_frames entries)))"
  shows "\<exists>s ps. pmm_boot (boot_env xl h) m rd q (pmm_start g) = Some s \<and> pool (boot_env xl h) s ps
    \<and> (\<forall>p. p \<in> set ps \<longleftrightarrow> (\<exists>x \<in> set entries. frame_of x p))
    \<and> totalPages s = of_nat (length ps) \<and> freePages s = of_nat (length ps)"
  unfolding pmm_boot_init [OF assms(1)]
  using assms by (intro pmm_init_pool) (simp_all add: boot_env_def kernel_env_def)

theorem pmm_boot_pool_witness:
  "\<exists>s ps. pmm_boot (boot_env Some (hhdm_request 3)) one_entry_map
        (\<lambda>_. Some \<lparr>entry_base = 0x100001, entry_length = 0x2000, entry_type = 0\<rparr>) one_entry_request
        (pmm_start (\<lambda>_. \<lparr>link = 7, flags = 7\<rparr>)) = Some s
      \<and> pool (boot_env Some (hhdm_request 3)) s ps \<and> freePages s = of_nat (length ps)"
proof -
  let ?x = "\<lparr>entry_base = 0x100001, entry_length = 0x2000, entry_type = 0\<rparr> :: memmap_entry"
  have "region_frames 0x100001 0x2000 = [0x101000]"
    by (simp add: region_frames_def alignUp_def PageSize_def)
  then have "entry_frames ?x = [0x101000]" by (simp add: entry_frames_def kMinPhysical_def)
  then show ?thesis
    using pmm_boot_pool [of one_entry_map "\<lambda>_. Some ?x" one_entry_request "[?x]" Some "hhdm_request 3"
        "\<lambda>_. \<lparr>link = 7, flags = 7\<rparr>"] one_entry_holds [of "\<lambda>_. Some ?x" ?x]
    by auto
qed

text \<open>The boot loader's answer is not read when its revision is 0: \<open>init\<close> panics.\<close>

lemma pmm_boot_revision_0:
  "mm_revision r = 0 \<Longrightarrow> pmm_boot e m rd (limine_answer r q) s = None"
  using revision_0_unavailable(5) [of r q] by (simp add: pmm_boot_def kpanic_def)

end
