(* ===== verification/Efi.thy ===== *)
theory Efi
  imports LimineProps
begin

text \<open>
  The UEFI interface (\<^verbatim>\<open>arch/efi.hh\<close>): the layouts of the firmware's tables, the pointers to
  them, the wrappers of the runtime services, and the memory map with the iterator over its
  runtime descriptors. The class is inside \<^verbatim>\<open>#if 0\<close> at this commit.

  A layout is the list of the fields with their sizes and natural alignments; the structs are
  \<^verbatim>\<open>packed\<close>, so a field lies right after the one before it. The firmware's tables are bytes in
  memory. Calling a runtime service is an \<open>efi_call\<close>: the function pointer read from the table
  and its arguments.
\<close>

subsection \<open>Layouts\<close>

type_synonym layout = "(string \<times> nat \<times> nat) list"

fun sizeof :: "layout \<Rightarrow> nat" where
  "sizeof [] = 0"
| "sizeof ((f, n, al) # fs) = n + sizeof fs"

fun offset_of :: "layout \<Rightarrow> string \<Rightarrow> nat" where
  "offset_of [] f = 0"
| "offset_of ((g, n, al) # fs) f = (if f = g then 0 else n + offset_of fs f)"

text \<open>The offset the field would have in a struct that is not packed.\<close>

fun natural_offset :: "nat \<Rightarrow> layout \<Rightarrow> string \<Rightarrow> nat" where
  "natural_offset at [] f = at"
| "natural_offset at ((g, n, al) # fs) f =
     (let at = (at + al - 1) div al * al
      in if f = g then at else natural_offset (at + n) fs f)"

abbreviation fld :: "string \<Rightarrow> nat \<Rightarrow> string \<times> nat \<times> nat" where
  "fld f n \<equiv> (f, n, n)"

definition Guid :: layout where
  "Guid = [fld ''Data1'' 4, fld ''Data2'' 2, fld ''Data3'' 2, (''Data4'', 8, 1)]"

definition TableHeader :: layout where
  "TableHeader = [fld ''Signature'' 8, fld ''Revision'' 4, fld ''HeaderSize'' 4, fld ''CRC32'' 4,
     fld ''Reserved'' 4]"

definition Time :: layout where
  "Time = [fld ''Year'' 2, fld ''Month'' 1, fld ''Day'' 1, fld ''Hour'' 1, fld ''Minute'' 1,
     fld ''Second'' 1, fld ''Pad1'' 1, fld ''Nanosecond'' 4, fld ''TimeZone'' 2, fld ''Daylight'' 1,
     fld ''Pad2'' 1]"

definition TimeCapabilities :: layout where
  "TimeCapabilities = [fld ''Resolution'' 4, fld ''Accuracy'' 4, fld ''SetsToZero'' 1]"

definition ConfigurationTable :: layout where
  "ConfigurationTable = [(''VendorGuid'', sizeof Guid, 4), fld ''VendorTable'' 8]"

definition SystemTable :: layout where
  "SystemTable = [(''Hdr'', sizeof TableHeader, 8), fld ''FirmwareVendor'' 8,
     fld ''FirmwareRevision'' 4, fld ''ConsoleInHandle'' 8, fld ''ConIn'' 8,
     fld ''ConsoleOutHandle'' 8, fld ''ConOut'' 8, fld ''StandardErrorHandle'' 8, fld ''StdErr'' 8,
     fld ''RuntimeServices'' 8, fld ''BootServices'' 8, fld ''NumberOfTableEntries'' 8,
     fld ''ConfigurationTable'' 8]"

definition RuntimeServices :: layout where
  "RuntimeServices = [(''Hdr'', sizeof TableHeader, 8), fld ''GetTime'' 8, fld ''SetTime'' 8,
     fld ''GetWakeupTime'' 8, fld ''SetWakeupTime'' 8, fld ''SetVirtualAddressMap'' 8,
     fld ''ConvertPointer'' 8, fld ''GetVariable'' 8, fld ''GetNextVariableName'' 8,
     fld ''SetVariable'' 8, (''Reserved'', 16, 8), fld ''GetNextHighMonotonicCount'' 8,
     fld ''ResetSystem'' 8, fld ''UpdateCapsule'' 8, fld ''QueryCapsuleCapabilities'' 8]"

definition MemoryDescriptor :: layout where
  "MemoryDescriptor = [fld ''Type'' 4, fld ''Pad'' 4, fld ''PhysicalStart'' 8,
     fld ''VirtualStart'' 8, fld ''NumberOfPages'' 8, fld ''Attribute'' 8]"

lemmas layout_defs = Guid_def TableHeader_def Time_def TimeCapabilities_def ConfigurationTable_def
  SystemTable_def RuntimeServices_def MemoryDescriptor_def

text \<open>The address of a field of a packed struct.\<close>

definition field_addr :: "layout \<Rightarrow> string \<Rightarrow> addr \<Rightarrow> addr" where
  "field_addr fs f p = p + of_nat (offset_of fs f)"

text \<open>
  Packing moves no field of the memory descriptor and the runtime services, whose fields
  are aligned as they stand, but it moves every field of the system table after the 32-bit
  firmware revision down by four bytes.
\<close>

lemma efi_layouts:
  "map (offset_of MemoryDescriptor) [''PhysicalStart'', ''NumberOfPages'', ''Attribute''] = [8, 24, 32]
   \<and> map (offset_of MemoryDescriptor) (map fst MemoryDescriptor)
       = map (natural_offset 0 MemoryDescriptor) (map fst MemoryDescriptor)
   \<and> map (offset_of RuntimeServices) (map fst RuntimeServices)
       = map (natural_offset 0 RuntimeServices) (map fst RuntimeServices)
   \<and> map (\<lambda>f. offset_of SystemTable f + 4) (map fst (drop 3 SystemTable))
       = map (natural_offset 0 SystemTable) (map fst (drop 3 SystemTable))
   \<and> offset_of SystemTable ''RuntimeServices'' = 84
   \<and> natural_offset 0 SystemTable ''RuntimeServices'' = 88"
  by (simp add: layout_defs)

subsection \<open>The tables\<close>

record efi =
  ST :: addr
  RS :: addr

definition efi_start :: efi where
  "efi_start = \<lparr>ST = nullptr, RS = nullptr\<rparr>"

definition initializeSystemTable ::
  "mem \<Rightarrow> efi_system_table_response limine_request \<Rightarrow> efi \<Rightarrow> (bool \<times> efi) option"
where
  "initializeSystemTable m q s = do {
     av \<leftarrow> systemTableAvailable q;
     if av then do {
       a \<leftarrow> efiSystemTableAddress q;
       let s = s\<lparr>ST := a\<rparr>;
       rs \<leftarrow> read64 m (field_addr SystemTable ''RuntimeServices'' (ST s));
       Some (True, s\<lparr>RS := rs\<rparr>)
     } else Some (False, s)
   }"

subsection \<open>The runtime services\<close>

record efi_call =
  callee :: addr
  args :: "u64 list"

definition rs_call :: "mem \<Rightarrow> efi \<Rightarrow> string \<Rightarrow> u64 list \<Rightarrow> efi_call option" where
  "rs_call m s f xs = do {
     p \<leftarrow> read64 m (field_addr RuntimeServices f (RS s));
     Some \<lparr>callee = p, args = xs\<rparr>
   }"

definition SetVirtualAddressMap :: "mem \<Rightarrow> efi \<Rightarrow> u64 \<Rightarrow> u64 \<Rightarrow> u64 \<Rightarrow> addr \<Rightarrow> efi_call option" where
  "SetVirtualAddressMap m s MemoryMapSize DescriptorSize DescriptorVersion VirtualMap =
     rs_call m s ''SetVirtualAddressMap''
       [MemoryMapSize, DescriptorSize, DescriptorVersion, VirtualMap]"

text \<open>The enumeration \<^verbatim>\<open>ResetType\<close>, which is a 32-bit number.\<close>

type_synonym reset_type = u32

definition EfiResetCold :: reset_type where "EfiResetCold = 0"
definition EfiResetWarm :: reset_type where "EfiResetWarm = 1"
definition EfiResetShutdown :: reset_type where "EfiResetShutdown = 2"
definition EfiResetPlatformSpecific :: reset_type where "EfiResetPlatformSpecific = 3"

definition ResetSystem :: "mem \<Rightarrow> efi \<Rightarrow> reset_type \<Rightarrow> u64 \<Rightarrow> u64 \<Rightarrow> addr \<Rightarrow> efi_call option" where
  "ResetSystem m s Type StatusCode DataSize ResetData =
     rs_call m s ''ResetSystem'' [ucast Type, StatusCode, DataSize, ResetData]"

definition GetTime :: "mem \<Rightarrow> efi \<Rightarrow> addr \<Rightarrow> addr \<Rightarrow> efi_call option" where
  "GetTime m s OutTime OutCapabilities = rs_call m s ''GetTime'' [OutTime, OutCapabilities]"

definition SetTime :: "mem \<Rightarrow> efi \<Rightarrow> addr \<Rightarrow> efi_call option" where
  "SetTime m s InTime = rs_call m s ''SetTime'' [InTime]"

definition GetVariable :: "mem \<Rightarrow> efi \<Rightarrow> addr \<Rightarrow> addr \<Rightarrow> addr \<Rightarrow> addr \<Rightarrow> addr \<Rightarrow> efi_call option" where
  "GetVariable m s VariableName VendorGuid Attributes DataSize Data =
     rs_call m s ''GetVariable'' [VariableName, VendorGuid, Attributes, DataSize, Data]"

definition SetVariable :: "mem \<Rightarrow> efi \<Rightarrow> addr \<Rightarrow> addr \<Rightarrow> u32 \<Rightarrow> u64 \<Rightarrow> addr \<Rightarrow> efi_call option" where
  "SetVariable m s VariableName VendorGuid Attributes DataSize Data =
     rs_call m s ''SetVariable'' [VariableName, VendorGuid, ucast Attributes, DataSize, Data]"

text \<open>The slots of the table: the function pointers after its header.\<close>

definition rs_slots :: "mem \<Rightarrow> efi \<Rightarrow> addr list \<Rightarrow> bool" where
  "rs_slots m s fs \<longleftrightarrow> elems_at (read64 m) 8 (RS s + of_nat (sizeof TableHeader)) fs"

lemma rs_call_slot:
  assumes "rs_slots m s fs" and "offset_of RuntimeServices f = sizeof TableHeader + 8 * i"
    and "i < length fs"
  shows "rs_call m s f xs = Some \<lparr>callee = fs ! i, args = xs\<rparr>"
  using elems_at_nth [OF assms(1) [unfolded rs_slots_def] assms(3)] assms(2)
  by (simp add: rs_call_def field_addr_def algebra_simps)

text \<open>
  The wrappers pass their arguments on to the function in their slot of the firmware's
  table. \<^verbatim>\<open>Reserved[2]\<close> puts \<open>ResetSystem\<close> into slot 12; UEFI has it in slot 10, two slots
  after \<open>SetVariable\<close>.
\<close>

lemma efi_wrappers_call:
  assumes "rs_slots m s fs" and "15 \<le> length fs"
  shows "GetTime m s t cap = Some \<lparr>callee = fs ! 0, args = [t, cap]\<rparr>
    \<and> SetTime m s t = Some \<lparr>callee = fs ! 1, args = [t]\<rparr>
    \<and> SetVirtualAddressMap m s sz dsz dv vm = Some \<lparr>callee = fs ! 4, args = [sz, dsz, dv, vm]\<rparr>
    \<and> GetVariable m s nm g at ds d = Some \<lparr>callee = fs ! 6, args = [nm, g, at, ds, d]\<rparr>
    \<and> SetVariable m s nm g at32 sz d = Some \<lparr>callee = fs ! 8, args = [nm, g, ucast at32, sz, d]\<rparr>
    \<and> ResetSystem m s ty st sz d = Some \<lparr>callee = fs ! 12, args = [ucast ty, st, sz, d]\<rparr>"
  unfolding GetTime_def SetTime_def SetVirtualAddressMap_def GetVariable_def SetVariable_def
    ResetSystem_def
  by (intro conjI rs_call_slot [OF assms(1)]; use assms(2) in \<open>force simp: layout_defs\<close>)

lemma efi_wrappers_call_witness:
  "ResetSystem (put_bytes Map.empty 0x1018 (concat (map (le_bytes 8) (map of_nat [100..<115]))))
     \<lparr>ST = 0x800, RS = 0x1000\<rparr> EfiResetShutdown 0 0 nullptr = Some \<lparr>callee = 112, args = [2, 0, 0, 0]\<rparr>"
proof -
  let ?fs = "map of_nat [100..<115] :: addr list"
  let ?m = "put_bytes Map.empty 0x1018 (concat (map (le_bytes 8) ?fs))"
  have "bytes_at ?m 0x1018 (concat (map (le_bytes 8) ?fs))"
    by (rule bytes_at_put_bytes) (simp add: length_pointers)
  from elems_at_pointers [OF this] have "rs_slots ?m \<lparr>ST = 0x800, RS = 0x1000\<rparr> ?fs"
    by (simp add: rs_slots_def TableHeader_def)
  from efi_wrappers_call [OF this] show ?thesis by (simp add: EfiResetShutdown_def)
qed

text \<open>Initialisation finds the runtime services through the system table.\<close>

lemma initializeSystemTable_reads:
  "response q = Some r \<Longrightarrow> es_revision r \<noteq> 0 \<Longrightarrow> read64 m (es_address r + 84) = Some rs \<Longrightarrow>
     initializeSystemTable m q s = Some (True, \<lparr>ST = es_address r, RS = rs\<rparr>)"
  by (simp add: initializeSystemTable_def limine_defs field_addr_def layout_defs)

text \<open>Before it, the wrappers read their function pointer near address zero.\<close>

lemma efi_call_before_init: "m 120 = None \<Longrightarrow> ResetSystem m efi_start ty st sz d = None"
  by (simp add: ResetSystem_def rs_call_def efi_start_def field_addr_def read64_unmapped layout_defs)

end
