(* ===== verification/EfiMap.thy ===== *)
theory EfiMap
  imports Efi
begin

text \<open>
  The firmware's memory map (\<^verbatim>\<open>Efi::MemoryMap\<close>) and its \<open>RuntimeIterator\<close>, which stops at the
  descriptors with the runtime attribute. Descriptors lie \<open>descSize\<close> bytes apart, which may
  be more than the size of the struct.
\<close>

definition EFI_MEMORY_RUNTIME :: u64 where
  "EFI_MEMORY_RUNTIME = 0x8000000000000000"

record efi_memmap =
  em_base :: addr
  totalSize :: u64
  descSize :: u64
  descVersion :: u64
  entry_count :: u64

definition efi_MemoryMap :: "efi_memmap_response limine_request \<Rightarrow> efi_memmap option" where
  "efi_MemoryMap q = do {
     b \<leftarrow> efiMemmapAddress q;
     t \<leftarrow> efiMemmapSize q;
     d \<leftarrow> efiDescSize q;
     v \<leftarrow> efiDescVersion q;
     Some \<lparr>em_base = b, totalSize = t, descSize = d, descVersion = v,
           entry_count = (if d = 0 then 0 else t div d)\<rparr>
   }"

definition efi_entryCount :: "efi_memmap \<Rightarrow> u64" where
  "efi_entryCount mp = entry_count mp"

definition descriptorAt :: "efi_memmap \<Rightarrow> u64 \<Rightarrow> addr" where
  "descriptorAt mp idx =
     (if idx \<ge> entry_count mp then nullptr else em_base mp + idx * descSize mp)"

definition isRuntime :: "mem \<Rightarrow> addr \<Rightarrow> bool option" where
  "isRuntime m d = do {
     a \<leftarrow> read64 m (field_addr MemoryDescriptor ''Attribute'' d);
     Some (a AND EFI_MEMORY_RUNTIME \<noteq> 0)
   }"

subsection \<open>The iterator\<close>

record runtime_iterator =
  parent :: "efi_memmap option"
  idx :: u64

function advanceToNext :: "mem \<Rightarrow> efi_memmap \<Rightarrow> u64 \<Rightarrow> u64 option" where
  "advanceToNext m mp i =
     (if i < efi_entryCount mp then do {
        rt \<leftarrow> isRuntime m (descriptorAt mp i);
        if rt then Some i else advanceToNext m mp (i + 1)
      } else Some i)"
  by pat_completeness auto
termination
  by (relation "measure (\<lambda>(m, mp, i). unat (efi_entryCount mp) - unat i)")
    (simp_all add: count_up_less)

declare advanceToNext.simps [simp del]

text \<open>The constructor advances without a test of \<^verbatim>\<open>parent\<close>, which \<open>valid\<close> does make.\<close>

definition RuntimeIterator :: "mem \<Rightarrow> efi_memmap option \<Rightarrow> u64 \<Rightarrow> runtime_iterator option" where
  "RuntimeIterator m par startIdx = do {
     mp \<leftarrow> par;
     i \<leftarrow> advanceToNext m mp startIdx;
     Some \<lparr>parent = par, idx = i\<rparr>
   }"

definition it_valid :: "runtime_iterator \<Rightarrow> bool" where
  "it_valid it = (case parent it of None \<Rightarrow> False | Some mp \<Rightarrow> idx it < efi_entryCount mp)"

definition it_deref :: "runtime_iterator \<Rightarrow> addr option" where
  "it_deref it = do { mp \<leftarrow> parent it; Some (descriptorAt mp (idx it)) }"

definition it_next :: "mem \<Rightarrow> runtime_iterator \<Rightarrow> runtime_iterator option" where
  "it_next m it =
     (if \<not> it_valid it then Some it
      else do {
        mp \<leftarrow> parent it;
        i \<leftarrow> advanceToNext m mp (idx it + 1);
        Some (it\<lparr>idx := i\<rparr>)
      })"

definition runtimeBegin :: "mem \<Rightarrow> efi_memmap \<Rightarrow> runtime_iterator option" where
  "runtimeBegin m mp = RuntimeIterator m (Some mp) 0"

definition runtimeEnd :: "mem \<Rightarrow> efi_memmap \<Rightarrow> runtime_iterator option" where
  "runtimeEnd m mp = RuntimeIterator m (Some mp) (efi_entryCount mp)"

text \<open>
  The loop the iterator is for: from a first position, while \<open>valid\<close>, look at the descriptor
  and go to the \<open>next\<close>.
\<close>

partial_function (option) it_walk :: "mem \<Rightarrow> runtime_iterator \<Rightarrow> addr list option" where
  "it_walk m it =
     (if it_valid it then do {
        d \<leftarrow> it_deref it;
        it' \<leftarrow> it_next m it;
        ds \<leftarrow> it_walk m it';
        Some (d # ds)
      } else Some [])"

subsection \<open>Descriptors\<close>

lemma descriptorAt_in:
  "i < efi_entryCount mp \<Longrightarrow> descriptorAt mp i = em_base mp + i * descSize mp"
  by (auto simp: descriptorAt_def efi_entryCount_def dest: leD)

lemma descriptor_count:
  assumes "efi_MemoryMap q = Some mp"
  shows "unat (efi_entryCount mp) = unat (totalSize mp) div unat (descSize mp)"
  using assms by (auto simp: efi_MemoryMap_def efi_entryCount_def bind_eq_Some_conv unat_div)

lemma descriptor_offset:
  assumes "efi_MemoryMap q = Some mp" and "i < efi_entryCount mp"
  shows "unat i * unat (descSize mp) + unat (descSize mp) \<le> unat (totalSize mp)"
proof -
  have "Suc (unat i) \<le> unat (totalSize mp) div unat (descSize mp)"
    using assms(2) unfolding word_less_nat_alt descriptor_count [OF assms(1)] by simp
  then have "Suc (unat i) * unat (descSize mp) \<le> unat (totalSize mp) div unat (descSize mp) * unat (descSize mp)"
    by (rule mult_le_mono1)
  also have "\<dots> \<le> unat (totalSize mp)" by simp
  finally show ?thesis by simp
qed

text \<open>
  C38: A map that lies in the address space, and whose stride is at least the size of the struct,
  hands out one descriptor for each whole stride in the bytes the firmware reported. The address
  of each is the base plus its index times the stride, as numbers, so nothing wraps, and its 40
  bytes end inside the reported bytes. From the count on there is only the null pointer.
\<close>

theorem efi_descriptor_in_map:
  assumes "efi_MemoryMap q = Some mp"
    and "unat (em_base mp) + unat (totalSize mp) \<le> 2 ^ 64" and "40 \<le> unat (descSize mp)"
  shows "sizeof MemoryDescriptor = 40
    \<and> unat (efi_entryCount mp) = unat (totalSize mp) div unat (descSize mp)
    \<and> (if i < efi_entryCount mp then
         unat (descriptorAt mp i) = unat (em_base mp) + unat i * unat (descSize mp)
         \<and> unat (descriptorAt mp i) + 40 \<le> unat (em_base mp) + unat (totalSize mp)
       else descriptorAt mp i = 0)"
proof (cases "i < efi_entryCount mp")
  case True
  note offset = descriptor_offset [OF assms(1) True]
  have "descriptorAt mp i = of_nat (unat (em_base mp) + unat i * unat (descSize mp))"
    by (simp add: descriptorAt_in [OF True] of_nat_unat_64)
  moreover have "unat (em_base mp) + unat i * unat (descSize mp) < 2 ^ 64"
    using offset assms(2,3) by linarith
  ultimately have "unat (descriptorAt mp i) = unat (em_base mp) + unat i * unat (descSize mp)"
    by (simp only: unat_of_nat_64)
  then show ?thesis
    using True offset assms(3) by (simp add: descriptor_count [OF assms(1)] layout_defs)
next
  case False
  then have "descriptorAt mp i = 0" by (simp add: descriptorAt_def efi_entryCount_def not_less)
  then show ?thesis
    unfolding if_not_P [OF False] by (simp add: descriptor_count [OF assms(1)] layout_defs)
qed

theorem efi_descriptor_in_map_witness:
  "\<exists>mp. efi_MemoryMap (limine_answer \<lparr>em_revision = 0, em_memmap = 0x1000, em_memmap_size = 100,
          em_desc_size = 48, em_desc_version = 1\<rparr> (efi_mem_request 3)) = Some mp
     \<and> unat (descriptorAt mp 1) = 0x1030 \<and> unat (descriptorAt mp 1) + 40 \<le> 0x1000 + 100"
proof -
  let ?q = "limine_answer \<lparr>em_revision = 0, em_memmap = 0x1000, em_memmap_size = 100,
          em_desc_size = 48, em_desc_version = 1\<rparr> (efi_mem_request 3)"
  let ?mp = "\<lparr>em_base = 0x1000, totalSize = 100, descSize = 48, descVersion = 1, entry_count = 2\<rparr>"
  have "efi_MemoryMap ?q = Some ?mp"
    by (simp add: efi_MemoryMap_def limine_answer_def limine_defs)
  with efi_descriptor_in_map [OF this, of 1] show ?thesis by (simp add: efi_entryCount_def)
qed

text \<open>
  The code asks for neither condition. With a stride of one byte the last descriptor runs past
  the ten bytes reported; at the end of the address space the second one lies at address 32.
\<close>

lemma efi_descriptor_overruns:
  "\<exists>mp. efi_MemoryMap (limine_answer \<lparr>em_revision = 0, em_memmap = 0x1000, em_memmap_size = 10,
          em_desc_size = 1, em_desc_version = 1\<rparr> (efi_mem_request 3)) = Some mp
     \<and> descriptorAt mp 9 = 0x1009 \<and> unat (descriptorAt mp 9) + sizeof MemoryDescriptor > 0x1000 + 10"
  by (simp add: efi_MemoryMap_def limine_answer_def limine_defs descriptorAt_def layout_defs)

lemma efi_descriptor_wraps:
  "\<exists>mp. efi_MemoryMap (limine_answer \<lparr>em_revision = 0, em_memmap = - 16, em_memmap_size = 96,
          em_desc_size = 48, em_desc_version = 1\<rparr> (efi_mem_request 3)) = Some mp \<and> descriptorAt mp 1 = 32"
  by (simp add: efi_MemoryMap_def limine_answer_def limine_defs descriptorAt_def word_le_nat_alt)

subsection \<open>The walk\<close>

text \<open>The attributes of the descriptors of a map, in order.\<close>

definition map_attrs :: "mem \<Rightarrow> efi_memmap \<Rightarrow> u64 list \<Rightarrow> bool" where
  "map_attrs m mp as \<longleftrightarrow> unat (efi_entryCount mp) = length as
     \<and> (\<forall>i < length as. read64 m (em_base mp + of_nat i * descSize mp + 32) = Some (as ! i))"

definition is_rt :: "u64 \<Rightarrow> bool" where
  "is_rt a = (a AND EFI_MEMORY_RUNTIME \<noteq> 0)"

text \<open>The runtime indices from a position on.\<close>

definition rt_from :: "u64 list \<Rightarrow> nat \<Rightarrow> nat list" where
  "rt_from as i = filter (\<lambda>j. is_rt (as ! j)) [i..<length as]"

lemma rt_from_step:
  "i < length as \<Longrightarrow> rt_from as i = (if is_rt (as ! i) then i # rt_from as (Suc i) else rt_from as (Suc i))"
  by (simp add: rt_from_def upt_conv_Cons)

lemma isRuntime_attr:
  assumes "map_attrs m mp as" and "unat i < length as"
  shows "isRuntime m (descriptorAt mp i) = Some (is_rt (as ! unat i))"
proof -
  have "i < efi_entryCount mp" using assms by (simp add: map_attrs_def word_less_nat_alt)
  moreover have "read64 m (em_base mp + i * descSize mp + 32) = Some (as ! unat i)"
    using assms of_nat_unat_64 [of i] by (auto simp: map_attrs_def)
  ultimately show ?thesis
    by (simp add: isRuntime_def descriptorAt_in field_addr_def layout_defs is_rt_def)
qed

text \<open>Advancing stops at the first runtime descriptor from the position on, or at the end.\<close>

lemma advance_first:
  assumes "map_attrs m mp as"
  shows "unat i \<le> length as \<Longrightarrow> \<exists>j. advanceToNext m mp i = Some j \<and> unat i \<le> unat j
    \<and> (case rt_from as (unat i) of [] \<Rightarrow> unat j = length as
         | k # ks \<Rightarrow> unat j = k \<and> k < length as \<and> ks = rt_from as (Suc k))"
proof (induction "length as - unat i" arbitrary: i)
  case 0
  then have "\<not> i < efi_entryCount mp"
    using assms by (simp add: map_attrs_def word_less_nat_alt)
  with 0 show ?case by (subst advanceToNext.simps) (simp add: rt_from_def)
next
  case (Suc n)
  then have less: "unat i < length as" by simp
  then have i: "i < efi_entryCount mp" using assms by (simp add: map_attrs_def word_less_nat_alt)
  show ?case
  proof (cases "is_rt (as ! unat i)")
    case True
    then show ?thesis using i less isRuntime_attr [OF assms less] rt_from_step [OF less]
      by (subst advanceToNext.simps) simp
  next
    case False
    have "n = length as - unat (i + 1)" "unat (i + 1) \<le> length as"
      using Suc(2) less unat_incr [OF i] by simp_all
    from Suc(1) [OF this] show ?thesis
      using i False isRuntime_attr [OF assms less] rt_from_step [OF less] unat_incr [OF i]
      by (subst advanceToNext.simps) auto
  qed
qed

lemma it_walk_rt:
  assumes "map_attrs m mp as"
  shows "unat i \<le> length as \<Longrightarrow> \<exists>j. advanceToNext m mp i = Some j
    \<and> it_walk m \<lparr>parent = Some mp, idx = j\<rparr>
        = Some (map (\<lambda>k. em_base mp + of_nat k * descSize mp) (rt_from as (unat i)))"
proof (induction "length as - unat i" arbitrary: i rule: less_induct)
  case less
  from advance_first [OF assms less(2)] obtain j where j: "advanceToNext m mp i = Some j"
    "unat i \<le> unat j" and first: "case rt_from as (unat i) of [] \<Rightarrow> unat j = length as
         | k # ks \<Rightarrow> unat j = k \<and> k < length as \<and> ks = rt_from as (Suc k)" by blast
  show ?case
  proof (cases "rt_from as (unat i)")
    case Nil
    with first assms have "\<not> j < efi_entryCount mp" by (simp add: map_attrs_def word_less_nat_alt)
    with j(1) Nil show ?thesis by (subst it_walk.simps) (simp add: it_valid_def)
  next
    case (Cons k ks)
    with first have k: "unat j = k" "k < length as" "ks = rt_from as (Suc k)" by simp_all
    then have valid: "j < efi_entryCount mp" using assms by (simp add: map_attrs_def word_less_nat_alt)
    note j1 = unat_incr [OF valid]
    have "length as - unat (j + 1) < length as - unat i" "unat (j + 1) \<le> length as"
      using j1 j(2) k by simp_all
    from less(1) [OF this] obtain j' where "advanceToNext m mp (j + 1) = Some j'"
      "it_walk m \<lparr>parent = Some mp, idx = j'\<rparr>
        = Some (map (\<lambda>k. em_base mp + of_nat k * descSize mp) (rt_from as (Suc k)))"
      using j1 k by auto
    moreover have "descriptorAt mp j = em_base mp + of_nat k * descSize mp"
      using descriptorAt_in [OF valid] k(1) of_nat_unat_64 [of j] by simp
    ultimately show ?thesis using j(1) valid k Cons
      by (subst it_walk.simps) (simp add: it_valid_def it_deref_def it_next_def)
  qed
qed

text \<open>
  C15: The loop from \<open>runtimeBegin\<close> while \<open>valid\<close> ends, and visits exactly the descriptors
  with the runtime attribute, each once and in the order of the map.
\<close>

theorem runtime_walk_complete:
  assumes "map_attrs m mp as"
  shows "\<exists>it. runtimeBegin m mp = Some it \<and> it_walk m it = Some
    (map (\<lambda>k. em_base mp + of_nat k * descSize mp)
       (filter (\<lambda>k. as ! k AND EFI_MEMORY_RUNTIME \<noteq> 0) [0..<length as]))"
  using it_walk_rt [OF assms, of 0]
  by (auto simp: runtimeBegin_def RuntimeIterator_def rt_from_def is_rt_def)

text \<open>Two descriptors 48 bytes apart, of which the second has the attribute.\<close>

definition two_descriptors :: mem where
  "two_descriptors =
     put_bytes (put_bytes Map.empty 0x1020 (le_bytes 8 0)) 0x1050 (le_bytes 8 0x8000000000000000)"

theorem runtime_walk_complete_witness:
  "\<exists>it. runtimeBegin two_descriptors \<lparr>em_base = 0x1000, totalSize = 96, descSize = 48,
       descVersion = 1, entry_count = 2\<rparr> = Some it
     \<and> it_walk two_descriptors it = Some [0x1030]"
proof -
  let ?mp = "\<lparr>em_base = 0x1000, totalSize = 96, descSize = 48, descVersion = 1, entry_count = 2\<rparr>"
  have "read64 two_descriptors 0x1020 = Some 0" "read64 two_descriptors 0x1050 = Some 0x8000000000000000"
    unfolding two_descriptors_def by code_simp+
  then have "map_attrs two_descriptors ?mp [0, 0x8000000000000000]"
    by (auto simp: map_attrs_def efi_entryCount_def less_Suc_eq)
  from runtime_walk_complete [OF this] show ?thesis
    by (simp add: EFI_MEMORY_RUNTIME_def upt_rec)
qed

text \<open>The end position is not valid, and the walk from it is empty.\<close>

lemma runtimeEnd_invalid:
  "runtimeEnd m mp = Some \<lparr>parent = Some mp, idx = efi_entryCount mp\<rparr>
     \<and> \<not> it_valid \<lparr>parent = Some mp, idx = efi_entryCount mp\<rparr>"
  by (simp add: runtimeEnd_def RuntimeIterator_def it_valid_def advanceToNext.simps)

text \<open>An iterator of a null map cannot be built, so \<open>valid\<close> never sees one.\<close>

lemma RuntimeIterator_null: "RuntimeIterator m None i = None"
  by (simp add: RuntimeIterator_def)

end
