(* ===== verification/Steps.thy ===== *)
theory Steps
  imports Prelude
begin

text \<open>
  Interleavings: a system of threads is a step relation \<open>step t s s'\<close>, in which thread \<open>t\<close>
  takes one atomic step. \<open>reach\<close> are the states of its runs, \<open>runs\<close> the finite
  continuations; \<open>step_system\<close> is what a component shows once of its invariant.
\<close>

inductive reach :: "('t \<Rightarrow> 's \<Rightarrow> 's \<Rightarrow> bool) \<Rightarrow> 's \<Rightarrow> 's \<Rightarrow> bool"
  for step :: "'t \<Rightarrow> 's \<Rightarrow> 's \<Rightarrow> bool" and s0 :: 's
where
  reach_start: "reach step s0 s0"
| reach_step: "reach step s0 s \<Longrightarrow> step t s s' \<Longrightarrow> reach step s0 s'"

lemma reach_trans: "reach step s1 s2 \<Longrightarrow> reach step s0 s1 \<Longrightarrow> reach step s0 s2"
  by (induction rule: reach.induct) (auto intro: reach_step)

lemma reach_one: "step t s s' \<Longrightarrow> reach step s s'"
  by (blast intro: reach_start reach_step)

locale step_system =
  fixes step :: "'t \<Rightarrow> 's \<Rightarrow> 's \<Rightarrow> bool"
    and start :: 's
    and inv :: "'s \<Rightarrow> bool"
  assumes inv_start: "inv start"
    and inv_step: "inv s \<Longrightarrow> step t s s' \<Longrightarrow> inv s'"
begin

lemma reach_inv: "reach step start s \<Longrightarrow> inv s"
  by (induction rule: reach.induct) (auto intro: inv_start inv_step)

lemma reach_inv_cont: "inv s \<Longrightarrow> reach step s s' \<Longrightarrow> inv s'"
  by (erule reach.induct) (auto intro: inv_step)

end

end
