(* ===== verification/Atomic.thy ===== *)
theory Atomic
  imports Steps
begin

text \<open>
  \<^verbatim>\<open>ktl::atomic\<close> (\<^verbatim>\<open>ktl/atomic\<close>): a 32- or 64-bit cell whose operations are single
  instructions. An operation is a function on the cell: its result and the cell after it.
  The type is a word of either width; the branches of the code for the two widths differ in
  the operand size of the instruction alone.
\<close>

definition atomic_init :: "'w::len word" where
  "atomic_init = 0"

definition atomic_of :: "'w::len word \<Rightarrow> 'w word" where
  "atomic_of desired = desired"

definition atomic_load :: "'w::len word \<Rightarrow> 'w word \<times> 'w word" where
  "atomic_load v = (v, v)"

definition atomic_store :: "'w::len word \<Rightarrow> 'w word \<Rightarrow> 'w word" where
  "atomic_store desired v = desired"

definition atomic_exchange :: "'w::len word \<Rightarrow> 'w word \<Rightarrow> 'w word \<times> 'w word" where
  "atomic_exchange desired v = (v, desired)"

text \<open>The instruction compares the accumulator with the cell and loads it where they differ.\<close>

definition cmpxchg :: "'w::len word \<Rightarrow> 'w word \<Rightarrow> 'w word \<Rightarrow> 'w word \<times> 'w word" where
  "cmpxchg acc desired v = (if v = acc then (acc, desired) else (v, v))"

text \<open>Result, the caller's \<open>expected\<close> afterwards, and the cell.\<close>

definition compare_exchange_strong ::
  "'w::len word \<Rightarrow> 'w word \<Rightarrow> 'w word \<Rightarrow> bool \<times> 'w word \<times> 'w word"
where
  "compare_exchange_strong expected desired v =
     (let (prev, v') = cmpxchg expected desired v
      in if prev = expected then (True, expected, v') else (False, prev, v'))"

definition xadd :: "'w::len word \<Rightarrow> 'w word \<Rightarrow> 'w word \<times> 'w word" where
  "xadd arg v = (v, v + arg)"

definition fetch_add :: "'w::len word \<Rightarrow> 'w word \<Rightarrow> 'w word \<times> 'w word" where
  "fetch_add arg v = xadd arg v"

definition fetch_sub :: "'w::len word \<Rightarrow> 'w word \<Rightarrow> 'w word \<times> 'w word" where
  "fetch_sub arg v = fetch_add (- arg) v"

subsection \<open>What the operations do\<close>

lemma cas_result:
  "compare_exchange_strong expected desired v =
     (if v = expected then (True, expected, desired) else (False, v, v))"
  by (simp add: compare_exchange_strong_def cmpxchg_def)

text \<open>
  A retry loop around compare-and-exchange, the way a lock-free update is written: apply
  \<open>f\<close> to the value last seen, and try again with the value found on failure. \<open>others\<close> are
  the values other threads leave in the cell before each attempt.
\<close>

fun cas_retry :: "('w::len word \<Rightarrow> 'w word) \<Rightarrow> 'w word \<Rightarrow> 'w word list \<Rightarrow> ('w word \<times> 'w word) option"
where
  "cas_retry f expected [] = None"
| "cas_retry f expected (v # vs) =
     (case compare_exchange_strong expected (f expected) v of
        (True, e, v') \<Rightarrow> Some (e, v')
      | (False, e, v') \<Rightarrow> cas_retry f e vs)"

text \<open>
  An update by compare-and-exchange is never lost: when the retry loop succeeds, the cell
  holds \<open>f\<close> of the very value that was in it at that moment, and the loop succeeds at the
  latest when the cell has been left alone between two attempts.
\<close>

theorem cas_retry_atomic:
  "(\<forall>old new. cas_retry f e vs = Some (old, new) \<longrightarrow> old \<in> set vs \<and> new = f old)
   \<and> (\<forall>us v ws. vs = us @ v # v # ws \<longrightarrow> cas_retry f e vs \<noteq> None)"
proof (intro conjI allI impI)
  fix old new assume "cas_retry f e vs = Some (old, new)"
  then show "old \<in> set vs" and "new = f old"
    by (induction vs arbitrary: e) (auto simp: cas_result split: if_splits)
next
  fix us v ws assume "vs = us @ v # v # ws"
  then show "cas_retry f e vs \<noteq> None"
    by (induction us arbitrary: e vs) (auto simp: cas_result)
qed

theorem cas_retry_atomic_witness:
  "cas_retry (\<lambda>x. x + 1) (0 :: 32 word) [5, 7, 7, 9] \<noteq> None"
  using cas_retry_atomic [of "\<lambda>x. x + 1" "0 :: 32 word" "[5, 7, 7, 9]"]
  by (metis append_Cons append_Nil)

text \<open>Adding and subtracting wrap around and undo each other.\<close>

lemma fetch_add_sub: "snd (fetch_sub a (snd (fetch_add a v))) = v"
  by (simp add: fetch_sub_def fetch_add_def xadd_def)

lemma fetch_sum: "fold (\<lambda>a v. snd (fetch_add a v)) xs v = v + sum_list xs"
  by (induction xs arbitrary: v) (simp_all add: fetch_add_def xadd_def add.assoc)

end
