(* ===== verification/SpinLock.thy ===== *)
theory SpinLock
  imports Atomic
begin

text \<open>
  \<^verbatim>\<open>ktl::SpinLock\<close> and \<^verbatim>\<open>ktl::AutoLock\<close> (\<^verbatim>\<open>ktl/atomic\<close>).

  The lock is one byte. A thread is where it stands in the code with its local \<open>tmp\<close>; its
  steps are the atomic accesses to the byte and the tests of \<open>tmp\<close>, in any interleaving with
  those of other threads. A thread calls \<open>unlock\<close> only while it holds the lock, and does not
  call \<open>lock\<close> or \<open>try_lock\<close> then: the code checks neither.
\<close>

datatype lock_pc =
    Idle
  | LockXchg u8
  | LockTest u8
  | TryXchg u8
  | TryTest u8
  | Holding

record 't spinlock =
  flag :: u8
  pc :: "'t \<Rightarrow> lock_pc"

definition spin_start :: "'t spinlock" where
  "spin_start = \<lparr>flag = 0, pc = (\<lambda>_. Idle)\<rparr>"

text \<open>\<^verbatim>\<open>lock xchg\<close>: the local and the byte change places in one step.\<close>

inductive spin_step :: "'t \<Rightarrow> 't spinlock \<Rightarrow> 't spinlock \<Rightarrow> bool" where
  call_lock: "pc s t = Idle \<Longrightarrow> spin_step t s (s\<lparr>pc := (pc s)(t := LockXchg 1)\<rparr>)"
| lock_xchg: "pc s t = LockXchg v \<Longrightarrow>
    spin_step t s (s\<lparr>flag := v, pc := (pc s)(t := LockTest (flag s))\<rparr>)"
| lock_taken: "pc s t = LockTest 0 \<Longrightarrow> spin_step t s (s\<lparr>pc := (pc s)(t := Holding)\<rparr>)"
| lock_again: "pc s t = LockTest v \<Longrightarrow> v \<noteq> 0 \<Longrightarrow>
    spin_step t s (s\<lparr>pc := (pc s)(t := LockXchg 1)\<rparr>)"
| call_try: "pc s t = Idle \<Longrightarrow> spin_step t s (s\<lparr>pc := (pc s)(t := TryXchg 1)\<rparr>)"
| try_xchg: "pc s t = TryXchg v \<Longrightarrow>
    spin_step t s (s\<lparr>flag := v, pc := (pc s)(t := TryTest (flag s))\<rparr>)"
| try_true: "pc s t = TryTest 0 \<Longrightarrow> spin_step t s (s\<lparr>pc := (pc s)(t := Holding)\<rparr>)"
| try_false: "pc s t = TryTest v \<Longrightarrow> v \<noteq> 0 \<Longrightarrow> spin_step t s (s\<lparr>pc := (pc s)(t := Idle)\<rparr>)"
| unlock: "pc s t = Holding \<Longrightarrow> spin_step t s (s\<lparr>flag := 0, pc := (pc s)(t := Idle)\<rparr>)"

inductive_cases spin_stepE: "spin_step t s s'"

subsection \<open>The invariant\<close>

text \<open>A thread owns the lock from the exchange that read 0 until its unlock.\<close>

fun owning :: "lock_pc \<Rightarrow> bool" where
  "owning Holding = True"
| "owning (LockTest v) = (v = 0)"
| "owning (TryTest v) = (v = 0)"
| "owning _ = False"

fun offers_one :: "lock_pc \<Rightarrow> bool" where
  "offers_one (LockXchg v) = (v = 1)"
| "offers_one (TryXchg v) = (v = 1)"
| "offers_one _ = True"

text \<open>The owner as a value: the state of the lock as its clients see it.\<close>

definition owned_by :: "'t spinlock \<Rightarrow> 't option \<Rightarrow> bool" where
  "owned_by s ow \<longleftrightarrow> (\<forall>t. owning (pc s t) \<longleftrightarrow> ow = Some t)
     \<and> flag s = (if ow = None then 0 else 1) \<and> (\<forall>t. offers_one (pc s t))"

text \<open>
  The specification: an owner that a step may set when there is none, and that only the
  owner's step may clear.
\<close>

inductive lock_spec :: "'t \<Rightarrow> 't option \<Rightarrow> 't option \<Rightarrow> bool" where
  acquire: "lock_spec t None (Some t)"
| release: "lock_spec t (Some t) None"
| stutter: "lock_spec t ow ow"

inductive_simps lock_spec_None: "lock_spec t None ow"
inductive_simps lock_spec_Some: "lock_spec t (Some u) ow"

lemma owned_start: "owned_by spin_start None"
  by (simp add: owned_by_def spin_start_def)

lemma owned_owning: "owned_by s ow \<Longrightarrow> owning (pc s t) \<longleftrightarrow> ow = Some t"
  by (simp add: owned_by_def)

text \<open>A step that leaves the byte alone and the thread's claim as it was.\<close>

lemma owned_local:
  "owned_by s ow \<Longrightarrow> owning p = owning (pc s t) \<Longrightarrow> offers_one p \<Longrightarrow>
     owned_by (s\<lparr>pc := (pc s)(t := p)\<rparr>) ow"
  by (auto simp: owned_by_def fun_upd_apply)

text \<open>One step of the code is one step of the specification.\<close>

lemma owned_step:
  assumes "owned_by s ow" and "spin_step t s s'"
  shows "\<exists>ow'. owned_by s' ow' \<and> lock_spec t ow ow'"
  using assms(2)
proof cases
  case (lock_xchg v)
  with assms(1) have v: "v = 1" by (auto simp: owned_by_def dest: spec [of _ t])
  show ?thesis
  proof (cases ow)
    case None
    with assms(1) lock_xchg v show ?thesis
      by (intro exI [of _ "Some t"]) (auto simp: owned_by_def fun_upd_apply intro: acquire)
  next
    case (Some u)
    have "u \<noteq> t" using owned_owning [OF assms(1), of t] lock_xchg Some by auto
    with assms(1) lock_xchg v Some show ?thesis
      by (intro exI [of _ ow]) (auto simp: owned_by_def fun_upd_apply intro: stutter)
  qed
next
  case (try_xchg v)
  with assms(1) have v: "v = 1" by (auto simp: owned_by_def dest: spec [of _ t])
  show ?thesis
  proof (cases ow)
    case None
    with assms(1) try_xchg v show ?thesis
      by (intro exI [of _ "Some t"]) (auto simp: owned_by_def fun_upd_apply intro: acquire)
  next
    case (Some u)
    have "u \<noteq> t" using owned_owning [OF assms(1), of t] try_xchg Some by auto
    with assms(1) try_xchg v Some show ?thesis
      by (intro exI [of _ ow]) (auto simp: owned_by_def fun_upd_apply intro: stutter)
  qed
next
  case unlock
  with assms(1) have "ow = Some t" by (auto simp: owned_by_def)
  with assms(1) unlock show ?thesis
    by (intro exI [of _ None]) (auto simp: owned_by_def fun_upd_apply intro: release)
qed (auto intro!: exI [of _ ow] stutter owned_local [OF assms(1)])

interpretation spin: step_system spin_step spin_start "\<lambda>s. \<exists>ow. owned_by s ow"
  by unfold_locales (auto intro: owned_start dest: owned_step)

lemma owned_by_unique: "owned_by s a \<Longrightarrow> owned_by s b \<Longrightarrow> a = b"
  by (cases a; cases b) (auto simp: owned_by_def)

text \<open>
  C6: Mutual exclusion: in every interleaving of \<open>lock\<close>, \<open>try_lock\<close> and \<open>unlock\<close> by any number
  of threads, at most one thread is past a \<open>lock\<close> or a successful \<open>try_lock\<close> and not yet past
  its \<open>unlock\<close>.
\<close>

theorem spinlock_mutual_exclusion:
  assumes "reach spin_step spin_start s" and "pc s t = Holding" and "pc s u = Holding"
  shows "t = u"
proof -
  obtain ow where "owned_by s ow" using spin.reach_inv [OF assms(1)] by blast
  then have "ow = Some t" "ow = Some u" using assms by (auto simp: owned_by_def)
  then show ?thesis by simp
qed

text \<open>
  C18: The spin lock refines the abstract lock: every reachable state has one abstract owner,
  and every step of a thread is an acquisition by it when there is no owner, a release by it
  when it is the owner, or changes nothing. The flag is set exactly while there is an owner.
\<close>

theorem spinlock_refines_lock:
  assumes "reach spin_step spin_start s" and "spin_step t s s'"
  shows "\<exists>ow ow'. owned_by s ow \<and> owned_by s' ow' \<and> lock_spec t ow ow'
    \<and> (flag s = 0 \<longleftrightarrow> ow = None)"
proof -
  obtain ow where ow: "owned_by s ow" using spin.reach_inv [OF assms(1)] by blast
  then have "flag s = 0 \<longleftrightarrow> ow = None" by (auto simp: owned_by_def)
  with ow owned_step [OF ow assms(2)] show ?thesis by blast
qed

subsection \<open>Progress\<close>

text \<open>A thread that runs alone inside \<open>lock\<close> takes a free lock.\<close>

lemma lock_free_progress:
  assumes "pc s t = LockXchg v" and "flag s = 0"
  shows "\<exists>s'. reach spin_step s s' \<and> pc s' t = Holding"
proof -
  let ?s1 = "s\<lparr>flag := v, pc := (pc s)(t := LockTest 0)\<rparr>"
  have "spin_step t s ?s1" using lock_xchg [of s t v] assms by simp
  then have "reach spin_step s ?s1" by (rule reach_one)
  moreover have "spin_step t ?s1 (?s1\<lparr>pc := (pc ?s1)(t := Holding)\<rparr>)"
    by (rule lock_taken) simp
  ultimately have "reach spin_step s (?s1\<lparr>pc := (pc ?s1)(t := Holding)\<rparr>)" by (rule reach_step)
  moreover have "pc (?s1\<lparr>pc := (pc ?s1)(t := Holding)\<rparr>) t = Holding" by simp
  ultimately show ?thesis by blast
qed

text \<open>The owner gets to its \<open>unlock\<close> by its own steps.\<close>

lemma owner_releases:
  assumes "owned_by s (Some u)"
  shows "\<exists>s'. reach spin_step s s' \<and> flag s' = 0 \<and> (\<forall>t. t \<noteq> u \<longrightarrow> pc s' t = pc s t)"
proof -
  have "owning (pc s u)" using assms by (simp add: owned_by_def)
  then obtain s1 where s1: "reach spin_step s s1" "pc s1 u = Holding"
    "\<forall>t. t \<noteq> u \<longrightarrow> pc s1 t = pc s t"
  proof (cases rule: owning.cases [of "pc s u"])
    case (2 v)
    with \<open>owning (pc s u)\<close> have "pc s u = LockTest 0" by simp
    from lock_taken [OF this] show ?thesis
      by (intro that [of "s\<lparr>pc := (pc s)(u := Holding)\<rparr>"]) (auto intro: reach_one)
  next
    case (3 v)
    with \<open>owning (pc s u)\<close> have "pc s u = TryTest 0" by simp
    from try_true [OF this] show ?thesis
      by (intro that [of "s\<lparr>pc := (pc s)(u := Holding)\<rparr>"]) (auto intro: reach_one)
  qed (auto intro: reach_start that)
  let ?s2 = "s1\<lparr>flag := 0, pc := (pc s1)(u := Idle)\<rparr>"
  have "reach spin_step s ?s2" using s1(1) unlock [OF s1(2)] by (rule reach_step)
  with s1(3) show ?thesis by (intro exI [of _ ?s2]) auto
qed

text \<open>
  C14: No deadlock: from every reachable state, a thread that waits in \<open>lock\<close> can still get the
  lock, whoever holds it, if the holder gets to run and release it. The lock is not fair: it
  does not promise that the thread does, for others may come first every time.
\<close>

theorem spinlock_no_deadlock:
  assumes "reach spin_step spin_start s" and "pc s t = LockXchg v \<or> pc s t = LockTest v"
  shows "\<exists>s'. reach spin_step s s' \<and> pc s' t = Holding"
proof -
  obtain ow where ow: "owned_by s ow" using spin.reach_inv [OF assms(1)] by blast
  obtain s1 w where s1: "reach spin_step s s1" "pc s1 t = Holding \<or> pc s1 t = LockXchg w \<and> owned_by s1 ow"
  proof (cases "pc s t = LockXchg v")
    case True
    then show ?thesis using ow by (blast intro: reach_start that)
  next
    case False
    with assms(2) have v: "pc s t = LockTest v" by simp
    show ?thesis
    proof (cases "v = 0")
      case True
      with lock_taken [of s t] v show ?thesis
        by (intro that [of "s\<lparr>pc := (pc s)(t := Holding)\<rparr>"]) (auto intro: reach_one)
    next
      case v0: False
      have st: "spin_step t s (s\<lparr>pc := (pc s)(t := LockXchg 1)\<rparr>)" by (rule lock_again [OF v v0])
      have "owned_by (s\<lparr>pc := (pc s)(t := LockXchg 1)\<rparr>) ow"
        using v v0 by (intro owned_local [OF ow]) simp_all
      with st show ?thesis
        by (intro that [of "s\<lparr>pc := (pc s)(t := LockXchg 1)\<rparr>"]) (auto intro: reach_one)
    qed
  qed
  show ?thesis
  proof (cases "pc s1 t = Holding")
    case False
    with s1 have w: "pc s1 t = LockXchg w" and ow1: "owned_by s1 ow" by auto
    obtain s2 where s2: "reach spin_step s1 s2" "flag s2 = 0" "pc s2 t = LockXchg w"
    proof (cases ow)
      case None
      then show ?thesis using ow1 w by (auto simp: owned_by_def intro: reach_start that)
    next
      case (Some u)
      with owned_owning [OF ow1, of t] w have "t \<noteq> u" by auto
      with owner_releases [of s1 u] ow1 Some w show ?thesis by (auto intro: that)
    qed
    from lock_free_progress [OF s2(3,2)] s1(1) s2(1) show ?thesis by (blast intro: reach_trans)
  qed (use s1 in blast)
qed

text \<open>A thread in \<open>lock\<close> on a free lock, and the state where it holds it.\<close>

definition spin_waiting :: "nat spinlock" where
  "spin_waiting = spin_start\<lparr>pc := (pc spin_start)(0 := LockXchg 1)\<rparr>"

lemma waiting_step: "spin_step 0 spin_start spin_waiting"
  unfolding spin_waiting_def by (rule call_lock) (simp add: spin_start_def)

lemma waiting_reachable: "reach spin_step spin_start spin_waiting"
  by (rule reach_one) (rule waiting_step)

lemma waiting_state: "pc spin_waiting 0 = LockXchg 1 \<and> flag spin_waiting = 0"
  by (simp add: spin_waiting_def spin_start_def)

theorem spinlock_mutual_exclusion_witness:
  "\<exists>s. reach spin_step (spin_start :: nat spinlock) s \<and> pc s 0 = Holding \<and> pc s 1 \<noteq> Holding"
proof -
  obtain s where s: "reach spin_step spin_waiting s"
    "pc s 0 = Holding"
    using lock_free_progress [of spin_waiting 0 1]
    by (auto simp: waiting_state)
  have "reach spin_step spin_start s" using reach_trans [OF s(1) waiting_reachable] .
  moreover have "pc s 1 \<noteq> Holding"
    using spinlock_mutual_exclusion [OF calculation s(2), of 1] by auto
  ultimately show ?thesis using s(2) by blast
qed

theorem spinlock_refines_lock_witness:
  "\<exists>ow ow'. owned_by (spin_start :: nat spinlock) ow
     \<and> owned_by spin_waiting ow' \<and> lock_spec 0 ow ow'"
  using spinlock_refines_lock [OF reach_start waiting_step] by blast

theorem spinlock_no_deadlock_witness:
  "\<exists>s'. reach spin_step spin_waiting s'
     \<and> pc s' (0 :: nat) = Holding"
  by (rule spinlock_no_deadlock [OF waiting_reachable, of 0 1]) (simp add: waiting_state)

end
