(* ===== verification/AutoLock.thy ===== *)
theory AutoLock
  imports SpinLock
begin

text \<open>
  \<^verbatim>\<open>ktl::AutoLock\<close> (\<^verbatim>\<open>ktl/atomic\<close>): it locks in the constructor and unlocks in the destructor,
  for any lock type. The code of the scope is \<open>body\<close>, a function on the lock and the data it
  protects; \<open>None\<close> is a body, or a \<open>lock\<close>, that does not return. Here one thread runs alone.

  \<open>lockable\<close> is what \<open>AutoLock\<close> needs of its template parameter.
\<close>

text \<open>The spin lock as one thread sees it that runs alone: its byte.\<close>

partial_function (option) spin_lock :: "u8 \<Rightarrow> u8 option" where
  "spin_lock fl = (let (tmp, fl') = atomic_exchange 1 fl in if tmp = 0 then Some fl' else spin_lock fl')"

definition spin_try_lock :: "u8 \<Rightarrow> bool \<times> u8" where
  "spin_try_lock fl = (let (tmp, fl') = atomic_exchange 1 fl in (tmp = 0, fl'))"

definition spin_unlock :: "u8 \<Rightarrow> u8" where
  "spin_unlock fl = 0"

definition autolock ::
  "('l \<Rightarrow> 'l option) \<Rightarrow> ('l \<Rightarrow> 'l) \<Rightarrow> ('l \<times> 'd \<Rightarrow> ('r \<times> 'l \<times> 'd) option) \<Rightarrow> 'l \<times> 'd
     \<Rightarrow> ('r \<times> 'l \<times> 'd) option"
where
  "autolock lock unlock body = (\<lambda>(l, d). do {
     l \<leftarrow> lock l;
     (r, l, d) \<leftarrow> body (l, d);
     Some (r, unlock l, d)
   })"

locale lockable =
  fixes lock :: "'l \<Rightarrow> 'l option"
    and unlock :: "'l \<Rightarrow> 'l"
    and free :: "'l \<Rightarrow> bool"
  assumes lock_free: "free l \<Longrightarrow> \<exists>l'. lock l = Some l' \<and> \<not> free l'"
    and lock_held: "\<not> free l \<Longrightarrow> lock l = None"
    and unlock_frees: "free (unlock l)"
begin

text \<open>The scope ends with the lock free, on whatever state the body leaves.\<close>

lemma autolock_frees:
  "autolock lock unlock body (l, d) = Some (r, l', d') \<Longrightarrow> free l'"
  by (auto simp: autolock_def bind_eq_Some_conv intro: unlock_frees)

lemma autolock_returns:
  assumes "free l" and "\<And>l. \<not> free l \<Longrightarrow> \<exists>l'. body (l, d) = Some (r, l', d')"
  shows "\<exists>l'. autolock lock unlock body (l, d) = Some (r, l', d') \<and> free l'"
proof -
  obtain l1 where "lock l = Some l1" "\<not> free l1" using lock_free [OF assms(1)] by blast
  moreover from assms(2) [OF this(2)] obtain l2 where "body (l1, d) = Some (r, l2, d')" by blast
  ultimately show ?thesis using unlock_frees by (auto simp: autolock_def)
qed

text \<open>A second scope over the same lock inside the first does not return.\<close>

lemma autolock_nested:
  "autolock lock unlock (autolock lock unlock body) (l, d) = None"
proof (cases "free l")
  case True
  then obtain l' where "lock l = Some l'" "\<not> free l'" using lock_free by blast
  then show ?thesis by (simp add: autolock_def lock_held)
qed (simp add: autolock_def lock_held)

end

text \<open>Alone on a taken lock, the loop of \<open>lock\<close> exchanges 1 for 1 for ever.\<close>

lemma spin_lock_free: "spin_lock 0 = Some 1"
  by (subst spin_lock.simps) (simp add: atomic_exchange_def)

lemma spin_lock_returns: "spin_lock fl = Some fl' \<Longrightarrow> fl = 0"
proof (erule spin_lock.raw_induct [where P = "\<lambda>fl _. fl = 0", rotated])
  fix lk :: "u8 \<Rightarrow> u8 option" and fl y
  assume IH: "\<And>fl y. lk fl = Some y \<Longrightarrow> fl = 0"
    and "(let (tmp, fl') = atomic_exchange 1 fl in if tmp = 0 then Some fl' else lk fl') = Some y"
  then show "fl = 0" using IH [of 1 y] by (simp add: atomic_exchange_def split: if_splits)
qed

lemma spin_lock_taken: "fl \<noteq> 0 \<Longrightarrow> spin_lock fl = None"
  using spin_lock_returns by (cases "spin_lock fl") auto

interpretation autolock_spin: lockable spin_lock spin_unlock "\<lambda>fl. fl = 0"
  by unfold_locales (simp_all add: spin_lock_free spin_lock_taken spin_unlock_def)

text \<open>
  A scope of \<open>AutoLock\<close> over a free spin lock runs its body with the lock taken, once, and
  leaves the lock free whatever the body did to it; a second scope over the same lock inside
  the first never returns.
\<close>

theorem autolock_scope:
  "autolock spin_lock spin_unlock body (0, d) =
     map_option (\<lambda>(r, l, d'). (r, 0, d')) (body (1, d))
   \<and> autolock spin_lock spin_unlock (autolock spin_lock spin_unlock body) (l, d) = None"
  using autolock_spin.autolock_nested [of body l d]
  by (cases "body (1, d)") (auto simp: autolock_def spin_lock_free spin_unlock_def)

end
