(* ===== verification/CallOnce.thy ===== *)
theory CallOnce
  imports Steps
begin

text \<open>
  \<^verbatim>\<open>ktl::call_once\<close> (\<^verbatim>\<open>ktl/call_once\<close>): threads that call it on one flag, in any interleaving
  of their atomic accesses. The function is the two steps of its start and its return; the
  counters \<open>started\<close> and \<open>finished\<close> say how often. It does not itself call \<open>call_once\<close> on the
  flag.
\<close>

datatype once_pc =
    Load
  | Cas
  | CallFunc
  | InFunc
  | StoreDone
  | Wait
  | Returned

record 't once_flag =
  once_state :: int
  once_pc :: "'t \<Rightarrow> once_pc"
  started :: nat
  finished :: nat

definition once_start :: "'t once_flag" where
  "once_start = \<lparr>once_state = 0, once_pc = (\<lambda>_. Load), started = 0, finished = 0\<rparr>"

inductive once_step :: "'t \<Rightarrow> 't once_flag \<Rightarrow> 't once_flag \<Rightarrow> bool" where
  load_done: "once_pc s t = Load \<Longrightarrow> once_state s = 2 \<Longrightarrow>
    once_step t s (s\<lparr>once_pc := (once_pc s)(t := Returned)\<rparr>)"
| load_other: "once_pc s t = Load \<Longrightarrow> once_state s \<noteq> 2 \<Longrightarrow>
    once_step t s (s\<lparr>once_pc := (once_pc s)(t := Cas)\<rparr>)"
| cas_won: "once_pc s t = Cas \<Longrightarrow> once_state s = 0 \<Longrightarrow>
    once_step t s (s\<lparr>once_state := 1, once_pc := (once_pc s)(t := CallFunc)\<rparr>)"
| cas_lost: "once_pc s t = Cas \<Longrightarrow> once_state s \<noteq> 0 \<Longrightarrow>
    once_step t s (s\<lparr>once_pc := (once_pc s)(t := Wait)\<rparr>)"
| func_starts: "once_pc s t = CallFunc \<Longrightarrow>
    once_step t s (s\<lparr>started := started s + 1, once_pc := (once_pc s)(t := InFunc)\<rparr>)"
| func_returns: "once_pc s t = InFunc \<Longrightarrow>
    once_step t s (s\<lparr>finished := finished s + 1, once_pc := (once_pc s)(t := StoreDone)\<rparr>)"
| store_done: "once_pc s t = StoreDone \<Longrightarrow>
    once_step t s (s\<lparr>once_state := 2, once_pc := (once_pc s)(t := Returned)\<rparr>)"
| wait_pause: "once_pc s t = Wait \<Longrightarrow> once_state s \<noteq> 2 \<Longrightarrow> once_step t s s"
| wait_over: "once_pc s t = Wait \<Longrightarrow> once_state s = 2 \<Longrightarrow>
    once_step t s (s\<lparr>once_pc := (once_pc s)(t := Returned)\<rparr>)"

subsection \<open>The invariant\<close>

text \<open>The thread that won the exchange, and how far its call has come.\<close>

fun active :: "once_pc \<Rightarrow> bool" where
  "active CallFunc = True"
| "active InFunc = True"
| "active StoreDone = True"
| "active _ = False"

fun progress :: "once_pc \<Rightarrow> nat \<times> nat" where
  "progress InFunc = (1, 0)"
| "progress StoreDone = (1, 1)"
| "progress _ = (0, 0)"

text \<open>Not yet called, being called by \<open>w\<close>, or called.\<close>

datatype 't once_phase = Fresh | By 't | Done

fun phase_inv :: "'t once_flag \<Rightarrow> 't once_phase \<Rightarrow> bool" where
  "phase_inv s Fresh = (once_state s = 0 \<and> (started s, finished s) = (0, 0)
     \<and> (\<forall>t. \<not> active (once_pc s t) \<and> once_pc s t \<noteq> Returned \<and> once_pc s t \<noteq> Wait))"
| "phase_inv s (By w) = (once_state s = 1 \<and> (started s, finished s) = progress (once_pc s w)
     \<and> (\<forall>t. active (once_pc s t) \<longleftrightarrow> t = w) \<and> (\<forall>t. once_pc s t \<noteq> Returned))"
| "phase_inv s Done = (once_state s = 2 \<and> (started s, finished s) = (1, 1)
     \<and> (\<forall>t. \<not> active (once_pc s t)))"

lemma phase_start: "phase_inv once_start Fresh"
  by (simp add: once_start_def)

lemma phase_idle_step:
  "phase_inv s ph \<Longrightarrow> \<not> active (once_pc s t) \<Longrightarrow> \<not> active p \<Longrightarrow> p = Returned \<longrightarrow> ph = Done \<Longrightarrow>
     p = Wait \<longrightarrow> ph \<noteq> Fresh \<Longrightarrow> phase_inv (s\<lparr>once_pc := (once_pc s)(t := p)\<rparr>) ph"
  by (cases ph) (auto simp: fun_upd_apply)

lemma phase_step:
  assumes "phase_inv s ph" and "once_step t s s'"
  shows "\<exists>ph'. phase_inv s' ph'"
  using assms(2)
proof cases
  case load_done
  with assms(1) have "ph = Done" by (cases ph) auto
  then have "phase_inv s' ph" unfolding load_done(1)
    by (intro phase_idle_step [OF assms(1)]) (simp_all add: load_done)
  then show ?thesis ..
next
  case load_other
  have "phase_inv s' ph" unfolding load_other(1)
    by (intro phase_idle_step [OF assms(1)]) (simp_all add: load_other)
  then show ?thesis ..
next
  case cas_won
  with assms(1) have "ph = Fresh" by (cases ph) auto
  with cas_won assms(1) show ?thesis
    by (intro exI [of _ "By t"]) (auto simp: fun_upd_apply)
next
  case cas_lost
  with assms(1) have "ph \<noteq> Fresh" by auto
  then have "phase_inv s' ph" unfolding cas_lost(1)
    by (intro phase_idle_step [OF assms(1)]) (simp_all add: cas_lost)
  then show ?thesis ..
next
  case func_starts
  with assms(1) have "ph = By t" by (cases ph) (auto dest: spec [of _ t])
  with func_starts assms(1) show ?thesis
    by (intro exI [of _ "By t"]) (auto simp: fun_upd_apply)
next
  case func_returns
  with assms(1) have "ph = By t" by (cases ph) (auto dest: spec [of _ t])
  with func_returns assms(1) show ?thesis
    by (intro exI [of _ "By t"]) (auto simp: fun_upd_apply)
next
  case store_done
  with assms(1) have "ph = By t" by (cases ph) (auto dest: spec [of _ t])
  with store_done assms(1) show ?thesis
    by (intro exI [of _ Done]) (auto simp: fun_upd_apply)
next
  case wait_over
  with assms(1) have "ph = Done" by (cases ph) auto
  then have "phase_inv s' ph" unfolding wait_over(1)
    by (intro phase_idle_step [OF assms(1)]) (simp_all add: wait_over)
  then show ?thesis ..
qed (use assms(1) in blast)

interpretation once: step_system once_step once_start "\<lambda>s. \<exists>ph. phase_inv s ph"
  by unfold_locales (auto intro: phase_start dest: phase_step simp del: phase_inv.simps)

text \<open>
  C11: Exactly once: in every interleaving the function is started at most once, and no call of
  \<open>call_once\<close> returns before it has been started once and has returned once.
\<close>

theorem call_once_exactly_once:
  assumes "reach once_step once_start s"
  shows "started s \<le> 1 \<and> finished s \<le> started s
    \<and> (\<forall>t. once_pc s t = Returned \<longrightarrow> started s = 1 \<and> finished s = 1)"
proof -
  obtain ph where "phase_inv s ph" using once.reach_inv [OF assms] by blast
  moreover have "fst (progress p) \<le> 1 \<and> snd (progress p) \<le> fst (progress p)" for p
    by (cases p) auto
  ultimately show ?thesis
    by (cases ph) (auto simp: prod_eq_iff; metis fst_conv snd_conv)+
qed

subsection \<open>Waiting ends\<close>

lemmas once_reach_one = reach_one [where step = once_step]

text \<open>The winner completes its call by its own steps, if the function returns.\<close>

lemma winner_completes:
  assumes "phase_inv s (By w)" and "once_pc s t = Wait"
  shows "\<exists>s'. reach once_step s s' \<and> once_state s' = 2 \<and> once_pc s' t = Wait"
proof -
  have act: "active (once_pc s w)" using assms(1) by simp
  with assms(2) have tw: "t \<noteq> w" by auto
  have store: "\<exists>s'. reach once_step s s' \<and> once_state s' = 2 \<and> once_pc s' t = Wait"
    if "once_pc s w = StoreDone" "once_pc s t = Wait" for s
    using once_reach_one [OF store_done [OF that(1)]] that(2) tw
    by (intro exI [of _ "s\<lparr>once_state := 2, once_pc := (once_pc s)(w := Returned)\<rparr>"]) auto
  have ret: "\<exists>s'. reach once_step s s' \<and> once_state s' = 2 \<and> once_pc s' t = Wait"
    if "once_pc s w = InFunc" "once_pc s t = Wait" for s
    using once_reach_one [OF func_returns [OF that(1)]] that(2) tw
      store [of "s\<lparr>finished := finished s + 1, once_pc := (once_pc s)(w := StoreDone)\<rparr>"]
    by (auto intro: reach_trans)
  from act consider "once_pc s w = CallFunc" | "once_pc s w = InFunc" | "once_pc s w = StoreDone"
    by (cases "once_pc s w") auto
  then show ?thesis
  proof cases
    case 1
    then show ?thesis
      using once_reach_one [OF func_starts [OF 1]] assms(2) tw
        ret [of "s\<lparr>started := started s + 1, once_pc := (once_pc s)(w := InFunc)\<rparr>"]
      by (auto intro: reach_trans)
  qed (use ret store assms(2) in auto)
qed

text \<open>
  C36: No lost waiter: from every reachable state a thread that lost the exchange and waits can
  still return, provided the function returns to the thread that calls it.
\<close>

theorem call_once_waiter_returns:
  assumes "reach once_step once_start s" and "once_pc s t = Wait"
  shows "\<exists>s'. reach once_step s s' \<and> once_pc s' t = Returned"
proof -
  obtain ph where ph: "phase_inv s ph" using once.reach_inv [OF assms(1)] by blast
  obtain s1 where s1: "reach once_step s s1" "once_state s1 = 2" "once_pc s1 t = Wait"
  proof (cases ph)
    case Fresh
    with ph assms(2) show ?thesis by auto
  next
    case (By w)
    with ph show ?thesis using winner_completes [of s w t] assms(2) that by blast
  next
    case Done
    with ph assms(2) show ?thesis by (auto intro: that reach_start)
  qed
  from wait_over [OF s1(3,2)] have "once_step t s1 (s1\<lparr>once_pc := (once_pc s1)(t := Returned)\<rparr>)" .
  with s1(1) show ?thesis by (intro exI [of _ "s1\<lparr>once_pc := (once_pc s1)(t := Returned)\<rparr>"])
      (auto intro: reach_step)
qed

text \<open>One thread calls, and runs its call through; another comes while the function runs.\<close>

definition once_second_waits :: "nat once_flag" where
  "once_second_waits = \<lparr>once_state = 1, once_pc = (\<lambda>_. Load)(0 := InFunc, 1 := Wait),
     started = 1, finished = 0\<rparr>"

lemma once_second_waits_reachable: "reach once_step once_start once_second_waits"
proof -
  let ?step = "once_step :: nat \<Rightarrow> _" and ?s0 = "once_start :: nat once_flag"
  let ?s1 = "?s0\<lparr>once_pc := (once_pc ?s0)(0 := Cas)\<rparr>"
  let ?s2 = "?s1\<lparr>once_state := 1, once_pc := (once_pc ?s1)(0 := CallFunc)\<rparr>"
  let ?s3 = "?s2\<lparr>started := started ?s2 + 1, once_pc := (once_pc ?s2)(0 := InFunc)\<rparr>"
  let ?s4 = "?s3\<lparr>once_pc := (once_pc ?s3)(1 := Cas)\<rparr>"
  let ?s5 = "?s4\<lparr>once_pc := (once_pc ?s4)(1 := Wait)\<rparr>"
  have "reach ?step ?s0 ?s1"
    by (rule once_reach_one, rule load_other) (simp_all add: once_start_def)
  then have "reach ?step ?s0 ?s2"
    by (rule reach_step) (rule cas_won, simp_all add: once_start_def)
  then have "reach ?step ?s0 ?s3" by (rule reach_step) (rule func_starts, simp)
  then have "reach ?step ?s0 ?s4"
    by (rule reach_step) (rule load_other, simp_all add: once_start_def)
  then have "reach ?step ?s0 ?s5" by (rule reach_step) (rule cas_lost, simp_all)
  moreover have "?s5 = once_second_waits"
    by (simp add: once_start_def once_second_waits_def fun_eq_iff fun_upd_apply)
  ultimately show ?thesis by simp
qed

theorem call_once_exactly_once_witness:
  "started once_second_waits \<le> 1 \<and> once_pc once_second_waits 1 \<noteq> Returned"
  using call_once_exactly_once [OF once_second_waits_reachable]
  by (auto simp: once_second_waits_def)

theorem call_once_waiter_returns_witness:
  "\<exists>s'. reach once_step once_second_waits s' \<and> once_pc s' 1 = Returned"
  by (rule call_once_waiter_returns [OF once_second_waits_reachable])
    (simp add: once_second_waits_def)

end
