(* ===== verification/Optional.thy ===== *)
theory Optional
  imports Prelude
begin

text \<open>
  \<^verbatim>\<open>ktl::optional\<close> (\<^verbatim>\<open>ktl/optional\<close>): raw storage for an object and the flag \<open>m_engaged\<close>.

  \<open>m_data\<close> holds \<open>Some v\<close> while an object lives in the storage and \<open>None\<close> while it is raw
  bytes. \<open>built\<close> and \<open>destroyed\<close> count the objects whose life began and ended in it. An
  operation of value \<open>None\<close> reads or destroys an object that is not there. Placement new over
  a living object is not a fault: that object is never destroyed, which the counters show.

  Moving from an object leaves \<open>mv v\<close> behind, for the move constructor of \<open>T\<close> is not known.
  A failed \<^verbatim>\<open>assert\<close> traps and has value \<open>None\<close> too.
\<close>

record 'a optional =
  m_data :: "'a option"
  m_engaged :: bool
  built :: nat
  destroyed :: nat

text \<open>Storage nothing has been built in.\<close>

definition raw :: "bool \<Rightarrow> 'a optional" where
  "raw e = \<lparr>m_data = None, m_engaged = e, built = 0, destroyed = 0\<rparr>"

definition placement_new :: "'a \<Rightarrow> 'a optional \<Rightarrow> 'a optional" where
  "placement_new v x = x\<lparr>m_data := Some v, built := built x + 1\<rparr>"

definition run_destructor :: "'a optional \<Rightarrow> 'a optional option" where
  "run_destructor x = (case m_data x of
     None \<Rightarrow> None
   | Some _ \<Rightarrow> Some (x\<lparr>m_data := None, destroyed := destroyed x + 1\<rparr>))"

text \<open>\<^verbatim>\<open>operator*\<close> does not test the flag.\<close>

definition opt_deref :: "'a optional \<Rightarrow> 'a option" where
  "opt_deref x = m_data x"

definition opt_write :: "'a \<Rightarrow> 'a optional \<Rightarrow> 'a optional option" where
  "opt_write v x = (case m_data x of None \<Rightarrow> None | Some _ \<Rightarrow> Some (x\<lparr>m_data := Some v\<rparr>))"

definition has_value :: "'a optional \<Rightarrow> bool" where
  "has_value x = m_engaged x"

definition opt_value :: "'a optional \<Rightarrow> 'a option" where
  "opt_value x = (if m_engaged x then opt_deref x else None)"

definition value_or :: "'a \<Rightarrow> 'a optional \<Rightarrow> 'a option" where
  "value_or d x = (if m_engaged x then opt_deref x else Some d)"

definition opt_reset :: "'a optional \<Rightarrow> 'a optional option" where
  "opt_reset x =
     (if m_engaged x then do { x \<leftarrow> run_destructor x; Some (x\<lparr>m_engaged := False\<rparr>) }
      else Some x)"

definition emplace :: "'a \<Rightarrow> 'a optional \<Rightarrow> 'a optional option" where
  "emplace v x = do {
     x \<leftarrow> opt_reset x;
     Some ((placement_new v x)\<lparr>m_engaged := True\<rparr>)
   }"

subsection \<open>Construction\<close>

definition opt_none :: "'a optional" where
  "opt_none = raw False"

definition opt_of :: "'a \<Rightarrow> 'a optional" where
  "opt_of v = placement_new v (raw True)"

definition opt_in_place :: "'a \<Rightarrow> 'a optional" where
  "opt_in_place v = placement_new v (raw True)"

definition opt_copy :: "'a optional \<Rightarrow> 'a optional option" where
  "opt_copy other =
     (if m_engaged other then do {
        v \<leftarrow> opt_deref other;
        Some (placement_new v (raw (m_engaged other)))
      } else Some (raw (m_engaged other)))"

text \<open>Result and the moved-from optional, which stays engaged.\<close>

definition opt_move :: "('a \<Rightarrow> 'a) \<Rightarrow> 'a optional \<Rightarrow> ('a optional \<times> 'a optional) option" where
  "opt_move mv other =
     (if m_engaged other then do {
        v \<leftarrow> opt_deref other;
        other \<leftarrow> opt_write (mv v) other;
        Some (placement_new v (raw (m_engaged other)), other)
      } else Some (raw (m_engaged other), other))"

text \<open>\<^verbatim>\<open>~optional\<close> resets; the storage is gone afterwards.\<close>

definition opt_destroy :: "'a optional \<Rightarrow> 'a optional option" where
  "opt_destroy x = opt_reset x"

subsection \<open>Assignment\<close>

definition assign_nullopt :: "'a optional \<Rightarrow> 'a optional option" where
  "assign_nullopt x = opt_reset x"

text \<open>From another optional; of one to itself, the code returns at once.\<close>

definition assign_copy :: "'a optional \<Rightarrow> 'a optional \<Rightarrow> 'a optional option" where
  "assign_copy other x =
     (if m_engaged x \<and> m_engaged other then do { v \<leftarrow> opt_deref other; opt_write v x }
      else if m_engaged x then opt_reset x
      else if m_engaged other then do { v \<leftarrow> opt_deref other; emplace v x }
      else Some x)"

definition assign_move :: "('a \<Rightarrow> 'a) \<Rightarrow> 'a optional \<Rightarrow> 'a optional \<Rightarrow> ('a optional \<times> 'a optional) option"
where
  "assign_move mv other x =
     (if m_engaged x \<and> m_engaged other then do {
        v \<leftarrow> opt_deref other;
        other \<leftarrow> opt_write (mv v) other;
        x \<leftarrow> opt_write v x;
        Some (x, other)
      }
      else if m_engaged x then do { x \<leftarrow> opt_reset x; Some (x, other) }
      else if m_engaged other then do {
        v \<leftarrow> opt_deref other;
        other \<leftarrow> opt_write (mv v) other;
        x \<leftarrow> emplace v x;
        Some (x, other)
      }
      else Some (x, other))"

definition assign_value :: "'a \<Rightarrow> 'a optional \<Rightarrow> 'a optional option" where
  "assign_value v x = (if m_engaged x then opt_write v x else emplace v x)"

definition opt_swap :: "('a \<Rightarrow> 'a) \<Rightarrow> 'a optional \<Rightarrow> 'a optional \<Rightarrow> ('a optional \<times> 'a optional) option"
where
  "opt_swap mv x y =
     (if m_engaged x \<and> m_engaged y then do {
        v \<leftarrow> opt_deref x;
        w \<leftarrow> opt_deref y;
        x \<leftarrow> opt_write w x;
        y \<leftarrow> opt_write v y;
        Some (x, y)
      }
      else if m_engaged x then do {
        v \<leftarrow> opt_deref x;
        x \<leftarrow> opt_write (mv v) x;
        y \<leftarrow> emplace v y;
        x \<leftarrow> opt_reset x;
        Some (x, y)
      }
      else if m_engaged y then do {
        w \<leftarrow> opt_deref y;
        y \<leftarrow> opt_write (mv w) y;
        x \<leftarrow> emplace w x;
        y \<leftarrow> opt_reset y;
        Some (x, y)
      }
      else Some (x, y))"

lemmas optional_defs = raw_def placement_new_def run_destructor_def opt_deref_def opt_write_def
  has_value_def opt_value_def value_or_def opt_reset_def emplace_def opt_none_def opt_of_def
  opt_in_place_def opt_copy_def opt_move_def opt_destroy_def assign_nullopt_def assign_copy_def
  assign_move_def assign_value_def opt_swap_def

subsection \<open>The value an optional stands for\<close>

text \<open>
  An object lives in the storage exactly while the flag says so, and it is the only one that
  has begun and not ended its life there. \<open>opt_abs\<close> is the value.
\<close>

definition opt_wf :: "'a optional \<Rightarrow> bool" where
  "opt_wf x \<longleftrightarrow> (m_engaged x \<longleftrightarrow> m_data x \<noteq> None)
     \<and> built x = destroyed x + (if m_engaged x then 1 else 0)"

definition opt_abs :: "'a optional \<Rightarrow> 'a option" where
  "opt_abs x = (if m_engaged x then m_data x else None)"

text \<open>An operation that returns, keeps \<open>opt_wf\<close> and leaves the value \<open>a\<close>.\<close>

definition yields :: "'a optional option \<Rightarrow> 'a option \<Rightarrow> bool" where
  "yields r a \<longleftrightarrow> (\<exists>x. r = Some x \<and> opt_wf x \<and> opt_abs x = a)"

fun yields2 :: "('a optional \<times> 'a optional) option \<Rightarrow> 'a option \<Rightarrow> 'a option \<Rightarrow> bool" where
  "yields2 None a b = False"
| "yields2 (Some (x, y)) a b = (opt_wf x \<and> opt_wf y \<and> opt_abs x = a \<and> opt_abs y = b)"

lemma opt_wf_cases:
  assumes "opt_wf x"
  obtains (empty) d where "x = \<lparr>m_data = None, m_engaged = False, built = d, destroyed = d\<rparr>"
  | (holds) v d where "x = \<lparr>m_data = Some v, m_engaged = True, built = Suc d, destroyed = d\<rparr>"
  using assms by (cases x) (auto simp: opt_wf_def split: if_splits)

lemmas optional_values = optional_defs opt_wf_def opt_abs_def yields_def

text \<open>
  C12: \<^verbatim>\<open>optional\<close> refines the type of optional values: constructed or assigned in any way it
  stands for the value an optional value would, no operation touches an object that is not
  there, and the one object in the storage is built and destroyed once. The destructor leaves
  the storage raw, with every object that was built destroyed. \<^verbatim>\<open>operator*\<close> gives the value where
  there is one; of an empty optional it would read raw storage.
\<close>

theorem optional_refines_option:
  assumes "opt_wf x" and "opt_wf y"
  shows "yields (Some opt_none) None \<and> yields (Some (opt_of v)) (Some v)
    \<and> yields (Some (opt_in_place v)) (Some v)
    \<and> (\<exists>x'. opt_destroy x = Some x' \<and> m_data x' = None \<and> \<not> m_engaged x' \<and> built x' = destroyed x')
    \<and> yields (opt_copy x) (opt_abs x)
    \<and> yields2 (opt_move mv x) (opt_abs x) (map_option mv (opt_abs x))
    \<and> yields (opt_reset x) None \<and> yields (assign_nullopt x) None
    \<and> yields (emplace v x) (Some v) \<and> yields (assign_value v x) (Some v)
    \<and> yields (assign_copy y x) (opt_abs y)
    \<and> yields2 (assign_move mv y x) (opt_abs y) (map_option mv (opt_abs y))
    \<and> yields2 (opt_swap mv x y) (opt_abs y) (opt_abs x)
    \<and> has_value x = (opt_abs x \<noteq> None) \<and> opt_value x = opt_abs x \<and> opt_deref x = opt_abs x
    \<and> value_or v x = Some (case opt_abs x of None \<Rightarrow> v | Some w \<Rightarrow> w)"
  using assms(1)
proof (cases rule: opt_wf_cases)
  case empty
  from assms(2) show ?thesis
    by (cases rule: opt_wf_cases) (simp_all add: empty optional_values)
next
  case holds
  from assms(2) show ?thesis
    by (cases rule: opt_wf_cases) (simp_all add: holds optional_values)
qed

theorem optional_refines_option_witness:
  "yields2 (opt_swap (\<lambda>_. 0) (opt_of (7 :: nat)) opt_none) None (Some 7)"
  using optional_refines_option [of "opt_of (7 :: nat)" opt_none 0 "\<lambda>_. 0"]
  by (simp add: optional_values)

text \<open>After the destructor every object built in the storage has been destroyed.\<close>

lemma opt_destroy_balanced:
  "opt_wf x \<Longrightarrow> \<exists>x'. opt_destroy x = Some x' \<and> m_data x' = None \<and> built x' = destroyed x'"
  by (erule opt_wf_cases) (simp_all add: optional_defs)

text \<open>\<^verbatim>\<open>operator*\<close> of an empty optional reads raw storage; \<^verbatim>\<open>value\<close> traps instead.\<close>

lemma opt_deref_empty: "opt_deref opt_none = None \<and> opt_value opt_none = None"
  by (simp add: optional_defs)

end
