(* ===== verification/Pair.thy ===== *)
theory Pair
  imports Prelude
begin

text \<open>
  \<^verbatim>\<open>ktl::pair\<close> (\<^verbatim>\<open>ktl/pair\<close>) and the selections of \<^verbatim>\<open>ktl/algorythm\<close>. The comparison operators
  of a pair use \<open><\<close> of its components alone; they are the instance of \<open>ord\<close>, and over linear
  orders they form one.
\<close>

datatype ('a, 'b) pair = Pair (pfirst: 'a) (psecond: 'b)

definition make_pair :: "'a \<Rightarrow> 'b \<Rightarrow> ('a, 'b) pair" where
  "make_pair x y = Pair x y"

definition pair_swap :: "('a, 'b) pair \<times> ('a, 'b) pair \<Rightarrow> ('a, 'b) pair \<times> ('a, 'b) pair" where
  "pair_swap = (\<lambda>(a, b). (Pair (pfirst b) (psecond b), Pair (pfirst a) (psecond a)))"

definition pair_eq :: "('a, 'b) pair \<Rightarrow> ('a, 'b) pair \<Rightarrow> bool" where
  "pair_eq a b = (pfirst a = pfirst b \<and> psecond a = psecond b)"

definition pair_less :: "('a::ord, 'b::ord) pair \<Rightarrow> ('a, 'b) pair \<Rightarrow> bool" where
  "pair_less a b =
     (pfirst a < pfirst b \<or> (\<not> pfirst b < pfirst a \<and> psecond a < psecond b))"

definition pair_less_eq :: "('a::ord, 'b::ord) pair \<Rightarrow> ('a, 'b) pair \<Rightarrow> bool" where
  "pair_less_eq a b = (\<not> pair_less b a)"

definition ktl_max :: "'a::ord \<Rightarrow> 'a \<Rightarrow> 'a" where
  "ktl_max a b = (if a < b then b else a)"

definition ktl_max_by :: "('a \<Rightarrow> 'a \<Rightarrow> bool) \<Rightarrow> 'a \<Rightarrow> 'a \<Rightarrow> 'a" where
  "ktl_max_by cmp a b = (if cmp a b then b else a)"

definition ktl_min :: "'a::ord \<Rightarrow> 'a \<Rightarrow> 'a" where
  "ktl_min a b = (if b < a then b else a)"

definition ktl_min_by :: "('a \<Rightarrow> 'a \<Rightarrow> bool) \<Rightarrow> 'a \<Rightarrow> 'a \<Rightarrow> 'a" where
  "ktl_min_by cmp a b = (if cmp b a then b else a)"

instantiation pair :: (linorder, linorder) linorder
begin

definition less_pair :: "('a, 'b) pair \<Rightarrow> ('a, 'b) pair \<Rightarrow> bool" where
  "less_pair a b = pair_less a b"

definition less_eq_pair :: "('a, 'b) pair \<Rightarrow> ('a, 'b) pair \<Rightarrow> bool" where
  "less_eq_pair a b = pair_less_eq a b"

instance
proof
  fix a b c :: "('a, 'b) pair"
  note defs = less_pair_def less_eq_pair_def pair_less_def pair_less_eq_def
  show "(a < b) = (a \<le> b \<and> \<not> b \<le> a)" by (auto simp: defs)
  show "a \<le> a" by (simp add: defs)
  show "a \<le> b \<Longrightarrow> b \<le> c \<Longrightarrow> a \<le> c" by (auto simp: defs not_less)
  show "a \<le> b \<Longrightarrow> b \<le> a \<Longrightarrow> a = b" by (cases a; cases b) (auto simp: defs not_less)
  show "a \<le> b \<or> b \<le> a" by (auto simp: defs not_less)
qed

end

lemma pair_less_lex:
  fixes a b :: "('a::linorder, 'b::linorder) pair"
  shows "a < b \<longleftrightarrow> pfirst a < pfirst b \<or> pfirst a = pfirst b \<and> psecond a < psecond b"
  by (auto simp: less_pair_def pair_less_def)

lemma ktl_max_max: "ktl_max a b = max b (a :: 'a::linorder)"
  by (cases a b rule: linorder_cases) (auto simp: ktl_max_def max_def)

lemma ktl_min_min: "ktl_min a b = min a (b :: 'a::linorder)"
  by (cases a b rule: linorder_cases) (auto simp: ktl_min_def min_def)

text \<open>
  The operators of a pair, built from \<open><\<close> of the components alone, are the lexicographic
  order: equality is equality of both components, exactly one of \<open>a < b\<close>, \<open>a == b\<close> and
  \<open>b < a\<close> holds, and \<open>max\<close> and \<open>min\<close> of two pairs are the larger and the smaller one in it.
\<close>

lemma pair_order:
  fixes a b :: "('a::linorder, 'b::linorder) pair"
  shows "(pair_less a b \<longleftrightarrow>
      pfirst a < pfirst b \<or> pfirst a = pfirst b \<and> psecond a < psecond b)
    \<and> (pair_eq a b \<longleftrightarrow> a = b)
    \<and> (pair_less_eq a b \<longleftrightarrow> pair_less a b \<or> pair_eq a b)
    \<and> of_bool (pair_less a b) + of_bool (pair_eq a b) + of_bool (pair_less b a) = (1 :: nat)
    \<and> {ktl_min a b, ktl_max a b} = {a, b} \<and> pair_less_eq (ktl_min a b) (ktl_max a b)"
proof -
  have eq: "pair_eq a b \<longleftrightarrow> a = b" by (cases a; cases b) (simp add: pair_eq_def)
  have "of_bool (a < b) + of_bool (a = b) + of_bool (b < a) = (1 :: nat)"
    by (cases a b rule: linorder_cases) auto
  moreover have "{ktl_min a b, ktl_max a b} = {a, b} \<and> ktl_min a b \<le> ktl_max a b"
    by (auto simp: ktl_max_def ktl_min_def)
  moreover have "a \<le> b \<longleftrightarrow> a < b \<or> a = b" by auto
  ultimately show ?thesis
    using pair_less_lex [of a b] eq by (simp add: less_pair_def less_eq_pair_def)
qed

text \<open>With equivalent arguments both selections return the first.\<close>

lemma ktl_select_first: "\<not> cmp a b \<Longrightarrow> \<not> cmp b a \<Longrightarrow> ktl_max_by cmp a b = a \<and> ktl_min_by cmp a b = a"
  by (simp add: ktl_max_by_def ktl_min_by_def)

end
