(* ===== verification/Boot.thy ===== *)
theory Boot
  imports Format Limine "HOL-Library.Stream"
begin

text \<open>
  The entry point of the kernel (\<^verbatim>\<open>core/_start.cc\<close>) as it is compiled at this commit: it
  programs two serial ports, prints a line on the second, says on the first whether the boot
  loader has left the memory map request unanswered, turns interrupts off and halts for ever.

  Both ports are driven over one trace of port accesses. What the processor does after the
  output is a stream of instructions. \<open>None\<close> is an entry point that spins in the output.
\<close>

subsection \<open>The entry point\<close>

definition COM1 :: u16 where "COM1 = 0x3F8"
definition COM2 :: u16 where "COM2 = 0x2F8"

text \<open>The defaults of the template parameters of \<^verbatim>\<open>Serial\<close>.\<close>

definition BAUD :: u32 where "BAUD = 115200"
definition ILCR :: u8 where "ILCR = 3"

definition start_request :: "u64 \<Rightarrow> memmap_response limine_request" where
  "start_request api = limine_ask LIMINE_MEMMAP_REQUEST api"

text \<open>The instructions without operands of \<^verbatim>\<open>class io\<close>.\<close>

datatype cpu_event = Cli | Sti | Hlt

primcorec halt_loop :: "cpu_event stream" where
  "halt_loop = Hlt ## halt_loop"

lemma halt_loop_sconst: "halt_loop = sconst Hlt"
  by (coinduction rule: stream.coinduct_strong) auto

text \<open>The literals lie at \<open>line\<close> and \<open>msg\<close>.\<close>

definition kernel_start ::
  "device \<Rightarrow> mem \<Rightarrow> addr \<Rightarrow> addr \<Rightarrow> memmap_response limine_request \<Rightarrow> trace
     \<Rightarrow> (trace \<times> cpu_event stream) option"
where
  "kernel_start dev m line msg q h = do {
     let h = serial_init COM1 BAUD ILCR h;
     let h = serial_init COM2 BAUD ILCR h;
     h \<leftarrow> print (serial_put dev COM2) m (ACStr line) h;
     h \<leftarrow> (if response q = None then printf (serial_put dev COM1) m msg [] h else Some h);
     Some (h, Cli ## halt_loop)
   }"

subsection \<open>Two ports on one trace\<close>

text \<open>No register of the one port is a register of the other.\<close>

definition apart :: "u16 \<Rightarrow> u16 \<Rightarrow> bool" where
  "apart base other \<longleftrightarrow> (\<forall>r \<in> {0, 1, 2, 3, 4}. \<forall>k \<in> {0, 1, 2, 3, 4}. base + r - other \<noteq> k)"

lemma apart_ports [simp]: "apart COM1 COM2" "apart COM2 COM1"
  by (simp_all add: apart_def COM1_def COM2_def)

lemma uart_after_other:
  assumes "apart base other" and "r \<in> {0, 1, 2, 3, 4}"
  shows "uart_after other u (io_out (base + r) v h) = uart_after other u h"
proof -
  define x where "x = base + r - other"
  have "\<forall>k \<in> {0, 1, 2, 3, 4}. x \<noteq> k"
    using assms unfolding apart_def x_def by (rule bspec)
  moreover have "base + r = other + x" by (simp add: x_def)
  ultimately show ?thesis by (simp add: uart_write_def)
qed

lemma serial_init_other:
  "apart base other \<Longrightarrow> uart_after other u (serial_init base baud ilcr h) = uart_after other u h"
  by (simp add: serial_init_def reg_defs uart_after_other uart_after_other [where r = 0, simplified])

text \<open>\<open>put\<close> on one port sends there, and leaves the UART of a port apart from it alone.\<close>

lemma serial_put_sends_apart:
  assumes "eventually_ready dev base" and "\<not> dlab (uart_after base u h)" and "apart base other"
  shows "\<exists>h'. serial_put dev base c h = Some h'
    \<and> uart_after base u h' = (uart_after base u h)\<lparr>sent := sent (uart_after base u h) @ [c]\<rparr>
    \<and> uart_after other v h' = uart_after other v h"
proof -
  obtain n where "bit (status dev base n h) 5" using assms(1) by (auto simp: eventually_ready_def)
  from spin_stops [OF polls_tx this] obtain j
    where "spin (tx_ready dev base) h = Some (polled dev (base + LSR) j h)" by blast
  then show ?thesis
    using assms(2) uart_after_other [OF assms(3), where r = 0]
    by (simp add: serial_put_def DATA_def uart_write_def)
qed

interpretation port: char_sink "serial_put dev base" "\<lambda>h. sent (uart_after base u h)"
  "\<lambda>h. \<not> dlab (uart_after base u h) \<and> eventually_ready dev base \<and> apart base other
     \<and> uart_after other v h = c"
  for dev :: device and base other :: u16 and u v c :: uart
proof unfold_locales
  fix h b
  assume "\<not> dlab (uart_after base u h) \<and> eventually_ready dev base \<and> apart base other
     \<and> uart_after other v h = c"
  moreover from this obtain h' where "serial_put dev base b h = Some h'"
    "uart_after base u h' = (uart_after base u h)\<lparr>sent := sent (uart_after base u h) @ [b]\<rparr>"
    "uart_after other v h' = uart_after other v h"
    using serial_put_sends_apart [of dev base u h other b v] by blast
  ultimately show "\<exists>h'. serial_put dev base b h = Some h'
      \<and> (\<not> dlab (uart_after base u h') \<and> eventually_ready dev base \<and> apart base other
        \<and> uart_after other v h' = c)
      \<and> sent (uart_after base u h') = sent (uart_after base u h) @ [b]"
    by (simp add: dlab_def)
qed

lemma ready_after_init:
  "\<not> bit ilcr 7 \<Longrightarrow> \<not> dlab (uart_after base u (serial_init base baud ilcr h))
     \<and> sent (uart_after base u (serial_init base baud ilcr h)) = sent (uart_after base u h)"
  by (simp add: serial_init_def Let_def reg_defs uart_write_def dlab_def)

subsection \<open>What the kernel says\<close>

text \<open>
  C1: If both transmitters keep becoming ready, the entry point reaches its last loop: the
  second port has then sent the line and nothing else, the first port the message exactly when
  the boot loader has not answered, and from there on the processor, with interrupts off,
  only halts.
\<close>

theorem kernel_start_reports:
  assumes "eventually_ready dev COM1" and "eventually_ready dev COM2"
    and "cstr_at m line ls" and "cstr_at m msg ms"
  shows "\<exists>h'. kernel_start dev m line msg q h = Some (h', Cli ## sconst Hlt)
    \<and> sent (uart_after COM2 u2 h') = sent (uart_after COM2 u2 h) @ crlf ls
    \<and> sent (uart_after COM1 u1 h') = sent (uart_after COM1 u1 h)
        @ (if response q = None then crlf ms else [])"
proof -
  have lcr: "\<not> bit ILCR 7" by (simp add: ILCR_def)
  let ?h0 = "serial_init COM1 BAUD ILCR h"
  let ?h = "serial_init COM2 BAUD ILCR ?h0"
  have 1: "\<not> dlab (uart_after COM1 u1 ?h)" "sent (uart_after COM1 u1 ?h) = sent (uart_after COM1 u1 h)"
    using ready_after_init [OF lcr, of COM1 u1 BAUD h] by (simp_all add: serial_init_other)
  have 2: "\<not> dlab (uart_after COM2 u2 ?h)" "sent (uart_after COM2 u2 ?h) = sent (uart_after COM2 u2 h)"
    using ready_after_init [OF lcr, of COM2 u2 BAUD "serial_init COM1 BAUD ILCR h"] by (simp_all add: serial_init_other)
  obtain h1 where h1: "print (serial_put dev COM2) m (ACStr line) ?h = Some h1"
    "sent (uart_after COM2 u2 h1) = sent (uart_after COM2 u2 ?h) @ crlf ls"
    "uart_after COM1 u1 h1 = uart_after COM1 u1 ?h"
    using port.emitsD [OF port.emits_print [OF arg_text_items_text.cstr [OF assms(3)],
        where dev = dev and base = COM2 and u = u2 and other = COM1 and v = u1], of ?h]
      2(1) assms(2) by auto
  obtain h2 where h2: "puts (serial_put dev COM1) m msg h1 = Some h2"
    "sent (uart_after COM1 u1 h2) = sent (uart_after COM1 u1 h1) @ crlf ms"
    "uart_after COM2 u2 h2 = uart_after COM2 u2 h1"
    using port.emitsD [OF port.emits_puts [OF assms(4),
        where dev = dev and base = COM1 and u = u1 and other = COM2 and v = u2], of h1]
      1(1) h1(3) assms(1) by auto
  show ?thesis
    using h1 h2 1(2) 2(2) halt_loop_sconst by (simp add: kernel_start_def Let_def printf.simps)
qed

text \<open>The two literals of the entry point, at 16 and at 64.\<close>

definition start_line :: "u8 list" where
  "start_line = [10, 32, 45, 45, 45, 45, 45, 45, 45, 45, 45, 45, 45, 32, 10]"

definition start_message :: "u8 list" where
  "start_message = [77, 101, 109, 109, 97, 112, 32, 105, 115, 32, 115, 116, 105, 108, 108, 32,
     110, 117, 108, 108, 46, 46, 46, 10]"

definition start_literals :: mem where
  "start_literals = put_bytes (put_bytes Map.empty 16 (start_line @ [0])) 64 (start_message @ [0])"

theorem kernel_start_reports_witness:
  "\<exists>h'. kernel_start (\<lambda>h p. 32) start_literals 16 64 (start_request 3) [] = Some (h', Cli ## sconst Hlt)
     \<and> sent (uart_after COM1 \<lparr>ier = 0, fcr = 0, lcr = 0, mcr = 0, dll = 1, dlm = 0, sent = []\<rparr> h')
         = crlf start_message"
proof -
  have "eventually_ready (\<lambda>h p. 32) base" for base by (simp add: eventually_ready_def status_def)
  moreover have "cstr_at start_literals 16 start_line"
    unfolding cstr_at_def start_literals_def start_line_def start_message_def by code_simp
  moreover have "cstr_at start_literals 64 start_message"
    unfolding cstr_at_def start_literals_def start_line_def start_message_def by code_simp
  ultimately show ?thesis
    using kernel_start_reports [of "\<lambda>h p. 32" start_literals 16 start_line 64 start_message
        "start_request 3" "[]" _ "\<lparr>ier = 0, fcr = 0, lcr = 0, mcr = 0, dll = 1, dlm = 0, sent = []\<rparr>"]
    by (auto simp: start_request_def limine_ask_def uart_after_def)
qed

end
