(* ===== verification/Assert.thy ===== *)
theory Assert
  imports Format
begin

text \<open>
  Failed assertions (\<^verbatim>\<open>ktl/assert.cc\<close>): two lines on the first serial port, then a trap. The
  value is the state at the trap; \<open>None\<close> is a report that spins or faults.
\<close>

text \<open>The two format literals lie at \<open>f1\<close> and \<open>f2\<close>.\<close>

definition assertion_failure ::
  "'s sink \<Rightarrow> mem \<Rightarrow> addr \<Rightarrow> addr \<Rightarrow> addr \<Rightarrow> addr \<Rightarrow> int \<Rightarrow> 's \<Rightarrow> 's option"
where
  "assertion_failure put m f1 f2 expr file line st = do {
     st \<leftarrow> printf put m f1 [ACStr expr] st;
     printf put m f2 [ACStr file, AInt line] st
   }"

definition plain_hole :: piece where
  "plain_hole = Hole False \<lparr>alternate = False, zero_pad = False, width = 0, ftype = 0\<rparr>"

text \<open>\<^verbatim>\<open>"Assertion failed: {}\n"\<close> and \<^verbatim>\<open>"  at {}:{}\n"\<close>.\<close>

definition assert_text :: "u8 list" where
  "assert_text = [65, 115, 115, 101, 114, 116, 105, 111, 110, 32, 102, 97, 105, 108, 101, 100, 58, 32]"

definition assert_format :: "piece list" where
  "assert_format = map Plain assert_text @ [plain_hole, Plain 10]"

definition at_text :: "u8 list" where
  "at_text = [32, 32, 97, 116, 32]"

definition at_format :: "piece list" where
  "at_format = map Plain at_text @ [plain_hole, Plain 58, plain_hole, Plain 10]"

lemma format_bytes:
  "format_text assert_format = assert_text @ [123, 125, 10]"
  "format_text at_format = at_text @ [123, 125, 58, 123, 125, 10]"
  by (simp_all add: assert_format_def assert_text_def at_format_def at_text_def plain_hole_def
      spec_text_def)

lemma formats_ok: "list_all piece_ok assert_format" "list_all piece_ok at_format"
  by (simp_all add: assert_format_def assert_text_def at_format_def at_text_def plain_hole_def
      letter_type_def)

lemma printf_text_plains:
  "printf_text m ps (a # as) t \<Longrightarrow> printf_text m (map Plain cs @ ps) (a # as) (crlf cs @ t)"
proof (induction cs)
  case (Cons c cs)
  have "crlf (c # cs) = crlf [c] @ crlf cs" by (simp add: crlf_def)
  with printf_text.plain [OF Cons.IH [OF Cons.prems], of c] show ?case by simp
qed (simp add: crlf_def)

lemma no_newline: "10 \<notin> set cs \<Longrightarrow> crlf cs = cs"
  by (induction cs) (auto simp: crlf_def)

lemma assert_lines:
  assumes "cstr_at m expr es" and "cstr_at m file fs" and "0 \<le> line" and "line < 2 ^ 31"
  shows "printf_text m assert_format [ACStr expr] (assert_text @ crlf es @ [13, 10])"
    and "printf_text m at_format [ACStr file, AInt line]
      (at_text @ crlf fs @ 58 # num_text upper_table 10 (nat line) @ [13, 10])"
proof -
  have h1: "hole_text m (ACStr p) fs t \<longleftrightarrow> arg_text m (ACStr p) t" for p fs t by simp
  have line: "to_u64 line = of_nat (nat line)" using assms(3) by (simp add: to_u64_def)
  have "unat (to_u64 line) = nat line"
    unfolding line using assms(3,4) by (intro unat_of_nat_64) simp
  then have "int_text \<lparr>alternate = False, zero_pad = False, width = 0, ftype = 0\<rparr> (to_u64 line)
      = num_text upper_table 10 (nat line)"
    by (simp add: int_text_def Let_def padded_def)
  then have h2: "hole_text m (AInt line) \<lparr>alternate = False, zero_pad = False, width = 0, ftype = 0\<rparr>
      (num_text upper_table 10 (nat line))" by simp
  have nl: "printf_text m [Plain 10] [] [13, 10]"
    using printf_text.no_args [of m "[Plain 10]"] by (simp add: crlf_def)
  have a: "crlf assert_text = assert_text" "crlf at_text = at_text" "crlf [58] = [58]"
    by (simp_all add: no_newline assert_text_def at_text_def)
  have "printf_text m [plain_hole, Plain 10] [ACStr expr] (crlf es @ [13, 10])"
    unfolding plain_hole_def
    by (rule printf_text.hole [OF _ nl]) (simp add: arg_text_items_text.cstr assms(1))
  from printf_text_plains [OF this, of assert_text]
  show "printf_text m assert_format [ACStr expr] (assert_text @ crlf es @ [13, 10])"
    using a by (simp add: assert_format_def)
  have "printf_text m [plain_hole, Plain 10] [AInt line] (num_text upper_table 10 (nat line) @ [13, 10])"
    unfolding plain_hole_def by (rule printf_text.hole [OF h2 nl])
  from printf_text.plain [OF this, where c = 58]
  have "printf_text m [Plain 58, plain_hole, Plain 10] [AInt line]
      ([58] @ num_text upper_table 10 (nat line) @ [13, 10])" by simp
  then have "printf_text m (plain_hole # [Plain 58, plain_hole, Plain 10]) [ACStr file, AInt line]
      (crlf fs @ [58] @ num_text upper_table 10 (nat line) @ [13, 10])"
    unfolding plain_hole_def
    by (intro printf_text.hole) (simp add: arg_text_items_text.cstr assms(2))
  from printf_text_plains [OF this, of at_text]
  show "printf_text m at_format [ACStr file, AInt line]
      (at_text @ crlf fs @ 58 # num_text upper_table 10 (nat line) @ [13, 10])"
    using a by (simp add: at_format_def)
qed

text \<open>
  C23: A failed assertion reports itself: if the transmitter of the port keeps becoming ready,
  the trap is reached, and before it the UART has sent the expression, the file and the line
  number, each in its line.
\<close>

theorem assertion_failure_reports:
  assumes "cstr_at m f1 (format_text assert_format)" and "cstr_at m f2 (format_text at_format)"
    and "cstr_at m expr es" and "cstr_at m file fs" and "0 \<le> line" and "line < 2 ^ 31"
    and "\<not> dlab (uart_after base u h)" and "eventually_ready dev base"
  shows "\<exists>h'. assertion_failure (serial_put dev base) m f1 f2 expr file line h = Some h'
    \<and> sent (uart_after base u h') = sent (uart_after base u h)
      @ assert_text @ crlf es @ [13, 10]
      @ at_text @ crlf fs @ 58 # num_text upper_table 10 (nat line) @ [13, 10]"
proof -
  note e1 = serial_sink.emits_printf [OF assert_lines(1) [OF assms(3-6)] formats_ok(1) assms(1),
      where dev = dev and base = base and u = u]
  note e2 = serial_sink.emits_printf [OF assert_lines(2) [OF assms(3-6)] formats_ok(2) assms(2),
      where dev = dev and base = base and u = u]
  from serial_sink.emitsD [OF serial_sink.emits_seq [OF e1 e2], of h] show ?thesis
    using assms(7,8) by (auto simp: assertion_failure_def)
qed

text \<open>The report of \<^verbatim>\<open>assert(n > 0)\<close> in line 7 of \<^verbatim>\<open>a.cc\<close>.\<close>

definition assert_literals :: mem where
  "assert_literals = put_bytes (put_bytes (put_bytes (put_bytes Map.empty
     16 (assert_text @ [123, 125, 10, 0])) 64 (at_text @ [123, 125, 58, 123, 125, 10, 0]))
     96 [110, 32, 62, 32, 48, 0]) 128 [97, 46, 99, 99, 0]"

theorem assertion_failure_reports_witness:
  "\<exists>h'. assertion_failure (serial_put (\<lambda>h p. 32) 0x3F8) assert_literals 16 64 96 128 7 [] = Some h'
    \<and> sent (uart_after 0x3F8 \<lparr>ier = 0, fcr = 0, lcr = 3, mcr = 0, dll = 1, dlm = 0, sent = []\<rparr> h')
      = assert_text @ [110, 32, 62, 32, 48, 13, 10] @ at_text @ [97, 46, 99, 99, 58, 55, 13, 10]"
proof -
  have "cstr_at assert_literals 16 (format_text assert_format)"
    "cstr_at assert_literals 64 (format_text at_format)"
    unfolding format_bytes cstr_at_def assert_literals_def assert_text_def at_text_def by code_simp+
  moreover have "cstr_at assert_literals 96 [110, 32, 62, 32, 48]"
    "cstr_at assert_literals 128 [97, 46, 99, 99]"
    unfolding cstr_at_def assert_literals_def assert_text_def at_text_def by code_simp+
  moreover have "eventually_ready (\<lambda>h p. 32) 0x3F8" by (simp add: eventually_ready_def status_def)
  moreover have "num_text upper_table 10 7 = [55]"
    by (subst num_text.simps) (simp add: upper_table_def)
  ultimately show ?thesis
    using assertion_failure_reports [of assert_literals 16 64 96 _ 128 _ 7 "0x3F8"
        "\<lparr>ier = 0, fcr = 0, lcr = 3, mcr = 0, dll = 1, dlm = 0, sent = []\<rparr>" "[]" "\<lambda>h p. 32"]
    by (fastforce simp: uart_after_def dlab_def)
qed

end
