(* ===== verification/Panic.thy ===== *)
theory Panic
  imports Boot Assert Idt
begin

text \<open>
  The kernel panic (\<^verbatim>\<open>InterruptDescriptorTable::kpanic\<close>, \<^verbatim>\<open>arch/idt.hh\<close>) and the default
  interrupt handler that ends in it: a report on the first serial port, a longer one with the
  registers on the second, then a halt with interrupts off.

  A literal of the code is a list of bytes; where it lies in memory is the function \<open>lit\<close>.
  The register frame is the list of its words as the stub leaves them (\<open>frame\<close>).
\<close>

subsection \<open>Literals\<close>

definition bytes :: "string \<Rightarrow> u8 list" where
  "bytes s = map of_char s"

definition ansi_red :: "u8 list" where "ansi_red = 27 # bytes ''[31m''"
definition ansi_bold :: "u8 list" where "ansi_bold = 27 # bytes ''[1m''"
definition ansi_reset :: "u8 list" where "ansi_reset = 27 # bytes ''[0m''"

definition panic_head :: "u8 list" where
  "panic_head = 10 # bytes ''!!! KERNEL PANIC !!!'' @ [10]"

definition halted_text :: "u8 list" where
  "halted_text = 10 # bytes ''System halted.'' @ [10]"

definition log_head :: "u8 list" where
  "log_head = bytes ''======== KERNEL PANIC ========'' @ [10]"

definition dump_head :: "u8 list" where
  "dump_head = bytes ''Register dump:'' @ [10]"

text \<open>The lines of the register dump: format and fields.\<close>

definition dump_lines :: "(u8 list \<times> string list) list" where
  "dump_lines =
    [(bytes ''RAX={:#016x} RBX={:#016x} RCX={:#016x} RDX={:#016x}'' @ [10], [''rax'', ''rbx'', ''rcx'', ''rdx'']),
     (bytes ''RSI={:#016x} RDI={:#016x} RBP={:#016x} RSP={:#016x}'' @ [10], [''rsi'', ''rdi'', ''rbp'', ''rsp'']),
     (bytes ''R8 ={:#016x} R9 ={:#016x} R10={:#016x} R11={:#016x}'' @ [10], [''r8'', ''r9'', ''r10'', ''r11'']),
     (bytes ''R12={:#016x} R13={:#016x} R14={:#016x} R15={:#016x}'' @ [10], [''r12'', ''r13'', ''r14'', ''r15'']),
     (bytes ''RIP={:#016x} RFLAGS={:#016x}'' @ [10], [''rip'', ''rflags'']),
     (bytes ''CS ={:#04x} SS={:#04x}'' @ [10], [''cs'', ''ss''])]"

subsection \<open>The panic\<close>

definition say_lit :: "'s sink \<Rightarrow> mem \<Rightarrow> (u8 list \<Rightarrow> addr) \<Rightarrow> u8 list \<Rightarrow> 's \<Rightarrow> 's option" where
  "say_lit put m lit t st = print put m (ACStr (lit t)) st"

definition u64_arg :: "u64 \<Rightarrow> arg" where
  "u64_arg v = AInt (uint v)"

fun print_dump ::
  "'s sink \<Rightarrow> mem \<Rightarrow> (u8 list \<Rightarrow> addr) \<Rightarrow> u64 list \<Rightarrow> (u8 list \<times> string list) list \<Rightarrow> 's \<Rightarrow> 's option"
where
  "print_dump put m lit ctx [] st = Some st"
| "print_dump put m lit ctx ((fmt, names) # ls) st = do {
     st \<leftarrow> printf put m (lit fmt) (map (\<lambda>f. u64_arg (ctx_read ctx f)) names) st;
     print_dump put m lit ctx ls st
   }"

definition haltCatchFire :: "trace \<Rightarrow> trace \<times> cpu_event stream" where
  "haltCatchFire h = (h, Cli ## halt_loop)"

text \<open>On the console: \<^verbatim>\<open>using Out = Fmt\<close>.\<close>

definition panic_console ::
  "'s sink \<Rightarrow> mem \<Rightarrow> (u8 list \<Rightarrow> addr) \<Rightarrow> addr \<Rightarrow> arg list \<Rightarrow> 's \<Rightarrow> 's option"
where
  "panic_console put m lit fmt args st = do {
     st \<leftarrow> say_lit put m lit ansi_red st;
     st \<leftarrow> say_lit put m lit ansi_bold st;
     st \<leftarrow> say_lit put m lit panic_head st;
     st \<leftarrow> say_lit put m lit ansi_reset st;
     st \<leftarrow> printf put m fmt args st;
     say_lit put m lit halted_text st
   }"

text \<open>In the log: \<^verbatim>\<open>using Log = FmtBase<SerialCOM2>\<close>; the frame may be absent.\<close>

definition panic_log ::
  "'s sink \<Rightarrow> mem \<Rightarrow> (u8 list \<Rightarrow> addr) \<Rightarrow> u64 list option \<Rightarrow> addr \<Rightarrow> arg list \<Rightarrow> 's \<Rightarrow> 's option"
where
  "panic_log put m lit ctx fmt args st = do {
     st \<leftarrow> say_lit put m lit log_head st;
     st \<leftarrow> printf put m fmt args st;
     st \<leftarrow> say_lit put m lit [10, 10] st;
     st \<leftarrow> (case ctx of
              None \<Rightarrow> Some st
            | Some c \<Rightarrow> do {
                st \<leftarrow> say_lit put m lit dump_head st;
                print_dump put m lit c dump_lines st
              });
     say_lit put m lit halted_text st
   }"

definition kernel_panic ::
  "device \<Rightarrow> mem \<Rightarrow> (u8 list \<Rightarrow> addr) \<Rightarrow> u64 list option \<Rightarrow> addr \<Rightarrow> arg list \<Rightarrow> trace
     \<Rightarrow> (trace \<times> cpu_event stream) option"
where
  "kernel_panic dev m lit ctx fmt args h = do {
     h \<leftarrow> panic_console (serial_put dev COM1) m lit fmt args h;
     h \<leftarrow> panic_log (serial_put dev COM2) m lit ctx fmt args h;
     Some (haltCatchFire h)
   }"

text \<open>The formats of the default handler, and the handler.\<close>

definition exception_format :: "u8 list" where
  "exception_format = bytes ''Unhandled CPU Exception {:#02x}: {}''"

definition vector_format :: "u8 list" where
  "vector_format = bytes ''Unhandled Interrupt Vector {:#02x}''"

definition default_handler ::
  "device \<Rightarrow> mem \<Rightarrow> (u8 list \<Rightarrow> addr) \<Rightarrow> u64 list \<Rightarrow> trace \<Rightarrow> (trace \<times> cpu_event stream) option"
where
  "default_handler dev m lit ctx h = (case defaultInterruptHandler ctx of
     UnhandledException v name \<Rightarrow>
       kernel_panic dev m lit (Some ctx) (lit exception_format) [u64_arg v, ACStr (lit (bytes name))] h
   | UnhandledInterrupt v \<Rightarrow>
       kernel_panic dev m lit (Some ctx) (lit vector_format) [u64_arg v] h)"

subsection \<open>The text of the report\<close>

definition hex_spec :: "int \<Rightarrow> format_spec" where
  "hex_spec w = \<lparr>alternate = True, zero_pad = True, width = w, ftype = 120\<rparr>"

text \<open>
  What the ports are to send, written out apart from the code's literals and lines. The register
  dump names the registers of the interrupted code: under \<^verbatim>\<open>RAX\<close> stands \<^verbatim>\<open>r9\<close>, under \<^verbatim>\<open>RBP\<close> \<^verbatim>\<open>r15\<close>
  and so on, for \<^verbatim>\<open>registers_ctx\<close> has the fields in another order than the stub pushes them; only
  \<^verbatim>\<open>R8\<close> shows its own register.
\<close>

fun row_text :: "int \<Rightarrow> (string \<times> u64) list \<Rightarrow> u8 list" where
  "row_text w [] = [13, 10]"
| "row_text w ((l, v) # row) = bytes l @ int_text (hex_spec w) v @ row_text w row"

definition dump_text :: "cpu \<Rightarrow> u64 \<Rightarrow> u64 \<Rightarrow> u64 \<Rightarrow> u64 \<Rightarrow> u64 \<Rightarrow> u8 list" where
  "dump_text c ip cseg fl sp sseg =
     row_text 16 [(''RAX='', r9 c), ('' RBX='', r10 c), ('' RCX='', r11 c), ('' RDX='', r12 c)]
     @ row_text 16 [(''RSI='', r13 c), ('' RDI='', r14 c), ('' RBP='', r15 c), ('' RSP='', sp)]
     @ row_text 16 [(''R8 ='', r8 c), ('' R9 ='', rax c), ('' R10='', rbx c), ('' R11='', rcx c)]
     @ row_text 16 [(''R12='', rdx c), ('' R13='', rsi c), ('' R14='', rdi c), ('' R15='', rbp c)]
     @ row_text 16 [(''RIP='', ip), ('' RFLAGS='', fl)]
     @ row_text 4 [(''CS ='', cseg), ('' SS='', sseg)]"

definition console_text :: "u8 list \<Rightarrow> u8 list" where
  "console_text t = 27 # bytes ''[31m'' @ 27 # bytes ''[1m'' @ [13, 10] @ bytes ''!!! KERNEL PANIC !!!'' @ [13, 10]
     @ 27 # bytes ''[0m'' @ t @ [13, 10] @ bytes ''System halted.'' @ [13, 10]"

text \<open>With the text of the register dump, if there is one.\<close>

definition log_text :: "u8 list option \<Rightarrow> u8 list \<Rightarrow> u8 list" where
  "log_text dump t = bytes ''======== KERNEL PANIC ========'' @ [13, 10] @ t @ [13, 10, 13, 10]
     @ (case dump of None \<Rightarrow> [] | Some d \<Rightarrow> bytes ''Register dump:'' @ [13, 10] @ d)
     @ [13, 10] @ bytes ''System halted.'' @ [13, 10]"

text \<open>A line of holes, each after its label.\<close>

fun line_pieces :: "format_spec \<Rightarrow> u8 list list \<Rightarrow> piece list" where
  "line_pieces fs [] = [Plain 10]"
| "line_pieces fs (l # ls) = map Plain l @ Hole True fs # line_pieces fs ls"

fun line_text :: "format_spec \<Rightarrow> u8 list list \<Rightarrow> u64 list \<Rightarrow> u8 list" where
  "line_text fs [] vs = [13, 10]"
| "line_text fs (l # ls) vs = crlf l @ int_text fs (hd vs) @ line_text fs ls (tl vs)"

definition dump_labels :: "(format_spec \<times> u8 list list) list" where
  "dump_labels =
    [(hex_spec 16, [bytes ''RAX='', bytes '' RBX='', bytes '' RCX='', bytes '' RDX='']),
     (hex_spec 16, [bytes ''RSI='', bytes '' RDI='', bytes '' RBP='', bytes '' RSP='']),
     (hex_spec 16, [bytes ''R8 ='', bytes '' R9 ='', bytes '' R10='', bytes '' R11='']),
     (hex_spec 16, [bytes ''R12='', bytes '' R13='', bytes '' R14='', bytes '' R15='']),
     (hex_spec 16, [bytes ''RIP='', bytes '' RFLAGS='']),
     (hex_spec 4, [bytes ''CS ='', bytes '' SS=''])]"

definition lines_text :: "u64 list \<Rightarrow> u8 list" where
  "lines_text ctx = concat (map (\<lambda>((fs, ls), (_, names)). line_text fs ls (map (ctx_read ctx) names))
     (zip dump_labels dump_lines))"

lemma num_text_16: "num_text upper_table 10 16 = [49, 54]"
  by (subst num_text.simps, subst num_text.simps) (simp add: upper_table_def)

lemma num_text_4: "num_text upper_table 10 4 = [52]"
  by (subst num_text.simps) (simp add: upper_table_def)

text \<open>The literals of the code are the formats of these pieces.\<close>

lemma dump_formats:
  "map fst dump_lines = map (\<lambda>(fs, ls). format_text (line_pieces fs ls)) dump_labels"
  by (simp add: dump_lines_def dump_labels_def hex_spec_def spec_text_def num_text_16 num_text_4
      bytes_def)

lemma dump_pieces_ok: "list_all (\<lambda>(fs, ls). list_all piece_ok (line_pieces fs ls)) dump_labels"
  by (simp add: dump_labels_def bytes_def hex_spec_def letter_type_def isalpha_def)

lemma dump_lengths:
  "list_all (\<lambda>((fs, ls), (_, names)). length ls = length names) (zip dump_labels dump_lines)"
  by (simp add: dump_labels_def dump_lines_def)

text \<open>The text of one line.\<close>

lemma to_u64_uint [simp]: "to_u64 (uint v) = v"
  by (simp add: to_u64_def)

lemma line_printf:
  "length ls = length vs \<Longrightarrow> printf_text m (line_pieces fs ls) (map u64_arg vs) (line_text fs ls vs)"
proof (induction ls arbitrary: vs)
  case Nil
  then show ?case using printf_text.no_args [of m "[Plain 10]"] by simp
next
  case (Cons l ls)
  then obtain v ws where vs: "vs = v # ws" "length ls = length ws" by (cases vs) auto
  have "hole_text m (u64_arg v) fs (int_text fs v)" by (simp add: u64_arg_def)
  from printf_text.hole [OF this Cons.IH [OF vs(2)]]
  have "printf_text m (Hole True fs # line_pieces fs ls) (u64_arg v # map u64_arg ws)
      (int_text fs v @ line_text fs ls ws)" .
  from printf_text_plains [OF this, of l] show ?case by (simp add: vs)
qed

definition literals :: "mem \<Rightarrow> (u8 list \<Rightarrow> addr) \<Rightarrow> u8 list list \<Rightarrow> bool" where
  "literals m lit ts \<longleftrightarrow> list_all (\<lambda>t. cstr_at m (lit t) t) ts"

definition panic_literals :: "u8 list list" where
  "panic_literals = [ansi_red, ansi_bold, panic_head, ansi_reset, halted_text, log_head, [10, 10],
     dump_head] @ map fst dump_lines"

lemmas panic_literal_defs = ansi_red_def ansi_bold_def ansi_reset_def panic_head_def halted_text_def
  log_head_def dump_head_def

text \<open>The literals, with the line feeds as the formatter sends them.\<close>

lemma console_text_literals:
  "console_text t = crlf ansi_red @ crlf ansi_bold @ crlf panic_head @ crlf ansi_reset @ t @ crlf halted_text"
  by (simp add: console_text_def panic_literal_defs bytes_def)

lemma log_text_literals:
  "log_text dump t = crlf log_head @ t @ crlf [10, 10]
     @ (case dump of None \<Rightarrow> [] | Some d \<Rightarrow> crlf dump_head @ d) @ crlf halted_text"
  by (cases dump) (simp_all add: log_text_def panic_literal_defs bytes_def)

context char_sink
begin

lemma emits_say_lit: "cstr_at m (lit t) t \<Longrightarrow> emits (say_lit put m lit t) (crlf t)"
  using emits_puts [of m "lit t" t] by (simp add: say_lit_def emits_def)

lemma emits_print_dump:
  assumes "list_all (\<lambda>(fmt, names). cstr_at m (lit fmt) fmt) ls"
    and "map fst ls = map (\<lambda>(fs, labels). format_text (line_pieces fs labels)) labs"
    and "list_all (\<lambda>(fs, labels). list_all piece_ok (line_pieces fs labels)) labs"
    and "list_all (\<lambda>((fs, labels), (_, names)). length labels = length names) (zip labs ls)"
  shows "emits (print_dump put m lit ctx ls)
    (concat (map (\<lambda>((fs, labels), (_, names)). line_text fs labels (map (ctx_read ctx) names)) (zip labs ls)))"
  using assms
proof (induction ls arbitrary: labs)
  case Nil
  then show ?case using emits_skip by (simp add: emits_def)
next
  case (Cons l ls)
  obtain fmt names where l: "l = (fmt, names)" by (cases l)
  from Cons.prems(2) obtain fs labels labs' where labs: "labs = (fs, labels) # labs'"
    "fmt = format_text (line_pieces fs labels)"
    "map fst ls = map (\<lambda>(fs, labels). format_text (line_pieces fs labels)) labs'"
    by (cases labs) (auto simp: l)
  have "printf_text m (line_pieces fs labels) (map u64_arg (map (ctx_read ctx) names))
      (line_text fs labels (map (ctx_read ctx) names))"
    using Cons.prems(4) by (intro line_printf) (simp add: l labs(1))
  moreover have "cstr_at m (lit fmt) (format_text (line_pieces fs labels))"
    using Cons.prems(1) by (simp add: l labs(2))
  ultimately have "emits (printf put m (lit fmt) (map u64_arg (map (ctx_read ctx) names)))
      (line_text fs labels (map (ctx_read ctx) names))"
    using Cons.prems(3) by (intro emits_printf) (simp_all add: labs(1))
  moreover have "emits (print_dump put m lit ctx ls)
      (concat (map (\<lambda>((fs, labels), (_, names)). line_text fs labels (map (ctx_read ctx) names)) (zip labs' ls)))"
    using Cons.prems labs(3) by (intro Cons.IH) (simp_all add: labs(1))
  ultimately show ?case
    using emits_seq by (simp add: l labs(1) comp_def emits_def)
qed

lemma emits_dump:
  "literals m lit panic_literals \<Longrightarrow> emits (print_dump put m lit ctx dump_lines) (lines_text ctx)"
  unfolding lines_text_def
  by (rule emits_print_dump [OF _ dump_formats dump_pieces_ok dump_lengths])
    (auto simp: literals_def panic_literals_def list_all_iff)

lemma emits_panic_console:
  assumes "literals m lit panic_literals" and "emits (printf put m fmt args) t"
  shows "emits (panic_console put m lit fmt args) (console_text t)"
proof -
  have "cstr_at m (lit x) x" if "x \<in> set panic_literals" for x
    using assms(1) that by (auto simp: literals_def list_all_iff)
  then have lits: "emits (say_lit put m lit x) (crlf x)"
    if "x \<in> {ansi_red, ansi_bold, panic_head, ansi_reset, halted_text}" for x
    using that by (intro emits_say_lit) (auto simp: panic_literals_def)
  show ?thesis
    unfolding panic_console_def console_text_literals
    by (intro emits_seq lits assms(2)) simp_all
qed

lemma emits_panic_log:
  assumes "literals m lit panic_literals" and "emits (printf put m fmt args) t"
  shows "emits (panic_log put m lit ctx fmt args) (log_text (map_option lines_text ctx) t)"
proof -
  have "cstr_at m (lit x) x" if "x \<in> set panic_literals" for x
    using assms(1) that by (auto simp: literals_def list_all_iff)
  then have lits: "emits (say_lit put m lit x) (crlf x)"
    if "x \<in> {log_head, [10, 10], dump_head, halted_text}" for x
    using that by (intro emits_say_lit) (auto simp: panic_literals_def)
  have "emits (\<lambda>st. case ctx of None \<Rightarrow> Some st
        | Some c \<Rightarrow> say_lit put m lit dump_head st \<bind> print_dump put m lit c dump_lines)
      (case map_option lines_text ctx of None \<Rightarrow> [] | Some d \<Rightarrow> crlf dump_head @ d)"
    using emits_skip emits_seq [OF lits emits_dump [OF assms(1)]] by (cases ctx) simp_all
  then show ?thesis
    unfolding panic_log_def log_text_literals
    by (intro emits_seq lits assms(2)) simp_all
qed

end

lemma kernel_panic_runs:
  assumes "literals m lit panic_literals"
    and "printf_text m ps args t" and "list_all piece_ok ps" and "cstr_at m fmt (format_text ps)"
    and "eventually_ready dev COM1" and "eventually_ready dev COM2"
    and "\<not> dlab (uart_after COM1 u1 h)" and "\<not> dlab (uart_after COM2 u2 h)"
  shows "\<exists>h'. kernel_panic dev m lit ctx fmt args h = Some (h', Cli ## halt_loop)
    \<and> sent (uart_after COM1 u1 h') = sent (uart_after COM1 u1 h) @ console_text t
    \<and> sent (uart_after COM2 u2 h') = sent (uart_after COM2 u2 h) @ log_text (map_option lines_text ctx) t"
proof -
  obtain h1 where h1: "panic_console (serial_put dev COM1) m lit fmt args h = Some h1"
    "sent (uart_after COM1 u1 h1) = sent (uart_after COM1 u1 h) @ console_text t"
    "uart_after COM2 u2 h1 = uart_after COM2 u2 h"
    using port.emitsD [OF port.emits_panic_console [OF assms(1) port.emits_printf [OF assms(2-4)],
        where dev = dev and base = COM1 and u = u1 and other = COM2 and v = u2], of h] assms(5,7)
    by auto
  obtain h2 where "panic_log (serial_put dev COM2) m lit ctx fmt args h1 = Some h2"
    "sent (uart_after COM2 u2 h2) = sent (uart_after COM2 u2 h1) @ log_text (map_option lines_text ctx) t"
    "uart_after COM1 u1 h2 = uart_after COM1 u1 h1"
    using port.emitsD [OF port.emits_panic_log [OF assms(1) port.emits_printf [OF assms(2-4)],
        where dev = dev and base = COM2 and u = u2 and other = COM1 and v = u1 and ctx = ctx], of h1] assms(6,8) h1(3)
    by auto
  with h1 show ?thesis by (auto simp: kernel_panic_def haltCatchFire_def)
qed

subsection \<open>An interrupt without a handler\<close>

definition exception_pieces :: "piece list" where
  "exception_pieces = map Plain (bytes ''Unhandled CPU Exception '') @ Hole True (hex_spec 2)
     # map Plain (bytes '': '') @ [plain_hole]"

definition vector_pieces :: "piece list" where
  "vector_pieces = map Plain (bytes ''Unhandled Interrupt Vector '') @ [Hole True (hex_spec 2)]"

lemma num_text_2: "num_text upper_table 10 2 = [50]"
  by (subst num_text.simps) (simp add: upper_table_def)

lemma handler_formats:
  "format_text exception_pieces = exception_format" "format_text vector_pieces = vector_format"
  "list_all piece_ok exception_pieces" "list_all piece_ok vector_pieces"
  by (simp_all add: exception_pieces_def exception_format_def vector_pieces_def vector_format_def
      hex_spec_def plain_hole_def spec_text_def num_text_2 bytes_def letter_type_def isalpha_def)

text \<open>The sentence about vector \<open>n\<close>, with the names of the exceptions as the manuals have them.\<close>

definition vector_names :: "string list" where
  "vector_names = [''Divide-by-zero Error'', ''Debug'', ''Non-maskable Interrupt'', ''Breakpoint'',
     ''Overflow'', ''Bound Range Exceeded'', ''Invalid Opcode'', ''Device Not Available'',
     ''Double Fault'', ''Coprocessor Segment Overrun'', ''Invalid TSS'', ''Segment Not Present'',
     ''Stack Segment Fault'', ''General Protection Fault'', ''Page Fault'', ''Reserved'',
     ''x87 Floating-Point Exception'', ''Alignment Check'', ''Machine Check'',
     ''SIMD Floating-Point Exception'', ''Virtualization Exception'', ''Control Protection Exception'',
     ''Reserved'', ''Reserved'', ''Reserved'', ''Reserved'', ''Reserved'', ''Reserved'',
     ''Hypervisor Injection Exception'', ''VMM Communication Exception'', ''Security Exception'',
     ''Reserved'']"

definition cause_text :: "nat \<Rightarrow> u8 list" where
  "cause_text n =
     (if n < 32 then bytes ''Unhandled CPU Exception '' @ int_text (hex_spec 2) (of_nat n)
        @ bytes '': '' @ bytes (vector_names ! n)
      else bytes ''Unhandled Interrupt Vector '' @ int_text (hex_spec 2) (of_nat n))"

lemma cause_text_code:
  "cause_text n =
     (if n < 32 then bytes ''Unhandled CPU Exception '' @ int_text (hex_spec 2) (of_nat n)
        @ bytes '': '' @ bytes (exception_names ! n)
      else bytes ''Unhandled Interrupt Vector '' @ int_text (hex_spec 2) (of_nat n))"
  by (simp add: cause_text_def vector_names_def exception_names_def)

lemma length_exception_names: "length exception_names = 32"
  by (simp add: exception_names_def)

lemma names_plain: "n < 32 \<Longrightarrow> crlf (bytes (exception_names ! n)) = bytes (exception_names ! n)"
proof -
  have "list_all (\<lambda>s. 10 \<notin> set (bytes s)) exception_names"
    by (simp add: exception_names_def bytes_def)
  with length_exception_names show "n < 32 \<Longrightarrow> ?thesis" by (auto simp: list_all_length intro: no_newline)
qed

lemma cause_printf:
  shows "n < 32 \<Longrightarrow> cstr_at m a (bytes (exception_names ! n)) \<Longrightarrow>
      printf_text m exception_pieces [u64_arg (of_nat n), ACStr a] (cause_text n)"
    and "\<not> n < 32 \<Longrightarrow> printf_text m vector_pieces [u64_arg (of_nat n)] (cause_text n)"
proof -
  have hole: "hole_text m (u64_arg (of_nat n)) fs (int_text fs (of_nat n))" for fs
    by (simp add: u64_arg_def)
  have plain: "crlf (bytes ''Unhandled CPU Exception '') = bytes ''Unhandled CPU Exception ''"
    "crlf (bytes '': '') = bytes '': ''"
    "crlf (bytes ''Unhandled Interrupt Vector '') = bytes ''Unhandled Interrupt Vector ''"
    by (simp_all add: no_newline bytes_def)
  have stop: "printf_text m [] [] []" using printf_text.no_args [of m "[]"] by simp
  {
    assume n: "n < 32" and a: "cstr_at m a (bytes (exception_names ! n))"
    have "printf_text m [plain_hole] [ACStr a] (bytes (exception_names ! n) @ [])"
      unfolding plain_hole_def
      using arg_text_items_text.cstr [OF a] names_plain [OF n]
      by (intro printf_text.hole [OF _ stop]) simp
    from printf_text.hole [OF hole printf_text_plains [OF this, of "bytes '': ''"],
        where colon = True and fs = "hex_spec 2"]
    have "printf_text m (Hole True (hex_spec 2) # map Plain (bytes '': '') @ [plain_hole])
        [u64_arg (of_nat n), ACStr a]
        (int_text (hex_spec 2) (of_nat n) @ bytes '': '' @ bytes (exception_names ! n))"
      using plain by simp
    from printf_text_plains [OF this, of "bytes ''Unhandled CPU Exception ''"]
    show "printf_text m exception_pieces [u64_arg (of_nat n), ACStr a] (cause_text n)"
      using n plain by (simp add: exception_pieces_def cause_text_code)
  }
  assume "\<not> n < 32"
  then show "printf_text m vector_pieces [u64_arg (of_nat n)] (cause_text n)"
    using printf_text_plains [OF printf_text.hole [OF hole stop, where colon = True and fs = "hex_spec 2"],
        of "bytes ''Unhandled Interrupt Vector ''"] plain
    by (simp add: vector_pieces_def cause_text_code)
qed

definition handler_literals :: "u8 list list" where
  "handler_literals = panic_literals @ [exception_format, vector_format] @ map bytes exception_names"

text \<open>
  From the frame the stub builds for vector \<open>n\<close>, the default handler sends on the first port
  the panic with the vector in hexadecimal and, for an exception, its name; on the second port
  the same sentence with the register dump; then the processor halts for ever.
\<close>

lemma default_handler_reports:
  assumes "n < 256" and "literals m lit handler_literals"
    and "eventually_ready dev COM1" and "eventually_ready dev COM2"
    and "\<not> dlab (uart_after COM1 u1 h)" and "\<not> dlab (uart_after COM2 u2 h)"
  shows "\<exists>h'. default_handler dev m lit (frame c n hw) h = Some (h', Cli ## sconst Hlt)
    \<and> sent (uart_after COM1 u1 h') = sent (uart_after COM1 u1 h) @ console_text (cause_text n)
    \<and> sent (uart_after COM2 u2 h') = sent (uart_after COM2 u2 h)
        @ log_text (Some (lines_text (frame c n hw))) (cause_text n)"
proof -
  have lits: "cstr_at m (lit x) x" if "x \<in> set handler_literals" for x
    using assms(2) that by (auto simp: literals_def list_all_iff)
  then have panic: "literals m lit panic_literals"
    by (auto simp: literals_def list_all_iff handler_literals_def)
  note run = kernel_panic_runs [OF panic _ _ _ assms(3-6), of _ _ _ _ "Some (frame c n hw)"]
  note cause = defaultInterruptHandler_vector [OF assms(1), of c hw]
  show ?thesis
  proof (cases "n < 32")
    case True
    then have "bytes (exception_names ! n) \<in> set handler_literals"
      by (simp add: handler_literals_def length_exception_names)
    from run [OF cause_printf(1) [OF True lits [OF this]] handler_formats(3)]
    show ?thesis using True cause lits [of exception_format]
      by (simp add: default_handler_def handler_formats handler_literals_def halt_loop_sconst)
  next
    case False
    from run [OF cause_printf(2) [OF False] handler_formats(4)]
    show ?thesis using False cause lits [of vector_format]
      by (simp add: default_handler_def handler_formats handler_literals_def halt_loop_sconst)
  qed
qed

text \<open>
  The dump of a frame, word by word. For the three vectors whose error code the stub does not
  know about, it lies where the instruction pointer is looked for, and what the processor pushed
  shows up one field late.
\<close>

lemma lines_text_frame:
  "lines_text (frame c n (hw_words n err ip cseg fl sp sseg))
    = (if n \<in> {21, 29, 30} then dump_text c err ip cseg fl sp else dump_text c ip cseg fl sp sseg)"
proof -
  have words: "hw_words n err ip cseg fl sp sseg
      = (if n \<in> set err_vectors \<or> n \<in> {21, 29, 30} then [err] else []) @ [ip, cseg, fl, sp, sseg]"
    by (auto simp: hw_words_def cpu_pushes_error_def err_vectors_def)
  have disjoint: "n \<in> {21, 29, 30} \<Longrightarrow> n \<notin> set err_vectors" by (auto simp: err_vectors_def)
  have "lines_text (frame c n [e, ip, cseg, fl, sp, sseg]) = dump_text c ip cseg fl sp sseg"
    if "n \<in> set err_vectors" for e
    using that by (simp add: lines_text_def frame_nth dump_text_def dump_labels_def dump_lines_def
        ctx_read_def ctx_fields_def bytes_def)
  moreover have "lines_text (frame c n (ip # cseg # fl # sp # sseg # w)) = dump_text c ip cseg fl sp sseg"
    if "n \<notin> set err_vectors" for ip cseg fl sp sseg w
    using that by (simp add: lines_text_def frame_nth dump_text_def dump_labels_def dump_lines_def
        ctx_read_def ctx_fields_def bytes_def)
  ultimately show ?thesis using disjoint unfolding words by auto
qed

text \<open>All literals in one block of memory, one after the other.\<close>

fun lit_at :: "addr \<Rightarrow> u8 list list \<Rightarrow> u8 list \<Rightarrow> addr" where
  "lit_at p [] t = p"
| "lit_at p (x # xs) t = (if x = t then p else lit_at (p + of_nat (length x) + 1) xs t)"

definition literal_block :: "u8 list list \<Rightarrow> u8 list" where
  "literal_block ts = concat (map (\<lambda>t. t @ [0]) ts)"

lemma lit_at_block:
  "bytes_at m p (literal_block ts) \<Longrightarrow> t \<in> set ts \<Longrightarrow> 0 \<notin> set t \<Longrightarrow> cstr_at m (lit_at p ts t) t"
  by (induction ts arbitrary: p) (auto simp: literal_block_def bytes_at_append cstr_at_def add.assoc)

lemma literals_block:
  assumes "length (literal_block ts) \<le> 2 ^ 64" and "list_all (\<lambda>t. 0 \<notin> set t) ts"
  shows "literals (put_bytes Map.empty p (literal_block ts)) (lit_at p ts) ts"
  using lit_at_block [OF bytes_at_put_bytes [OF assms(1), of Map.empty p]] assms(2)
  by (auto simp: literals_def list_all_iff)

lemmas literal_defs = handler_literals_def panic_literals_def dump_lines_def exception_names_def
  ansi_red_def ansi_bold_def ansi_reset_def panic_head_def halted_text_def log_head_def dump_head_def
  exception_format_def vector_format_def bytes_def

lemma handler_literals_proper: "list_all (\<lambda>t. 0 \<notin> set t) handler_literals"
  by (simp add: literal_defs)

lemma handler_literals_fit: "length (literal_block handler_literals) \<le> 2 ^ 64"
proof -
  have "length (literal_block ts) \<le> length ts * 101" if "list_all (\<lambda>t. length t \<le> 100) ts"
    for ts :: "u8 list list"
    using that by (induction ts) (auto simp: literal_block_def)
  moreover have "list_all (\<lambda>t. length t \<le> 100) handler_literals" by (simp add: literal_defs)
  moreover have "length handler_literals = 48" by (simp add: literal_defs)
  ultimately show ?thesis by fastforce
qed

definition zero_cpu :: cpu where
  "zero_cpu = \<lparr>rax = 0, rbx = 0, rcx = 0, rdx = 0, rsi = 0, rdi = 0, rbp = 0, r8 = 0, r9 = 0, r10 = 0,
     r11 = 0, r12 = 0, r13 = 0, r14 = 0, r15 = 0, ds = 0, es = 0, cr0 = 0, cr2 = 0, cr3 = 0, cr4 = 0\<rparr>"

definition closed_uart :: uart where
  "closed_uart = \<lparr>ier = 0, fcr = 0, lcr = 3, mcr = 0, dll = 1, dlm = 0, sent = []\<rparr>"

lemma handler_literals_placed:
  "literals (put_bytes Map.empty 4096 (literal_block handler_literals)) (lit_at 4096 handler_literals)
     handler_literals"
  by (rule literals_block [OF handler_literals_fit handler_literals_proper])

end
