(* ===== verification/Machine.thy ===== *)
theory Machine
  imports Memory
begin

text \<open>
  The part of the x86-64 processor the interrupt stubs use: registers, memory, and the
  instructions of \<^verbatim>\<open>arch/idt.S\<close>. This is documented behaviour of the processor, on which the
  code of the kernel runs; a list of instructions is executed by \<open>exec\<close>. An access of unmapped
  memory is \<open>None\<close>.

  A stack is described by the words from its pointer up (\<open>words_at\<close>); \<open>stack_room\<close> says that
  so many more words can be pushed.
\<close>

datatype reg = RAX | RBX | RCX | RDX | RSI | RDI | RBP | RSP | R8 | R9 | R10 | R11 | R12 | R13
  | R14 | R15 | DS | ES | CR0 | CR2 | CR3 | CR4 | RIP | CS | RFLAGS | SS

record machine =
  regs :: "reg \<Rightarrow> u64"
  ram :: mem

datatype instr = PushImm u64 | Push reg | Pop reg | Mov reg reg | MovRsp u64 reg | AddRsp u64

definition set_reg :: "reg \<Rightarrow> u64 \<Rightarrow> machine \<Rightarrow> machine" where
  "set_reg r v M = M\<lparr>regs := (regs M)(r := v)\<rparr>"

definition push :: "u64 \<Rightarrow> machine \<Rightarrow> machine option" where
  "push v M = do {
     m \<leftarrow> write64 (ram M) (regs M RSP - 8) v;
     Some (set_reg RSP (regs M RSP - 8) (M\<lparr>ram := m\<rparr>))
   }"

text \<open>\<^verbatim>\<open>Mov r s\<close> is \<^verbatim>\<open>movq %r, %s\<close>, \<^verbatim>\<open>MovRsp k r\<close> is \<^verbatim>\<open>movq k(%rsp), %r\<close>.\<close>

fun exec1 :: "instr \<Rightarrow> machine \<Rightarrow> machine option" where
  "exec1 (PushImm v) M = push v M"
| "exec1 (Push r) M = push (regs M r) M"
| "exec1 (Pop r) M = do {
     v \<leftarrow> read64 (ram M) (regs M RSP);
     Some (set_reg r v (set_reg RSP (regs M RSP + 8) M))
   }"
| "exec1 (Mov r s) M = Some (set_reg s (regs M r) M)"
| "exec1 (MovRsp k r) M = do { v \<leftarrow> read64 (ram M) (regs M RSP + k); Some (set_reg r v M) }"
| "exec1 (AddRsp k) M = Some (set_reg RSP (regs M RSP + k) M)"

fun exec :: "instr list \<Rightarrow> machine \<Rightarrow> machine option" where
  "exec [] M = Some M"
| "exec (i # is) M = do { M \<leftarrow> exec1 i M; exec is M }"

lemma exec_append: "exec (is @ js) M = do { M \<leftarrow> exec is M; exec js M }"
  by (induction "is" arbitrary: M) (auto split: bind_splits)

lemma set_reg_simps [simp]:
  "regs (set_reg r v M) = (regs M)(r := v)" "ram (set_reg r v M) = ram M"
  by (simp_all add: set_reg_def)

subsection \<open>Words in memory\<close>

definition words_at :: "mem \<Rightarrow> addr \<Rightarrow> u64 list \<Rightarrow> bool" where
  "words_at m p ws \<longleftrightarrow> bytes_at m p (concat (map (le_bytes 8) ws))"

lemma length_words [simp]: "length (concat (map (le_bytes 8) ws)) = 8 * length ws"
  by (induction ws) simp_all

lemma words_at_Nil [simp]: "words_at m p []"
  by (simp add: words_at_def)

lemma words_at_Cons:
  "words_at m p (w # ws) \<longleftrightarrow> bytes_at m p (le_bytes 8 w) \<and> words_at m (p + 8) ws"
  by (simp add: words_at_def bytes_at_append)

lemma words_at_read: "words_at m p (w # ws) \<Longrightarrow> read64 m p = Some w"
  by (simp add: words_at_Cons read64_bytes)

lemma words_at_append:
  "words_at m p (vs @ ws) \<longleftrightarrow> words_at m p vs \<and> words_at m (p + 8 * of_nat (length vs)) ws"
  by (simp add: words_at_def bytes_at_append)

lemma words_at_nth:
  assumes "words_at m p ws" and "i < length ws"
  shows "read64 m (p + 8 * of_nat i) = Some (ws ! i)"
proof -
  have "ws = take i ws @ ws ! i # drop (Suc i) ws" using assms(2) by (rule id_take_nth_drop)
  with assms(1) have "words_at m p (take i ws @ ws ! i # drop (Suc i) ws)" by simp
  then have "words_at m (p + 8 * of_nat i) (ws ! i # drop (Suc i) ws)"
    using assms(2) by (simp add: words_at_append)
  then show ?thesis by (rule words_at_read)
qed

lemma words_at_cong:
  assumes "words_at m p ws" and "\<forall>q \<in> region p (8 * length ws). m' q = m q"
  shows "words_at m' p ws"
  using assms bytes_at_cong [of p "concat (map (le_bytes 8) ws)" m m'] by (simp add: words_at_def)

subsection \<open>Pushing and popping\<close>

text \<open>Runs of eight bytes stay closed here.\<close>

declare region_numeral [simp del] mapped_numeral [simp del]

definition stack_room :: "nat \<Rightarrow> machine \<Rightarrow> u64 list \<Rightarrow> bool" where
  "stack_room k M ws \<longleftrightarrow> words_at (ram M) (regs M RSP) ws
     \<and> mapped (ram M) (regs M RSP - 8 * of_nat k) (8 * k) \<and> 8 * (k + length ws) \<le> 2 ^ 64"

text \<open>All but the \<open>n\<close> words below \<open>p\<close> is as before.\<close>

definition kept :: "addr \<Rightarrow> nat \<Rightarrow> mem \<Rightarrow> mem \<Rightarrow> bool" where
  "kept p n m m' \<longleftrightarrow> (\<forall>q. q \<notin> region (p - 8 * of_nat n) (8 * n) \<longrightarrow> m' q = m q)"

lemma kept_trans:
  assumes "kept p n m m'" and "kept (p - 8 * of_nat n) k m' m''"
  shows "kept p (n + k) m m''"
proof -
  have "p - 8 * of_nat (n + k) + of_nat (8 * k) = p - 8 * of_nat n" by (simp add: algebra_simps)
  then have "region (p - 8 * of_nat (n + k)) (8 * (n + k))
      = region (p - 8 * of_nat n - 8 * of_nat k) (8 * k) \<union> region (p - 8 * of_nat n) (8 * n)"
    using region_add [of "p - 8 * of_nat (n + k)" "8 * k" "8 * n"] by (simp add: algebra_simps)
  then show ?thesis using assms by (simp add: kept_def)
qed

fun pushes :: "u64 list \<Rightarrow> machine \<Rightarrow> machine option" where
  "pushes [] M = Some M"
| "pushes (v # vs) M = do { M \<leftarrow> push v M; pushes vs M }"

lemma push_effect:
  assumes "stack_room (Suc k) M ws"
  shows "\<exists>M'. push v M = Some M' \<and> stack_room k M' (v # ws)
    \<and> regs M' = (regs M)(RSP := regs M RSP - 8) \<and> kept (regs M RSP) 1 (ram M) (ram M')"
proof -
  let ?p = "regs M RSP - 8" and ?m = "ram M"
  let ?m' = "put_bytes ?m ?p (le_bytes 8 v)"
  have start: "regs M RSP - 8 * of_nat (Suc k) = ?p - 8 * of_nat k" "8 * Suc k = 8 * k + 8"
    by (simp_all add: algebra_simps)
  have "mapped ?m (?p - 8 * of_nat k) (8 * k + 8)"
    using assms unfolding stack_room_def start by simp
  then have room: "mapped ?m (?p - 8 * of_nat k) (8 * k)" "mapped ?m ?p 8"
    unfolding mapped_add by (simp_all add: algebra_simps)
  have ws: "words_at ?m (regs M RSP) ws" and len: "8 * (Suc k + length ws) \<le> 2 ^ 64"
    using assms unfolding stack_room_def by blast+
  have "8 + 8 * length ws \<le> 8 * (Suc k + length ws)" by simp
  from this len have "8 + 8 * length ws \<le> 2 ^ 64" by (rule order_trans)
  from region_split_disjoint [OF this, of ?p]
  have "region ?p 8 \<inter> region (regs M RSP) (8 * length ws) = {}" by simp
  then have "\<forall>q \<in> region (regs M RSP) (8 * length ws). ?m' q = ?m q"
    by (intro ballI put_bytes_other) (simp only: length_le_bytes disjoint_iff, blast)
  with ws have "words_at ?m' (regs M RSP) ws" by (rule words_at_cong)
  moreover have "bytes_at ?m' ?p (le_bytes 8 v)" by (rule bytes_at_put_bytes) simp
  ultimately have "words_at ?m' ?p (v # ws)" by (simp add: words_at_Cons)
  moreover have "mapped ?m' (?p - 8 * of_nat k) (8 * k)" using room(1) by simp
  moreover have "kept (regs M RSP) 1 ?m ?m'" by (simp add: kept_def)
  ultimately show ?thesis
    using len room(2) by (simp add: push_def write64_def stack_room_def)
qed

lemma pushes_effect:
  assumes "stack_room (length vs + k) M ws"
  shows "\<exists>M'. pushes vs M = Some M' \<and> stack_room k M' (rev vs @ ws)
    \<and> regs M' = (regs M)(RSP := regs M RSP - 8 * of_nat (length vs))
    \<and> kept (regs M RSP) (length vs) (ram M) (ram M')"
  using assms
proof (induction vs arbitrary: M ws)
  case Nil
  then show ?case by (simp add: kept_def)
next
  case (Cons v vs)
  from Cons.prems obtain M1 where M1: "push v M = Some M1" "stack_room (length vs + k) M1 (v # ws)"
    "regs M1 = (regs M)(RSP := regs M RSP - 8)" "kept (regs M RSP) 1 (ram M) (ram M1)"
    using push_effect [of "length vs + k" M ws v] by auto
  from Cons.IH [OF M1(2)] obtain M2 where M2: "pushes vs M1 = Some M2"
    "stack_room k M2 (rev vs @ v # ws)"
    "regs M2 = (regs M1)(RSP := regs M1 RSP - 8 * of_nat (length vs))"
    "kept (regs M1 RSP) (length vs) (ram M1) (ram M2)" by auto
  have "kept (regs M RSP) (1 + length vs) (ram M) (ram M2)"
    using M1(3,4) M2(4) by (intro kept_trans [OF M1(4)]) simp
  with M1 M2 show ?case by (simp add: algebra_simps)
qed

lemma exec_pushes: "RSP \<notin> set rs \<Longrightarrow> exec (map Push rs) M = pushes (map (regs M) rs) M"
proof (induction rs arbitrary: M)
  case (Cons r rs)
  have "map (regs M') rs = map (regs M) rs" if "push v M = Some M'" for v M'
    using that Cons.prems by (auto simp: push_def fun_upd_apply split: bind_splits)
  with Cons show ?case by (auto split: bind_splits cong: map_cong)
qed simp

text \<open>A register that cannot be pushed goes through another one.\<close>

lemma exec_pushes_via:
  assumes "stack_room (length rs + k) M ws" and "v \<notin> set rs" and "v \<noteq> RSP" and "RSP \<notin> set rs"
  shows "\<exists>M'. exec (concat (map (\<lambda>r. [Mov r v, Push v]) rs)) M = Some M'
    \<and> stack_room k M' (rev (map (regs M) rs) @ ws)
    \<and> regs M' RSP = regs M RSP - 8 * of_nat (length rs)
    \<and> (\<forall>r. r \<notin> {v, RSP} \<longrightarrow> regs M' r = regs M r)
    \<and> kept (regs M RSP) (length rs) (ram M) (ram M')"
  using assms
proof (induction rs arbitrary: M ws)
  case Nil
  then show ?case by (simp add: kept_def)
next
  case (Cons r rs)
  let ?M = "set_reg v (regs M r) M"
  have "stack_room (Suc (length rs + k)) ?M ws"
    using Cons.prems(1,3) by (simp add: stack_room_def)
  from push_effect [OF this, of "regs M r"] obtain M1 where M1: "push (regs M r) ?M = Some M1"
    "stack_room (length rs + k) M1 (regs M r # ws)"
    "regs M1 = (regs ?M)(RSP := regs M RSP - 8)" "kept (regs M RSP) 1 (ram M) (ram M1)"
    using Cons.prems(3) by auto
  from Cons.IH [OF M1(2)] Cons.prems obtain M2 where M2:
    "exec (concat (map (\<lambda>r. [Mov r v, Push v]) rs)) M1 = Some M2"
    "stack_room k M2 (rev (map (regs M1) rs) @ regs M r # ws)"
    "regs M2 RSP = regs M1 RSP - 8 * of_nat (length rs)"
    "\<forall>r. r \<notin> {v, RSP} \<longrightarrow> regs M2 r = regs M1 r"
    "kept (regs M1 RSP) (length rs) (ram M1) (ram M2)" by auto
  have same: "map (regs M1) rs = map (regs M) rs"
    using M1(3) Cons.prems by (auto simp: fun_upd_apply)
  have "kept (regs M RSP) (1 + length rs) (ram M) (ram M2)"
    using M1(3) M2(5) by (intro kept_trans [OF M1(4)]) simp
  moreover have "stack_room k M2 (rev (map (regs M) (r # rs)) @ ws)" using M2(2) unfolding same by simp
  ultimately show ?case using M1(1,3) M2(1,3,4) Cons.prems(3,4) by (auto simp: algebra_simps fun_upd_apply)
qed

lemma exec_pops:
  assumes "words_at (ram M) (regs M RSP) (vs @ ws)" and "length vs = length rs"
    and "distinct rs" and "RSP \<notin> set rs"
  shows "\<exists>M'. exec (map Pop rs) M = Some M' \<and> ram M' = ram M
    \<and> words_at (ram M') (regs M' RSP) ws \<and> regs M' RSP = regs M RSP + 8 * of_nat (length rs)
    \<and> map (regs M') rs = vs \<and> (\<forall>r. r \<notin> insert RSP (set rs) \<longrightarrow> regs M' r = regs M r)"
  using assms
proof (induction rs arbitrary: M vs)
  case Nil
  then show ?case by simp
next
  case (Cons r rs)
  then obtain v us where vs: "vs = v # us" "length us = length rs" by (cases vs) auto
  let ?M = "set_reg r v (set_reg RSP (regs M RSP + 8) M)"
  have "exec1 (Pop r) M = Some ?M"
    using Cons.prems(1) words_at_read [of "ram M" "regs M RSP" v "us @ ws"] by (simp add: vs)
  moreover have "words_at (ram ?M) (regs ?M RSP) (us @ ws)"
    using Cons.prems(1,4) by (simp add: vs words_at_Cons)
  from Cons.IH [OF this vs(2)] Cons.prems obtain M' where "exec (map Pop rs) ?M = Some M'"
    "ram M' = ram M" "words_at (ram M') (regs M' RSP) ws"
    "regs M' RSP = regs ?M RSP + 8 * of_nat (length rs)" "map (regs M') rs = us"
    "\<forall>r. r \<notin> insert RSP (set rs) \<longrightarrow> regs M' r = regs ?M r" by auto
  ultimately show ?case using Cons.prems(3,4) by (auto simp: vs algebra_simps)
qed

end
