(* ===== verification/Stub.thy ===== *)
theory Stub
  imports Machine Idt
begin

text \<open>
  The interrupt stubs as the instructions they are (\<^verbatim>\<open>arch/idt.S\<close>), run on the machine. The entry
  builds in memory the \<open>frame\<close> the theory before describes as a list of words; the exit restores
  the registers from it, and from it only. What the processor does before the first and at the
  last instruction (\<open>deliver\<close>, \<open>iretq\<close>) is its documented behaviour for an interrupt without a
  change of privilege.
\<close>

subsection \<open>The code\<close>

text \<open>\<^verbatim>\<open>STUB_ERR n\<close> and \<^verbatim>\<open>STUB_NOERR n\<close>.\<close>

definition stub_code :: "nat \<Rightarrow> instr list" where
  "stub_code n = (if n \<in> set err_vectors then [PushImm (of_nat n)] else [PushImm 0, PushImm (of_nat n)])"

text \<open>\<^verbatim>\<open>common_stub\<close> up to the call.\<close>

definition entry_code :: "instr list" where
  "entry_code = [Push R15, Push R14, Push R13, Push R12, Push R11, Push R10, Push R9, Push R8,
     Push RAX, Push RBX, Push RCX, Push RDX, Push RSI, Push RDI, Push RBP,
     Mov DS RAX, Push RAX, Mov ES RAX, Push RAX,
     Mov CR0 RAX, Push RAX, Mov CR2 RAX, Push RAX, Mov CR3 RAX, Push RAX, Mov CR4 RAX, Push RAX,
     Mov RSP RDI, MovRsp 120 RAX]"

text \<open>\<^verbatim>\<open>common_stub\<close> from the call to \<^verbatim>\<open>iretq\<close>.\<close>

definition exit_code :: "instr list" where
  "exit_code = [AddRsp 32, AddRsp 16, Pop RBP, Pop RDI, Pop RSI, Pop RDX, Pop RCX, Pop RBX, Pop RAX,
     Pop R8, Pop R9, Pop R10, Pop R11, Pop R12, Pop R13, Pop R14, Pop R15, AddRsp 16]"

text \<open>The call pushes its return address, and the \<^verbatim>\<open>ret\<close> of the handler takes it.\<close>

definition call_handler :: "(machine \<Rightarrow> machine option) \<Rightarrow> u64 \<Rightarrow> machine \<Rightarrow> machine option" where
  "call_handler f ret M = do {
     M \<leftarrow> push ret M;
     M \<leftarrow> f M;
     Some (set_reg RSP (regs M RSP + 8) M)
   }"

subsection \<open>The processor\<close>

text \<open>
  Through gate \<open>g\<close>: align the stack, push the interrupted state, enter the stub; a gate of
  interrupt type turns interrupts off.
\<close>

definition aligned_sp :: "machine \<Rightarrow> u64" where
  "aligned_sp M = regs M RSP AND NOT 15"

definition hw_pushes :: "nat \<Rightarrow> u64 \<Rightarrow> machine \<Rightarrow> u64 list" where
  "hw_pushes n err M = [regs M SS, regs M RSP, regs M RFLAGS, regs M CS, regs M RIP]
     @ (if cpu_pushes_error n then [err] else [])"

definition deliver :: "idt_entry \<Rightarrow> nat \<Rightarrow> u64 \<Rightarrow> machine \<Rightarrow> machine option" where
  "deliver g n err M = do {
     M1 \<leftarrow> pushes (hw_pushes n err M) (set_reg RSP (aligned_sp M) M);
     Some (set_reg RIP (gate_offset g) (set_reg CS (ucast (selector g))
       (set_reg RFLAGS (unset_bit 8 (if attribute g = INTERRUPT_GATE then unset_bit 9 (regs M RFLAGS)
          else regs M RFLAGS)) M1)))
   }"

definition iretq :: "machine \<Rightarrow> machine option" where
  "iretq M = do {
     ip \<leftarrow> read64 (ram M) (regs M RSP);
     cs \<leftarrow> read64 (ram M) (regs M RSP + 8);
     fl \<leftarrow> read64 (ram M) (regs M RSP + 16);
     sp \<leftarrow> read64 (ram M) (regs M RSP + 24);
     ss \<leftarrow> read64 (ram M) (regs M RSP + 32);
     Some (set_reg RIP ip (set_reg CS cs (set_reg RFLAGS fl (set_reg RSP sp (set_reg SS ss M)))))
   }"

text \<open>A whole interrupt; \<open>tab\<close> reads the handler table.\<close>

definition interrupt ::
  "(u64 \<Rightarrow> (machine \<Rightarrow> machine option) option) \<Rightarrow> u64 \<Rightarrow> idt_entry \<Rightarrow> nat \<Rightarrow> u64 \<Rightarrow> machine \<Rightarrow> machine option"
where
  "interrupt tab ret g n err M = do {
     M \<leftarrow> deliver g n err M;
     M \<leftarrow> exec (stub_code n @ entry_code) M;
     f \<leftarrow> tab (regs M RAX);
     M \<leftarrow> call_handler f ret M;
     M \<leftarrow> exec exit_code M;
     iretq M
   }"

subsection \<open>The entry builds the frame\<close>

definition cpu_of :: "machine \<Rightarrow> cpu" where
  "cpu_of M = \<lparr>rax = regs M RAX, rbx = regs M RBX, rcx = regs M RCX, rdx = regs M RDX, rsi = regs M RSI,
     rdi = regs M RDI, rbp = regs M RBP, r8 = regs M R8, r9 = regs M R9, r10 = regs M R10,
     r11 = regs M R11, r12 = regs M R12, r13 = regs M R13, r14 = regs M R14, r15 = regs M R15,
     ds = regs M DS, es = regs M ES, cr0 = regs M CR0, cr2 = regs M CR2, cr3 = regs M CR3, cr4 = regs M CR4\<rparr>"

abbreviation general :: "reg list" where
  "general \<equiv> [R15, R14, R13, R12, R11, R10, R9, R8, RAX, RBX, RCX, RDX, RSI, RDI, RBP]"

abbreviation control :: "reg list" where
  "control \<equiv> [DS, ES, CR0, CR2, CR3, CR4]"

definition stub_words :: "nat \<Rightarrow> u64 list" where
  "stub_words n = (if n \<in> set err_vectors then [of_nat n] else [0, of_nat n])"

lemma stub_code_pushes: "exec (stub_code n) M = pushes (stub_words n) M"
  by (auto simp: stub_code_def stub_words_def intro!: Option.bind_cong)

lemma entry_code_split:
  "entry_code = map Push general @ concat (map (\<lambda>r. [Mov r RAX, Push RAX]) control)
     @ [Mov RSP RDI, MovRsp 120 RAX]"
  by (simp add: entry_code_def)

lemma frame_split:
  "frame (cpu_of M) n hw = rev (map (regs M) control) @ rev (map (regs M) general) @ rev (stub_words n) @ hw"
  by (simp add: frame_nth cpu_of_def stub_words_def)

text \<open>How many words the stub pushes below what the processor has pushed.\<close>

definition stub_depth :: "nat \<Rightarrow> nat" where
  "stub_depth n = length (stub_words n) + 21"

lemma entry_builds_frame:
  assumes "stack_room (stub_depth n + k) M hw"
  shows "\<exists>M'. exec (stub_code n @ entry_code) M = Some M'
    \<and> stack_room k M' (frame (cpu_of M) n hw)
    \<and> regs M' RDI = regs M' RSP \<and> regs M' RAX = handler_index (frame (cpu_of M) n hw)
    \<and> regs M' RSP = regs M RSP - 8 * of_nat (stub_depth n)
    \<and> (\<forall>r. r \<notin> {RAX, RDI, RSP} \<longrightarrow> regs M' r = regs M r)
    \<and> kept (regs M RSP) (stub_depth n) (ram M) (ram M')"
proof -
  have room: "stack_room (length (stub_words n) + (21 + k)) M hw"
    using assms by (simp add: stub_depth_def add.assoc)
  from pushes_effect [OF this] obtain M1 where M1: "exec (stub_code n) M = Some M1"
    "stack_room (21 + k) M1 (rev (stub_words n) @ hw)"
    "regs M1 = (regs M)(RSP := regs M RSP - 8 * of_nat (length (stub_words n)))"
    "kept (regs M RSP) (length (stub_words n)) (ram M) (ram M1)"
    by (auto simp: stub_code_pushes)
  have "stack_room (length (map (regs M1) general) + (6 + k)) M1 (rev (stub_words n) @ hw)"
    using M1(2) by simp
  from pushes_effect [OF this] obtain M2 where M2: "exec (map Push general) M1 = Some M2"
    "stack_room (6 + k) M2 (rev (map (regs M1) general) @ rev (stub_words n) @ hw)"
    "regs M2 = (regs M1)(RSP := regs M1 RSP - 8 * of_nat (length (map (regs M1) general)))"
    "kept (regs M1 RSP) (length (map (regs M1) general)) (ram M1) (ram M2)"
    by (auto simp: exec_pushes simp del: exec.simps list.map)
  have "stack_room (length control + k) M2 (rev (map (regs M1) general) @ rev (stub_words n) @ hw)"
    using M2(2) by (simp add: eval_nat_numeral)
  from exec_pushes_via [OF this, of RAX] obtain M3 where M3:
    "exec (concat (map (\<lambda>r. [Mov r RAX, Push RAX]) control)) M2 = Some M3"
    "stack_room k M3 (rev (map (regs M2) control) @ rev (map (regs M1) general) @ rev (stub_words n) @ hw)"
    "regs M3 RSP = regs M2 RSP - 8 * of_nat (length control)"
    "\<forall>r. r \<notin> {RAX, RSP} \<longrightarrow> regs M3 r = regs M2 r"
    "kept (regs M2 RSP) (length control) (ram M2) (ram M3)"
    by (auto simp del: exec.simps list.map concat.simps)
  have len: "length (map (regs M1) general) = 15" "length control = 6" by simp_all
  have words: "rev (map (regs M2) control) @ rev (map (regs M1) general) @ rev (stub_words n) @ hw
      = frame (cpu_of M) n hw"
    unfolding frame_split M2(3) M1(3) by simp
  let ?v = "handler_index (frame (cpu_of M) n hw)"
  let ?M' = "set_reg RAX ?v (set_reg RDI (regs M3 RSP) M3)"
  have "words_at (ram M3) (regs M3 RSP) (frame (cpu_of M) n hw)"
    using M3(2) unfolding words stack_room_def by simp
  from words_at_nth [OF this, of 15] have "read64 (ram M3) (regs M3 RSP + 120) = Some ?v"
    by (simp add: frame_nth handler_index_def)
  then have "exec entry_code M1 = Some ?M'"
    unfolding entry_code_split using M2(1) M3(1) by (simp add: exec_append del: list.map concat.simps)
  moreover have "stack_room k ?M' (frame (cpu_of M) n hw)"
    using M3(2) unfolding words by (simp add: stack_room_def)
  moreover have "kept (regs M RSP) (length (stub_words n) + (15 + 6)) (ram M) (ram M3)"
    using M2(4) [unfolded len] M3(5) [unfolded len] M1(3) M2(3)
    by (intro kept_trans [OF M1(4)] kept_trans [where n = 15 and k = 6 and m' = "ram M2"]) simp_all
  moreover have "regs M3 RSP = regs M RSP - 8 * of_nat (stub_depth n)"
    using M1(3) M2(3) M3(3) by (simp add: stub_depth_def algebra_simps)
  moreover have "\<forall>r. r \<notin> {RAX, RDI, RSP} \<longrightarrow> regs ?M' r = regs M r"
    using M1(3) M2(3) M3(4) by (simp add: fun_upd_apply)
  ultimately show ?thesis
    using M1(1) by (intro exI [of _ ?M']) (simp add: exec_append stub_depth_def)
qed

subsection \<open>The exit takes it back\<close>

abbreviation popped :: "reg list" where
  "popped \<equiv> [RBP, RDI, RSI, RDX, RCX, RBX, RAX, R8, R9, R10, R11, R12, R13, R14, R15]"

lemma exit_code_split: "exit_code = [AddRsp 32, AddRsp 16] @ map Pop popped @ [AddRsp 16]"
  by (simp add: exit_code_def)

lemma words_at_skip:
  assumes "words_at m p (vs @ ws)" and "q = p + 8 * of_nat (length vs)"
  shows "words_at m q ws"
  using assms by (simp add: words_at_append)

lemma exec_skip_pops:
  assumes "words_at (ram M) (regs M RSP) (sys @ vs @ [v, e] @ hw)"
    and "length sys = 6" and "length vs = length rs" and "distinct rs" and "RSP \<notin> set rs"
  shows "\<exists>M'. exec ([AddRsp 32, AddRsp 16] @ map Pop rs @ [AddRsp 16]) M = Some M' \<and> ram M' = ram M
    \<and> words_at (ram M) (regs M' RSP) hw \<and> regs M' RSP = regs M RSP + 8 * of_nat (8 + length rs)
    \<and> map (regs M') rs = vs \<and> (\<forall>r. r \<notin> insert RSP (set rs) \<longrightarrow> regs M' r = regs M r)"
proof -
  let ?M1 = "set_reg RSP (regs M RSP + 48) M"
  have start: "exec [AddRsp 32, AddRsp 16] M = Some ?M1"
    by (simp add: set_reg_def add.assoc)
  have "words_at (ram ?M1) (regs ?M1 RSP) (vs @ [v, e] @ hw)"
    using assms(1,2) by (auto intro: words_at_skip)
  from exec_pops [OF this assms(3-5)] obtain M2 where M2: "exec (map Pop rs) ?M1 = Some M2"
    "ram M2 = ram ?M1" "words_at (ram M2) (regs M2 RSP) ([v, e] @ hw)"
    "regs M2 RSP = regs ?M1 RSP + 8 * of_nat (length rs)" "map (regs M2) rs = vs"
    "\<forall>r. r \<notin> insert RSP (set rs) \<longrightarrow> regs M2 r = regs ?M1 r" by blast
  let ?M3 = "set_reg RSP (regs M2 RSP + 16) M2"
  have "words_at (ram M) (regs ?M3 RSP) hw"
    using words_at_skip [OF M2(3)] M2(2) by simp
  moreover have "map (regs ?M3) rs = vs"
    using M2(5) assms(5) by (auto simp: fun_upd_apply)
  moreover have "exec ([AddRsp 32, AddRsp 16] @ map Pop rs @ [AddRsp 16]) M = Some ?M3"
    unfolding exec_append start using M2(1) by simp
  ultimately show ?thesis
    using M2(2,4,6) by (intro exI [of _ ?M3]) (simp add: fun_upd_apply algebra_simps)
qed

text \<open>The frame need not be the one the entry built: what it holds now is what is restored.\<close>

lemma exit_restores:
  assumes "words_at (ram M) (regs M RSP) (sys @ vs @ [v, e] @ hw)"
    and "length sys = 6" and "length vs = 15"
  shows "\<exists>M'. exec exit_code M = Some M' \<and> ram M' = ram M \<and> words_at (ram M) (regs M' RSP) hw
    \<and> regs M' RSP = regs M RSP + 8 * 23 \<and> map (regs M') popped = vs
    \<and> (\<forall>r. r \<notin> insert RSP (set popped) \<longrightarrow> regs M' r = regs M r)"
proof -
  have "length vs = length popped" "distinct popped" "RSP \<notin> set popped" using assms(3) by simp_all
  from exec_skip_pops [OF assms(1,2) this] obtain M' where
    "exec exit_code M = Some M'" "ram M' = ram M" "words_at (ram M) (regs M' RSP) hw"
    "regs M' RSP = regs M RSP + 8 * of_nat (8 + length popped)" "map (regs M') popped = vs"
    "\<forall>r. r \<notin> insert RSP (set popped) \<longrightarrow> regs M' r = regs M r"
    unfolding exit_code_split by blast
  moreover have "8 + length popped = 23" by simp
  ultimately show ?thesis by (intro exI [of _ M']) simp
qed

subsection \<open>A whole interrupt\<close>

text \<open>
  What the calling convention asks of a handler that returns: the stack pointer is back, and
  memory from it up, the stack of the caller, is as it was. The other registers are its own.
\<close>

definition keeps_stack :: "(machine \<Rightarrow> machine option) \<Rightarrow> bool" where
  "keeps_stack f \<longleftrightarrow> (\<forall>M. \<exists>M'. f M = Some M' \<and> regs M' RSP = regs M RSP
     \<and> (\<forall>q. unat (regs M RSP) \<le> unat q \<longrightarrow> ram M' q = ram M q))"

lemma call_keeps_frame:
  assumes "keeps_stack f" and "stack_room (Suc k) M ws"
    and "unat (regs M RSP) + 8 * length ws \<le> 2 ^ 64" and "8 \<le> unat (regs M RSP)"
  shows "\<exists>M'. call_handler f ret M = Some M' \<and> regs M' RSP = regs M RSP
    \<and> (\<forall>q. unat (regs M RSP) \<le> unat q \<longrightarrow> ram M' q = ram M q) \<and> words_at (ram M') (regs M' RSP) ws"
proof -
  from push_effect [OF assms(2), of ret] obtain M1 where M1: "push ret M = Some M1"
    "regs M1 = (regs M)(RSP := regs M RSP - 8)" "kept (regs M RSP) 1 (ram M) (ram M1)" by auto
  have below: "unat (regs M RSP - 8) = unat (regs M RSP) - 8"
    using assms(4) by (simp add: unat_sub word_le_nat_alt)
  have "q \<notin> region (regs M RSP - 8) 8" if "unat (regs M RSP) \<le> unat q" for q
    using that in_region_iff [of "regs M RSP - 8" 8 q] below assms(4) unat_less_size [of "regs M RSP"] by simp
  then have keep1: "ram M1 q = ram M q" if "unat (regs M RSP) \<le> unat q" for q
    using M1(3) that by (simp add: kept_def)
  obtain M2 where M2: "f M1 = Some M2" "regs M2 RSP = regs M RSP - 8"
    "\<forall>q. unat (regs M RSP - 8) \<le> unat q \<longrightarrow> ram M2 q = ram M1 q"
    using assms(1) M1(2) unfolding keeps_stack_def by (metis fun_upd_same)
  have keep: "ram M2 q = ram M q" if "unat (regs M RSP) \<le> unat q" for q
    using M2(3) keep1 that below by simp
  have "words_at (ram M) (regs M RSP) ws" using assms(2) by (simp add: stack_room_def)
  then have "words_at (ram M2) (regs M RSP) ws"
    using keep in_region_iff [OF assms(3)] by (auto intro: words_at_cong)
  with M1(1) M2(1,2) keep show ?thesis
    by (intro exI [of _ "set_reg RSP (regs M2 RSP + 8) M2"]) (simp add: call_handler_def)
qed

lemma deliver_effect:
  assumes "mapped (ram M) (aligned_sp M - 8 * of_nat (length (hw_pushes n err M) + k))
      (8 * (length (hw_pushes n err M) + k))"
    and "8 * (length (hw_pushes n err M) + k) \<le> 2 ^ 64"
  shows "\<exists>M'. deliver g n err M = Some M' \<and> stack_room k M' (rev (hw_pushes n err M))
    \<and> regs M' RSP = aligned_sp M - 8 * of_nat (length (hw_pushes n err M))
    \<and> (\<forall>r. r \<notin> {RSP, RIP, CS, RFLAGS} \<longrightarrow> regs M' r = regs M r)
    \<and> kept (aligned_sp M) (length (hw_pushes n err M)) (ram M) (ram M')"
proof -
  let ?M = "set_reg RSP (aligned_sp M) M"
  have "stack_room (length (hw_pushes n err M) + k) ?M []"
    using assms by (simp add: stack_room_def)
  from pushes_effect [OF this] obtain M1 where M1: "pushes (hw_pushes n err M) ?M = Some M1"
    "stack_room k M1 (rev (hw_pushes n err M) @ [])"
    "regs M1 = (regs ?M)(RSP := regs ?M RSP - 8 * of_nat (length (hw_pushes n err M)))"
    "kept (regs ?M RSP) (length (hw_pushes n err M)) (ram ?M) (ram M1)" by blast
  then show ?thesis
    by (auto simp: deliver_def stack_room_def fun_upd_apply)
qed

lemma iretq_effect:
  assumes "words_at (ram M) (regs M RSP) (ip # cs # fl # sp # ss # ws)"
  shows "iretq M = Some (set_reg RIP ip (set_reg CS cs (set_reg RFLAGS fl (set_reg RSP sp (set_reg SS ss M)))))"
proof -
  note nth = words_at_nth [OF assms]
  show ?thesis
    using nth [of 0] nth [of 1] nth [of 2] nth [of 3] nth [of 4] by (simp add: iretq_def eval_nat_numeral)
qed

text \<open>What \<^verbatim>\<open>iretq\<close> finds: the words above the two the stub accounts for.\<close>

definition return_words :: "nat \<Rightarrow> u64 \<Rightarrow> machine \<Rightarrow> u64 list" where
  "return_words n err M = (if n \<in> {21, 29, 30} then [err] else [])
     @ [regs M RIP, regs M CS, regs M RFLAGS, regs M RSP, regs M SS]"

lemma frame_parts:
  "\<exists>v e. frame (cpu_of C) n (rev (hw_pushes n err M))
     = rev (map (regs C) control) @ rev (map (regs C) general) @ [v, e] @ return_words n err M"
proof -
  have "\<exists>v e. rev (stub_words n) @ rev (hw_pushes n err M) = [v, e] @ return_words n err M"
    by (auto simp: stub_words_def hw_pushes_def return_words_def err_vectors_def cpu_pushes_error_def)
  then show ?thesis unfolding frame_split by auto
qed

lemma unat_down: "8 * d \<le> unat a \<Longrightarrow> unat (a - 8 * of_nat d) = unat (a :: u64) - 8 * d"
proof -
  assume le: "8 * d \<le> unat a"
  moreover have "unat (of_nat (8 * d) :: u64) = 8 * d"
    using le unat_less_size [of a] by (intro unat_of_nat_64) simp
  ultimately have "of_nat (8 * d) \<le> a" by (simp add: word_le_nat_alt)
  then have "unat (a - of_nat (8 * d)) = unat a - 8 * d"
    using \<open>unat (of_nat (8 * d) :: u64) = 8 * d\<close> by (simp add: unat_sub)
  then show ?thesis by simp
qed

lemma kept_above:
  assumes "kept p n m m'" and "8 * n \<le> unat p" and "unat p \<le> unat q"
  shows "m' q = m q"
proof -
  have "unat (p - 8 * of_nat n) + 8 * n = unat p" using assms(2) by (simp add: unat_down)
  then have "q \<notin> region (p - 8 * of_nat n) (8 * n)"
    using assms(3) unat_less_size [of p] by (subst in_region_iff) simp_all
  then show ?thesis using assms(1) by (simp add: kept_def)
qed

text \<open>
  A timer interrupt of code that runs at 0x4000 with 5 in \<^verbatim>\<open>r10\<close>; the handler there leaves 99 in
  every register.
\<close>

definition busy_machine :: machine where
  "busy_machine = \<lparr>regs = (\<lambda>r. 7)(RSP := 0x1000, R10 := 5, RIP := 0x4000), ram = (\<lambda>p. Some 0)\<rparr>"

definition spoiling_handler :: "machine \<Rightarrow> machine option" where
  "spoiling_handler M = Some (M\<lparr>regs := (\<lambda>r. if r = RSP then regs M RSP else 99)\<rparr>)"

lemma mapped_everywhere: "mapped (\<lambda>p. Some b) p n"
  by (induction n arbitrary: p) simp_all

text \<open>From the delivery to the call: \<open>d\<close> words are on the stack, the frame among them.\<close>

definition depth_of :: "nat \<Rightarrow> u64 \<Rightarrow> machine \<Rightarrow> nat" where
  "depth_of n err M = length (hw_pushes n err M) + stub_depth n"

lemma depth_of_eq: "depth_of n err M = (if n \<in> {21, 29, 30} then 29 else 28)"
  by (simp add: depth_of_def hw_pushes_def stub_depth_def stub_words_def err_vectors_def cpu_pushes_error_def)

lemma interrupt_entered:
  assumes "mapped (ram M) (aligned_sp M - 240) 240"
  shows "\<exists>M1 M2 k. deliver g n err M = Some M1 \<and> exec (stub_code n @ entry_code) M1 = Some M2
    \<and> stack_room (Suc k) M2 (frame (cpu_of M) n (rev (hw_pushes n err M)))
    \<and> regs M2 RAX = regs M R10 \<and> regs M2 RDI = regs M2 RSP
    \<and> regs M2 RSP = aligned_sp M - 8 * of_nat (depth_of n err M)
    \<and> kept (aligned_sp M) (depth_of n err M) (ram M) (ram M2)"
proof -
  define h d where "h = length (hw_pushes n err M)" and "d = stub_depth n"
  have hd: "h + d = depth_of n err M" by (simp add: h_def d_def depth_of_def)
  obtain k where k: "h + (d + Suc k) = 30"
    using depth_of_eq [of n err M] hd by (intro that [of "29 - (h + d)"]) (auto split: if_splits)
  have "mapped (ram M) (aligned_sp M - 8 * of_nat (h + (d + Suc k))) (8 * (h + (d + Suc k)))"
    using assms unfolding k by simp
  moreover have "8 * (h + (d + Suc k)) \<le> 2 ^ 64" unfolding k by simp
  ultimately obtain M1 where M1: "deliver g n err M = Some M1"
    "stack_room (d + Suc k) M1 (rev (hw_pushes n err M))" "regs M1 RSP = aligned_sp M - 8 * of_nat h"
    "\<forall>r. r \<notin> {RSP, RIP, CS, RFLAGS} \<longrightarrow> regs M1 r = regs M r" "kept (aligned_sp M) h (ram M) (ram M1)"
    using deliver_effect [of M n err "d + Suc k" g] unfolding h_def by blast
  have cpu: "cpu_of M1 = cpu_of M" using M1(4) by (simp add: cpu_of_def)
  obtain M2 where M2: "exec (stub_code n @ entry_code) M1 = Some M2"
    "stack_room (Suc k) M2 (frame (cpu_of M) n (rev (hw_pushes n err M)))"
    "regs M2 RAX = handler_index (frame (cpu_of M) n (rev (hw_pushes n err M)))"
    "regs M2 RDI = regs M2 RSP" "regs M2 RSP = regs M1 RSP - 8 * of_nat d"
    "kept (regs M1 RSP) d (ram M1) (ram M2)"
    using entry_builds_frame [OF M1(2) [unfolded d_def]] unfolding d_def cpu by blast
  have "kept (aligned_sp M) (h + d) (ram M) (ram M2)"
    using M2(6) M1(3) by (intro kept_trans [OF M1(5)]) simp
  moreover have "regs M2 RSP = aligned_sp M - 8 * of_nat (h + d)"
    using M2(5) M1(3) by (simp add: algebra_simps)
  moreover have "regs M2 RAX = regs M R10"
    using M2(3) by (simp add: handler_index_def frame_nth cpu_of_def)
  ultimately show ?thesis using M1(1) M2(1,2,4) unfolding hd by blast
qed

text \<open>
  C30: What a handler is called with: its argument points to the frame of registers, vector and
  interrupted state, the handler is the entry of the table at the interrupted code's \<^verbatim>\<open>r10\<close>, and
  the stack is aligned to 16 bytes, as compiled code expects, for every vector but 21, 29 and 30.
\<close>

theorem handler_called_with_frame:
  assumes "mapped (ram M) (aligned_sp M - 240) 240" and "240 \<le> unat (aligned_sp M)"
  shows "\<exists>M'. do { M \<leftarrow> deliver g n err M; exec (stub_code n @ entry_code) M } = Some M'
    \<and> words_at (ram M') (regs M' RDI) (frame (cpu_of M) n (rev (hw_pushes n err M)))
    \<and> regs M' RAX = regs M R10
    \<and> (regs M' RSP AND 15 = 0 \<longleftrightarrow> n \<notin> {21, 29, 30})"
proof -
  obtain M1 M2 k where M: "deliver g n err M = Some M1" "exec (stub_code n @ entry_code) M1 = Some M2"
    "stack_room (Suc k) M2 (frame (cpu_of M) n (rev (hw_pushes n err M)))"
    "regs M2 RAX = regs M R10" "regs M2 RDI = regs M2 RSP"
    "regs M2 RSP = aligned_sp M - 8 * of_nat (depth_of n err M)"
    using interrupt_entered [OF assms(1)] by blast
  have m: "(15 :: u64) = mask 4" by (simp add: mask_eq_exp_minus_1)
  have "take_bit 4 (aligned_sp M) = 0"
    by (rule bit_word_eqI) (auto simp: aligned_sp_def m bit_simps)
  then have al: "unat (aligned_sp M) mod 16 = 0"
    by (simp add: take_bit_eq_mod unat_mod flip: unat_eq_0)
  let ?d = "depth_of n err M"
  have "8 * ?d \<le> 240" by (simp add: depth_of_eq)
  from this assms(2) have le: "8 * ?d \<le> unat (aligned_sp M)" by (rule order_trans)
  obtain t where t: "unat (aligned_sp M) = 8 * ?d + t" using le by (auto dest: le_Suc_ex)
  have "regs M2 RSP AND 15 = 0 \<longleftrightarrow> unat (regs M2 RSP) mod 16 = 0"
    unfolding m take_bit_eq_mask [symmetric] by (simp add: take_bit_eq_mod unat_mod flip: unat_eq_0)
  also have "unat (regs M2 RSP) = t" unfolding M(6) using t by (simp add: unat_down [OF le])
  also have "t mod 16 = 0 \<longleftrightarrow> ?d mod 2 = 0" using al t by presburger
  also have "?d mod 2 = 0 \<longleftrightarrow> n \<notin> {21, 29, 30}" by (simp add: depth_of_eq)
  finally have "regs M2 RSP AND 15 = 0 \<longleftrightarrow> n \<notin> {21, 29, 30}" .
  with M show ?thesis by (simp add: stack_room_def)
qed

theorem handler_called_with_frame_witness:
  "\<exists>M'. do { M \<leftarrow> deliver (gate 0x3000 INTERRUPT_GATE) 14 6 busy_machine; exec (stub_code 14 @ entry_code) M }
      = Some M'
    \<and> words_at (ram M') (regs M' RDI) (frame (cpu_of busy_machine) 14 [6, 0x4000, 7, 7, 0x1000, 7])
    \<and> regs M' RAX = 5"
proof -
  have "mapped (ram busy_machine) (aligned_sp busy_machine - 240) 240"
    by (simp add: busy_machine_def mapped_everywhere)
  moreover have "240 \<le> unat (aligned_sp busy_machine)"
    by (simp add: busy_machine_def aligned_sp_def)
  ultimately show ?thesis using handler_called_with_frame [of busy_machine "gate 0x3000 INTERRUPT_GATE" 14 6]
    by (auto simp: busy_machine_def hw_pushes_def cpu_pushes_error_def)
qed

text \<open>
  With any handler that keeps the calling convention and 30 words of stack, the stub, the call
  and the way back leave every register but the segment and control registers as it was, and
  all memory from the aligned stack pointer up. For vectors 21, 29 and 30, whose error code the
  stub does not expect, \<^verbatim>\<open>iretq\<close> takes the error code for the address.
\<close>

lemma interrupt_transparent:
  assumes "tab (regs M R10) = Some f" and "keeps_stack f"
    and "mapped (ram M) (aligned_sp M - 240) 240" and "240 \<le> unat (aligned_sp M)"
  shows "\<exists>M'. interrupt tab ret g n err M = Some M'
    \<and> (if n \<in> {21, 29, 30} then regs M' RIP = err
       else \<forall>r. r \<notin> {DS, ES, CR0, CR2, CR3, CR4} \<longrightarrow> regs M' r = regs M r)
    \<and> (\<forall>q. unat (aligned_sp M) \<le> unat q \<longrightarrow> ram M' q = ram M q)"
proof -
  define d where "d = depth_of n err M"
  let ?fr = "frame (cpu_of M) n (rev (hw_pushes n err M))"
  obtain M1 M2 k where M2: "deliver g n err M = Some M1" "exec (stub_code n @ entry_code) M1 = Some M2"
    "stack_room (Suc k) M2 ?fr" "regs M2 RAX = regs M R10" "regs M2 RSP = aligned_sp M - 8 * of_nat d"
    "kept (aligned_sp M) d (ram M) (ram M2)"
    using interrupt_entered [OF assms(3)] unfolding d_def by blast
  have len: "length ?fr = d"
    by (simp add: frame_split d_def depth_of_def stub_depth_def)
  have "8 * d + 8 \<le> 240" by (simp add: d_def depth_of_eq)
  from this assms(4) have room: "8 * d + 8 \<le> unat (aligned_sp M)" by (rule order_trans)
  then have usp: "unat (regs M2 RSP) = unat (aligned_sp M) - 8 * d"
    unfolding M2(5) by (intro unat_down) simp
  with room have low: "8 \<le> unat (regs M2 RSP)" by simp
  have "unat (regs M2 RSP) + 8 * d = unat (aligned_sp M)" using usp room by simp
  then have "unat (regs M2 RSP) + 8 * length ?fr \<le> 2 ^ 64"
    using unat_less_size [of "aligned_sp M"] unfolding len by simp
  from call_keeps_frame [OF assms(2) M2(3) this low, of ret] obtain M3 where M3:
    "call_handler f ret M2 = Some M3" "regs M3 RSP = regs M2 RSP"
    "\<forall>q. unat (regs M2 RSP) \<le> unat q \<longrightarrow> ram M3 q = ram M2 q" "words_at (ram M3) (regs M3 RSP) ?fr"
    by blast
  obtain v e where fr: "?fr = rev (map (regs M) control) @ rev (map (regs M) general) @ [v, e]
      @ return_words n err M"
    using frame_parts by blast
  have "length (rev (map (regs M) control)) = 6" "length (rev (map (regs M) general)) = 15" by simp_all
  from exit_restores [OF M3(4) [unfolded fr] this] obtain M4 where M4: "exec exit_code M3 = Some M4"
    "ram M4 = ram M3" "words_at (ram M3) (regs M4 RSP) (return_words n err M)"
    "map (regs M4) popped = rev (map (regs M) general)" by blast
  have run: "interrupt tab ret g n err M = iretq M4"
    unfolding interrupt_def using M2(1,2,4) M3(1) M4(1) assms(1) by simp
  have mem: "ram M4 q = ram M q" if q: "unat (aligned_sp M) \<le> unat q" for q
  proof -
    from M2(6) add_leD1 [OF room] q have "ram M2 q = ram M q" by (rule kept_above)
    then show ?thesis using M3(3) M4(2) q usp by simp
  qed
  show ?thesis
  proof (cases "n \<in> {21, 29, 30}")
    case True
    with M4(2,3) have "words_at (ram M4) (regs M4 RSP)
        (err # regs M RIP # regs M CS # regs M RFLAGS # regs M RSP # [regs M SS])"
      by (simp add: return_words_def)
    from iretq_effect [OF this] run True mem show ?thesis by simp
  next
    case False
    with M4(2,3) have "words_at (ram M4) (regs M4 RSP)
        (regs M RIP # regs M CS # regs M RFLAGS # regs M RSP # regs M SS # [])"
      by (simp add: return_words_def)
    note ret = iretq_effect [OF this]
    have "regs M4 r = regs M r" if "r \<in> set popped" for r
      using M4(4) that by auto
    then have "regs (set_reg RIP (regs M RIP) (set_reg CS (regs M CS) (set_reg RFLAGS (regs M RFLAGS)
        (set_reg RSP (regs M RSP) (set_reg SS (regs M SS) M4))))) r = regs M r"
      if "r \<notin> {DS, ES, CR0, CR2, CR3, CR4}" for r
      using that by (cases r) (simp_all add: fun_upd_apply)
    with run ret False mem show ?thesis by simp
  qed
qed

subsection \<open>The handler table\<close>

text \<open>
  What the call does that reads entry \<open>i\<close>: a registered function is the parameter \<open>custom\<close> at
  its address, the handlers of the class do not return, and neither does a call of the null
  pointer or through memory behind the table.
\<close>

definition table_of ::
  "(u64 \<Rightarrow> machine \<Rightarrow> machine option) \<Rightarrow> idt \<Rightarrow> u64 \<Rightarrow> (machine \<Rightarrow> machine option) option"
where
  "table_of custom s i =
     (if unat i < length (real_handler_table s) then
        (case real_handler_table s ! unat i of
           Custom a \<Rightarrow> Some (custom a)
         | _ \<Rightarrow> Some (\<lambda>M. None))
      else None)"

lemma interrupt_no_return:
  assumes "mapped (ram M) (aligned_sp M - 240) 240" and "tab (regs M R10) = Some (\<lambda>M. None)"
  shows "interrupt tab ret g n err M = None"
proof -
  obtain M1 M2 where "deliver g n err M = Some M1" "exec (stub_code n @ entry_code) M1 = Some M2"
    "regs M2 RAX = regs M R10"
    using interrupt_entered [OF assms(1)] by blast
  then show ?thesis using assms(2) by (auto simp: interrupt_def call_handler_def split: bind_splits)
qed

end
