(* ===== verification/DebugLog.thy ===== *)
theory DebugLog
  imports Panic Gdt
begin

text \<open>
  The debug output of the descriptor tables (\<^verbatim>\<open>arch/idt.hh\<close>, \<^verbatim>\<open>arch/gdt.hh\<close>), which their theories
  keep as a list of messages, as it leaves the two serial ports: the calls of the formatter for
  each message, initialisation with these calls in their places, and the text that arrives.
  The initialisation with output refines the one with the list.
\<close>

subsection \<open>Lines with several holes\<close>

text \<open>Each hole after its label, and the end of the line.\<close>

fun fmt_pieces :: "(u8 list \<times> piece) list \<Rightarrow> u8 list \<Rightarrow> piece list" where
  "fmt_pieces [] end_text = map Plain end_text"
| "fmt_pieces ((l, p) # ls) end_text = map Plain l @ p # fmt_pieces ls end_text"

fun is_hole :: "piece \<Rightarrow> bool" where
  "is_hole (Hole colon fs) = True"
| "is_hole _ = False"

fun spec_of :: "piece \<Rightarrow> format_spec" where
  "spec_of (Hole colon fs) = fs"
| "spec_of _ = hex_spec 0"

fun fmt_text :: "(u8 list \<times> piece) list \<Rightarrow> u8 list \<Rightarrow> u64 list \<Rightarrow> u8 list" where
  "fmt_text ((l, p) # ls) end_text (v # vs) = crlf l @ int_text (spec_of p) v @ fmt_text ls end_text vs"
| "fmt_text _ end_text _ = crlf end_text"

lemma format_text_plains: "format_text (map Plain end_text) = end_text"
  by (induction end_text) simp_all

lemma fmt_printf:
  assumes "length ls = length vs" and "list_all (\<lambda>(l, p). is_hole p) ls"
  shows "printf_text m (fmt_pieces ls end_text) (map u64_arg vs) (fmt_text ls end_text vs)"
  using assms
proof (induction ls arbitrary: vs)
  case Nil
  then show ?case using printf_text.no_args [of m "map Plain end_text"] by (simp add: format_text_plains)
next
  case (Cons x ls)
  obtain l colon fs where x: "x = (l, Hole colon fs)"
    using Cons.prems(2) by (cases x; cases "snd x") auto
  from Cons.prems obtain v ws where vs: "vs = v # ws" "length ls = length ws" by (cases vs) auto
  have "hole_text m (u64_arg v) fs (int_text fs v)" by (simp add: u64_arg_def)
  from printf_text.hole [OF this Cons.IH [OF vs(2)]] Cons.prems(2)
  have "printf_text m (Hole colon fs # fmt_pieces ls end_text) (u64_arg v # map u64_arg ws)
      (int_text fs v @ fmt_text ls end_text ws)" by simp
  from printf_text_plains [OF this, of l] show ?case by (simp add: vs x)
qed

subsection \<open>The messages of the interrupt table\<close>

definition idt_loading :: "u8 list" where
  "idt_loading = bytes ''Loading IDT @ {:#016x}, limit={} bytes'' @ [10]"

definition idt_vector :: "u8 list" where
  "idt_vector = bytes ''IDT: vector ''"

definition idt_exception :: "u8 list" where
  "idt_exception = bytes ''{:#02x} -> default handler (exception)'' @ [10]"

definition idt_interrupt :: "u8 list" where
  "idt_interrupt = bytes ''{:#02x} -> default handler (interrupt)'' @ [10]"

definition idt_registered :: "u8 list" where
  "idt_registered = bytes ''IDT: custom handler registered for vector ''"

definition idt_number :: "u8 list" where
  "idt_number = bytes ''{:#02x}'' @ [10]"

text \<open>What the code calls for a message; the table goes to the first port, the rest to the second.\<close>

fun print_idt :: "device \<Rightarrow> mem \<Rightarrow> (u8 list \<Rightarrow> addr) \<Rightarrow> idt_message \<Rightarrow> trace \<Rightarrow> trace option" where
  "print_idt dev m lit (MLoading b l) h =
     printf (serial_put dev COM1) m (lit idt_loading) [AInt (uint b), AInt (uint l)] h"
| "print_idt dev m lit (MException v) h = do {
     h \<leftarrow> say_lit (serial_put dev COM2) m lit idt_vector h;
     printf (serial_put dev COM2) m (lit idt_exception) [AInt (uint v)] h
   }"
| "print_idt dev m lit (MInterrupt v) h = do {
     h \<leftarrow> say_lit (serial_put dev COM2) m lit idt_vector h;
     printf (serial_put dev COM2) m (lit idt_interrupt) [AInt (uint v)] h
   }"
| "print_idt dev m lit (MRegistered v) h = do {
     h \<leftarrow> say_lit (serial_put dev COM2) m lit idt_registered h;
     printf (serial_put dev COM2) m (lit idt_number) [AInt (uint v)] h
   }"

definition idt_say_io ::
  "device \<Rightarrow> mem \<Rightarrow> (u8 list \<Rightarrow> addr) \<Rightarrow> bool \<Rightarrow> idt_message \<Rightarrow> idt \<times> trace \<Rightarrow> (idt \<times> trace) option"
where
  "idt_say_io dev m lit debug msg = (\<lambda>(s, h).
     if debug then do { h \<leftarrow> print_idt dev m lit msg h; Some (idt_say True msg s, h) } else Some (s, h))"

text \<open>\<open>init\<close> with its output.\<close>

function init_gates_io ::
  "device \<Rightarrow> mem \<Rightarrow> (u8 list \<Rightarrow> addr) \<Rightarrow> bool \<Rightarrow> (u32 \<Rightarrow> idt_message) \<Rightarrow> (nat \<Rightarrow> u64) \<Rightarrow> u8 \<Rightarrow> handler
     \<Rightarrow> nat \<Rightarrow> nat \<Rightarrow> idt \<times> trace \<Rightarrow> (idt \<times> trace) option"
where
  "init_gates_io dev m lit debug msg stubs flags hdl stop vec (s, h) =
     (if vec < stop then do {
        s \<leftarrow> setGate vec (stubs vec) flags s;
        (s, h) \<leftarrow> idt_say_io dev m lit debug (msg (of_nat vec)) (s, h);
        s \<leftarrow> set_handler vec hdl s;
        init_gates_io dev m lit debug msg stubs flags hdl stop (vec + 1) (s, h)
      } else Some (s, h))"
  by pat_completeness auto
termination
  by (relation "measure (\<lambda>(dev, m, lit, debug, msg, stubs, flags, hdl, stop, vec, s). stop - vec)") auto

declare init_gates_io.simps [simp del]

definition idt_init_io ::
  "device \<Rightarrow> mem \<Rightarrow> (u8 list \<Rightarrow> addr) \<Rightarrow> bool \<Rightarrow> bool \<Rightarrow> bool \<Rightarrow> (nat \<Rightarrow> u64) \<Rightarrow> u64 \<Rightarrow> idt \<times> trace
     \<Rightarrow> (idt \<times> trace) option"
where
  "idt_init_io dev m lit debug useTrapGate panicOnException stubs table_addr = (\<lambda>(s, h). do {
     let s = s\<lparr>idt_limit := 16 * 256 - 1, idt_base := table_addr\<rparr>;
     (s, h) \<leftarrow> idt_say_io dev m lit debug (MLoading (idt_base s) (idt_limit s)) (s, h);
     (s, h) \<leftarrow> init_gates_io dev m lit debug MException stubs (if useTrapGate then TRAP_GATE else INTERRUPT_GATE)
            (if panicOnException then DefaultInterruptHandler else HaltCatchFire) 32 0 (s, h);
     (s, h) \<leftarrow> init_gates_io dev m lit debug MInterrupt stubs INTERRUPT_GATE DefaultInterruptHandler 256 32 (s, h);
     Some (idt_load s, h)
   })"

definition registerHandler_io ::
  "device \<Rightarrow> mem \<Rightarrow> (u8 list \<Rightarrow> addr) \<Rightarrow> bool \<Rightarrow> u16 \<Rightarrow> handler \<Rightarrow> idt \<times> trace \<Rightarrow> (bool \<times> idt \<times> trace) option"
where
  "registerHandler_io dev m lit debug vec hdl = (\<lambda>(s, h).
     if unat vec < length (real_handler_table s) then
       (let old = real_handler_table s ! unat vec
        in if old = DefaultInterruptHandler \<or> old = HaltCatchFire
           then do {
             (s, h) \<leftarrow> idt_say_io dev m lit debug (MRegistered vec)
               (s\<lparr>real_handler_table := (real_handler_table s)[unat vec := hdl]\<rparr>, h);
             Some (True, s, h)
           }
           else Some (False, s, h))
     else None)"

subsection \<open>The text of the messages\<close>

abbreviation short_hex :: piece where
  "short_hex \<equiv> Hole True (hex_spec 2)"

abbreviation long_hex :: piece where
  "long_hex \<equiv> Hole True (hex_spec 16)"

fun console_part :: "idt_message \<Rightarrow> u8 list" where
  "console_part (MLoading b l) =
     fmt_text [(bytes ''Loading IDT @ '', long_hex), (bytes '', limit='', plain_hole)]
       (bytes '' bytes'' @ [10]) [b, ucast l]"
| "console_part _ = []"

fun log_part :: "idt_message \<Rightarrow> u8 list" where
  "log_part (MLoading b l) = []"
| "log_part (MException v) =
     fmt_text [(bytes ''IDT: vector '', short_hex)] (bytes '' -> default handler (exception)'' @ [10]) [ucast v]"
| "log_part (MInterrupt v) =
     fmt_text [(bytes ''IDT: vector '', short_hex)] (bytes '' -> default handler (interrupt)'' @ [10]) [ucast v]"
| "log_part (MRegistered v) =
     fmt_text [(bytes ''IDT: custom handler registered for vector '', short_hex)] [10] [ucast v]"

definition idt_literals :: "u8 list list" where
  "idt_literals = [idt_loading, idt_vector, idt_exception, idt_interrupt, idt_registered, idt_number]"

text \<open>The literals of the code are the formats of the lines.\<close>

lemma idt_formats:
  "format_text (fmt_pieces [(bytes ''Loading IDT @ '', long_hex), (bytes '', limit='', plain_hole)]
     (bytes '' bytes'' @ [10])) = idt_loading"
  "format_text (fmt_pieces [([], short_hex)] (bytes '' -> default handler (exception)'' @ [10])) = idt_exception"
  "format_text (fmt_pieces [([], short_hex)] (bytes '' -> default handler (interrupt)'' @ [10])) = idt_interrupt"
  "format_text (fmt_pieces [([], short_hex)] [10]) = idt_number"
  by (simp_all add: idt_loading_def idt_exception_def idt_interrupt_def idt_number_def hex_spec_def
      plain_hole_def spec_text_def num_text_16 num_text_2 bytes_def)

lemma idt_pieces_ok:
  "list_all piece_ok (fmt_pieces [(bytes ''Loading IDT @ '', long_hex), (bytes '', limit='', plain_hole)]
     (bytes '' bytes'' @ [10]))"
  "list_all piece_ok (fmt_pieces [([], short_hex)] (bytes '' -> default handler (exception)'' @ [10]))"
  "list_all piece_ok (fmt_pieces [([], short_hex)] (bytes '' -> default handler (interrupt)'' @ [10]))"
  "list_all piece_ok (fmt_pieces [([], short_hex)] [10])"
  by (simp_all add: bytes_def hex_spec_def plain_hole_def letter_type_def isalpha_def)

subsection \<open>Two open ports\<close>

text \<open>Both transmitters can be written, and so much has been sent.\<close>

definition ports :: "uart \<Rightarrow> uart \<Rightarrow> trace \<Rightarrow> u8 list \<Rightarrow> u8 list \<Rightarrow> bool" where
  "ports u1 u2 h c l \<longleftrightarrow> \<not> dlab (uart_after COM1 u1 h) \<and> \<not> dlab (uart_after COM2 u2 h)
     \<and> sent (uart_after COM1 u1 h) = c \<and> sent (uart_after COM2 u2 h) = l"

definition both_ready :: "device \<Rightarrow> bool" where
  "both_ready dev \<longleftrightarrow> eventually_ready dev COM1 \<and> eventually_ready dev COM2"

text \<open>Arguments as the calls pass them.\<close>

lemma u64_args:
  fixes a :: u16 and b :: u32 and v :: u64
  shows "AInt (uint a) = u64_arg (ucast a)" and "AInt (uint b) = u64_arg (ucast b)"
    and "AInt (uint v) = u64_arg v"
  by (simp_all add: u64_arg_def unsigned_ucast_eq take_bit_int_eq_self order_less_le_trans [OF uint_lt2p])

lemma console_printf:
  assumes "length ls = length vs" and "list_all (\<lambda>(l, p). is_hole p) ls"
    and "list_all piece_ok (fmt_pieces ls e)" and "format_text (fmt_pieces ls e) = f"
    and "cstr_at m p f" and "both_ready dev" and "ports u1 u2 h c l"
  shows "\<exists>h'. printf (serial_put dev COM1) m p (map u64_arg vs) h = Some h'
    \<and> ports u1 u2 h' (c @ fmt_text ls e vs) l"
  using port.emitsD [OF port.emits_printf [OF fmt_printf [OF assms(1,2)] assms(3) assms(5) [folded assms(4)]],
      where dev = dev and base = COM1 and u = u1 and other = COM2 and v = u2] assms(6,7)
  by (fastforce simp: ports_def both_ready_def)

lemma log_printf:
  assumes "length ls = length vs" and "list_all (\<lambda>(l, p). is_hole p) ls"
    and "list_all piece_ok (fmt_pieces ls e)" and "format_text (fmt_pieces ls e) = f"
    and "cstr_at m p f" and "both_ready dev" and "ports u1 u2 h c l"
  shows "\<exists>h'. printf (serial_put dev COM2) m p (map u64_arg vs) h = Some h'
    \<and> ports u1 u2 h' c (l @ fmt_text ls e vs)"
  using port.emitsD [OF port.emits_printf [OF fmt_printf [OF assms(1,2)] assms(3) assms(5) [folded assms(4)]],
      where dev = dev and base = COM2 and u = u2 and other = COM1 and v = u1] assms(6,7)
  by (fastforce simp: ports_def both_ready_def)

lemma log_say:
  assumes "cstr_at m (lit t) t" and "both_ready dev" and "ports u1 u2 h c l"
  shows "\<exists>h'. say_lit (serial_put dev COM2) m lit t h = Some h' \<and> ports u1 u2 h' c (l @ crlf t)"
  using port.emitsD [OF port.emits_say_lit [where lit = lit, OF assms(1)],
      where dev = dev and base = COM2 and u = u2 and other = COM1 and v = u1] assms(2,3)
  by (fastforce simp: ports_def both_ready_def)

lemma log_line:
  assumes "cstr_at m (lit t) t" and "list_all piece_ok (fmt_pieces [([], short_hex)] e)"
    and "format_text (fmt_pieces [([], short_hex)] e) = f" and "cstr_at m p f"
    and "both_ready dev" and "ports u1 u2 h c l"
  shows "\<exists>h'. do {
      h \<leftarrow> say_lit (serial_put dev COM2) m lit t h;
      printf (serial_put dev COM2) m p [u64_arg v] h } = Some h'
    \<and> ports u1 u2 h' c (l @ crlf t @ fmt_text [([], short_hex)] e [v])"
proof -
  from log_say [where lit = lit, OF assms(1,5,6)] obtain h1 where h1:
    "say_lit (serial_put dev COM2) m lit t h = Some h1" "ports u1 u2 h1 c (l @ crlf t)" by blast
  from log_printf [OF _ _ assms(2-5) h1(2), of "[v]"] h1(1) show ?thesis by simp
qed

lemma print_idt_transmits:
  assumes "literals m lit idt_literals" and "both_ready dev" and "ports u1 u2 h c l"
  shows "\<exists>h'. print_idt dev m lit msg h = Some h'
    \<and> ports u1 u2 h' (c @ console_part msg) (l @ log_part msg)"
proof -
  have lits: "cstr_at m (lit t) t" if "t \<in> set idt_literals" for t
    using assms(1) that by (auto simp: literals_def list_all_iff)
  have at: "cstr_at m (lit idt_loading) idt_loading" "cstr_at m (lit idt_vector) idt_vector"
    "cstr_at m (lit idt_exception) idt_exception" "cstr_at m (lit idt_interrupt) idt_interrupt"
    "cstr_at m (lit idt_registered) idt_registered" "cstr_at m (lit idt_number) idt_number"
    by (rule lits, simp add: idt_literals_def)+
  note line = log_line [where lit = lit, OF _ _ _ _ assms(2,3)]
  show ?thesis
  proof (cases msg)
    case (MLoading b l)
    have "list_all (\<lambda>(l, p). is_hole p)
        [(bytes ''Loading IDT @ '', long_hex), (bytes '', limit='', plain_hole)]"
      by (simp add: plain_hole_def)
    from console_printf [OF _ this idt_pieces_ok(1) idt_formats(1) at(1) assms(2,3), of "[b, ucast l]"]
    show ?thesis using MLoading by (simp add: u64_args)
  next
    case (MException v)
    then show ?thesis using line [OF at(2) idt_pieces_ok(2) idt_formats(2) at(3), of "ucast v"]
      by (simp add: u64_args idt_vector_def)
  next
    case (MInterrupt v)
    then show ?thesis using line [OF at(2) idt_pieces_ok(3) idt_formats(3) at(4), of "ucast v"]
      by (simp add: u64_args idt_vector_def)
  next
    case (MRegistered v)
    then show ?thesis using line [OF at(5) idt_pieces_ok(4) idt_formats(4) at(6), of "ucast v"]
      by (simp add: u64_args idt_registered_def)
  qed
qed

subsection \<open>Initialisation with output refines initialisation\<close>

text \<open>The text of a log.\<close>

definition console_texts :: "idt_message list \<Rightarrow> u8 list" where
  "console_texts msgs = concat (map console_part msgs)"

definition log_texts :: "idt_message list \<Rightarrow> u8 list" where
  "log_texts msgs = concat (map log_part msgs)"

text \<open>The output so far is the text of the log so far, after what was sent before.\<close>

definition logged :: "uart \<Rightarrow> uart \<Rightarrow> u8 list \<Rightarrow> u8 list \<Rightarrow> idt \<Rightarrow> trace \<Rightarrow> bool" where
  "logged u1 u2 c l s h \<longleftrightarrow> ports u1 u2 h (c @ console_texts (idt_log s)) (l @ log_texts (idt_log s))"

lemma idt_say_io_logged:
  assumes "literals m lit idt_literals" and "both_ready dev" and "logged u1 u2 c l s h"
  shows "\<exists>h'. idt_say_io dev m lit d msg (s, h) = Some (idt_say d msg s, h')
    \<and> logged u1 u2 c l (idt_say d msg s) h'"
  using print_idt_transmits [OF assms(1,2) assms(3) [unfolded logged_def], of msg] assms(3)
  by (auto simp: idt_say_io_def logged_def idt_say_def console_texts_def log_texts_def)

lemma init_gates_io_logged:
  assumes "literals m lit idt_literals" and "both_ready dev" and "logged u1 u2 c l s h"
    and "init_gates d msg stubs flags hdl stop vec s = Some s'"
  shows "\<exists>h'. init_gates_io dev m lit d msg stubs flags hdl stop vec (s, h) = Some (s', h')
    \<and> logged u1 u2 c l s' h'"
  using assms(3,4)
proof (induction d msg stubs flags hdl stop vec s arbitrary: h rule: init_gates.induct)
  case (1 d msg stubs flags hdl stop vec s)
  show ?case
  proof (cases "vec < stop")
    case True
    then obtain s1 s3 where s1: "setGate vec (stubs vec) flags s = Some s1"
      and s3: "set_handler vec hdl (idt_say d (msg (of_nat vec)) s1) = Some s3"
      and rest: "init_gates d msg stubs flags hdl stop (vec + 1) s3 = Some s'"
      using "1.prems"(2) by (subst (asm) init_gates.simps) (auto split: bind_splits)
    have "logged u1 u2 c l s1 h"
      using "1.prems"(1) s1 by (auto simp: logged_def setGate_def split: if_splits)
    from idt_say_io_logged [OF assms(1,2) this] obtain h2 where h2:
      "idt_say_io dev m lit d (msg (of_nat vec)) (s1, h) = Some (idt_say d (msg (of_nat vec)) s1, h2)"
      "logged u1 u2 c l (idt_say d (msg (of_nat vec)) s1) h2" by blast
    have "logged u1 u2 c l s3 h2"
      using h2(2) s3 by (auto simp: logged_def set_handler_def split: if_splits)
    from "1.IH" [OF True s1 s3 this rest] h2(1) s1 s3 True show ?thesis
      by (subst init_gates_io.simps) simp
  next
    case False
    with "1.prems" show ?thesis
      by (subst init_gates_io.simps, subst (asm) init_gates.simps) simp
  qed
qed

lemma idt_init_io_logged:
  assumes "literals m lit idt_literals" and "both_ready dev" and "logged u1 u2 c l s h"
    and "idt_init d tr pa stubs a s = Some s'"
  shows "\<exists>h'. idt_init_io dev m lit d tr pa stubs a (s, h) = Some (s', h') \<and> logged u1 u2 c l s' h'"
proof -
  let ?s0 = "s\<lparr>idt_limit := 16 * 256 - 1, idt_base := a\<rparr>"
  let ?msg = "MLoading (idt_base ?s0) (idt_limit ?s0)"
  from assms(4) obtain s1 s2 where
    s1: "init_gates d MException stubs (if tr then TRAP_GATE else INTERRUPT_GATE)
      (if pa then DefaultInterruptHandler else HaltCatchFire) 32 0 (idt_say d ?msg ?s0) = Some s1" and
    s2: "init_gates d MInterrupt stubs INTERRUPT_GATE DefaultInterruptHandler 256 32 s1 = Some s2" and
    s': "s' = s2\<lparr>loaded := True\<rparr>"
    by (auto simp: idt_init_def Let_def split: bind_splits)
  have "logged u1 u2 c l ?s0 h" using assms(3) by (simp add: logged_def)
  from idt_say_io_logged [OF assms(1,2) this, of d ?msg] obtain h1 where h1:
    "idt_say_io dev m lit d ?msg (?s0, h) = Some (idt_say d ?msg ?s0, h1)"
    "logged u1 u2 c l (idt_say d ?msg ?s0) h1" by blast
  from init_gates_io_logged [OF assms(1,2) h1(2) s1] obtain h2 where h2:
    "init_gates_io dev m lit d MException stubs (if tr then TRAP_GATE else INTERRUPT_GATE)
      (if pa then DefaultInterruptHandler else HaltCatchFire) 32 0 (idt_say d ?msg ?s0, h1) = Some (s1, h2)"
    "logged u1 u2 c l s1 h2" by blast
  from init_gates_io_logged [OF assms(1,2) h2(2) s2] obtain h3 where h3:
    "init_gates_io dev m lit d MInterrupt stubs INTERRUPT_GATE DefaultInterruptHandler 256 32 (s1, h2) = Some (s2, h3)"
    "logged u1 u2 c l s2 h3" by blast
  show ?thesis
    using h1(1) h2(1) h3 s' by (simp add: idt_init_io_def Let_def logged_def)
qed

lemma registerHandler_io_logged:
  assumes "literals m lit idt_literals" and "both_ready dev" and "logged u1 u2 c l s h"
    and "registerHandler d v f s = Some (r, s')"
  shows "\<exists>h'. registerHandler_io dev m lit d v f (s, h) = Some (r, s', h') \<and> logged u1 u2 c l s' h'"
proof -
  let ?s = "s\<lparr>real_handler_table := (real_handler_table s)[unat v := f]\<rparr>"
  have "logged u1 u2 c l ?s h" using assms(3) by (simp add: logged_def)
  from idt_say_io_logged [OF assms(1,2) this, of d "MRegistered v"] assms(3,4) show ?thesis
    by (auto simp: registerHandler_io_def registerHandler_def Let_def split: if_splits)
qed

text \<open>
  C10: The initialisation of the interrupt table with its output refines the one that keeps a
  log: it leaves the same tables and log, and in the debug configuration the first port has
  sent the line about the table, the second one line for each of the 256 vectors, in order; in
  the other configuration nothing is sent. Registering a handler afterwards sends its line too.
\<close>

theorem idt_init_transmits_log:
  assumes "literals m lit idt_literals" and "both_ready dev" and "unat v < 256"
    and "\<not> dlab (uart_after COM1 u1 h)" and "\<not> dlab (uart_after COM2 u2 h)"
  shows "\<exists>s s' h1 h2. idt_init d useTrap panicOn stubs a idt_start = Some s
    \<and> registerHandler d v (Custom f) s = Some (True, s')
    \<and> idt_init_io dev m lit d useTrap panicOn stubs a (idt_start, h) = Some (s, h1)
    \<and> registerHandler_io dev m lit d v (Custom f) (s, h1) = Some (True, s', h2)
    \<and> sent (uart_after COM1 u1 h2) = sent (uart_after COM1 u1 h)
        @ (if d then console_part (MLoading a 4095) else [])
    \<and> sent (uart_after COM2 u2 h2) = sent (uart_after COM2 u2 h)
        @ (if d then concat (map (\<lambda>i. log_part (if i < 32 then MException (of_nat i) else MInterrupt (of_nat i)))
            [0..<256]) @ log_part (MRegistered v) else [])"
proof -
  obtain s where s: "idt_init d useTrap panicOn stubs a idt_start = Some s"
    "real_handler_table s = map (\<lambda>i. if \<not> panicOn \<and> i < 32 then HaltCatchFire else DefaultInterruptHandler) [0..<256]"
    "idt_log s = (if d then MLoading a 4095 # map (\<lambda>v. MException (of_nat v)) [0..<32]
      @ map (\<lambda>v. MInterrupt (of_nat v)) [32..<256] else [])"
    using idt_init_tables [of d useTrap panicOn stubs a] by blast
  let ?s' = "idt_say d (MRegistered v) (s\<lparr>real_handler_table := (real_handler_table s)[unat v := Custom f]\<rparr>)"
  have reg: "registerHandler d v (Custom f) s = Some (True, ?s')"
    using assms(3) by (simp add: registerHandler_def s(2) Let_def del: upt_rec_numeral)
  let ?c = "sent (uart_after COM1 u1 h)" and ?l = "sent (uart_after COM2 u2 h)"
  have "logged u1 u2 ?c ?l idt_start h"
    using assms(4,5) by (simp add: logged_def ports_def idt_start_def console_texts_def log_texts_def)
  from idt_init_io_logged [OF assms(1,2) this s(1)] obtain h1 where h1:
    "idt_init_io dev m lit d useTrap panicOn stubs a (idt_start, h) = Some (s, h1)"
    "logged u1 u2 ?c ?l s h1" by blast
  from registerHandler_io_logged [OF assms(1,2) h1(2) reg] obtain h2 where h2:
    "registerHandler_io dev m lit d v (Custom f) (s, h1) = Some (True, ?s', h2)"
    "logged u1 u2 ?c ?l ?s' h2" by blast
  have split: "[0..<256] = [0..<32] @ [32..<256]" using upt_add_eq_append [of 0 32 224] by simp
  have "map (\<lambda>i. log_part (if i < 32 then MException (of_nat i) else MInterrupt (of_nat i))) [0..<256]
      = map log_part (map (\<lambda>v. MException (of_nat v)) [0..<32] @ map (\<lambda>v. MInterrupt (of_nat v)) [32..<256])"
    unfolding split by (simp del: upt_rec_numeral)
  then have "log_texts (idt_log ?s') = (if d then concat (map (\<lambda>i. log_part (if i < 32 then MException (of_nat i)
      else MInterrupt (of_nat i))) [0..<256]) @ log_part (MRegistered v) else [])"
    by (simp add: log_texts_def s(3) del: upt_rec_numeral)
  moreover have "console_part (MException i) = []" "console_part (MInterrupt i) = []" for i by simp_all
  then have "console_texts (idt_log ?s') = (if d then console_part (MLoading a 4095) else [])"
    by (simp add: console_texts_def s(3) comp_def del: upt_rec_numeral)
  ultimately show ?thesis
    using s(1) reg h1(1) h2 by (auto simp: logged_def ports_def)
qed

lemma idt_literals_placed:
  "literals (put_bytes Map.empty 4096 (literal_block idt_literals)) (lit_at 4096 idt_literals) idt_literals"
proof (rule literals_block)
  show "length (literal_block idt_literals) \<le> 2 ^ 64" "list_all (\<lambda>t. 0 \<notin> set t) idt_literals"
    by (simp_all add: literal_block_def idt_literals_def idt_loading_def idt_vector_def idt_exception_def
        idt_interrupt_def idt_registered_def idt_number_def bytes_def)
qed

lemma always_ready: "both_ready (\<lambda>h p. 32)"
  by (simp add: both_ready_def eventually_ready_def status_def)

lemma closed_ports: "\<not> dlab (uart_after base closed_uart [])" "sent (uart_after base closed_uart []) = []"
  by (simp_all add: closed_uart_def uart_after_def dlab_def)

theorem idt_init_transmits_log_witness:
  "\<exists>s s' h1 h2. idt_init_io (\<lambda>h p. 32) (put_bytes Map.empty 4096 (literal_block idt_literals))
       (lit_at 4096 idt_literals) True True True (\<lambda>n. of_nat n * 16) 0x1000 (idt_start, []) = Some (s, h1)
    \<and> registerHandler_io (\<lambda>h p. 32) (put_bytes Map.empty 4096 (literal_block idt_literals))
       (lit_at 4096 idt_literals) True 33 (Custom 0x9000) (s, h1) = Some (True, s', h2)
    \<and> sent (uart_after COM1 closed_uart h2) = console_part (MLoading 0x1000 4095)"
  using idt_init_transmits_log [OF idt_literals_placed always_ready, of 33 closed_uart "[]" closed_uart
      True True True "\<lambda>n. of_nat n * 16" "0x1000" "0x9000"] closed_ports
  by auto

subsection \<open>The messages of the segment table\<close>

definition gdt_loading :: "u8 list" where
  "gdt_loading = bytes ''Loading GDT @ {:#016x}, size={} bytes'' @ [10]"

definition gdt_rsp0 :: "u8 list" where
  "gdt_rsp0 = bytes ''GDT: setting TSS.rsp0 = {:#016x}'' @ [10]"

definition gdt_ists :: "u8 list" where
  "gdt_ists = bytes ''GDT: setting TSS.ists = {''"

definition gdt_word :: "u8 list" where
  "gdt_word = bytes ''{:#016x}''"

definition gdt_comma :: "u8 list" where
  "gdt_comma = bytes '', ''"

definition gdt_close :: "u8 list" where
  "gdt_close = bytes ''}'' @ [10]"

text \<open>The loop over the seven words, with a comma after all but the last.\<close>

fun print_words :: "device \<Rightarrow> mem \<Rightarrow> (u8 list \<Rightarrow> addr) \<Rightarrow> u64 list \<Rightarrow> trace \<Rightarrow> trace option" where
  "print_words dev m lit [] h = Some h"
| "print_words dev m lit (v # vs) h = do {
     h \<leftarrow> printf (serial_put dev COM2) m (lit gdt_word) [u64_arg v] h;
     h \<leftarrow> (if vs \<noteq> [] then say_lit (serial_put dev COM2) m lit gdt_comma h else Some h);
     print_words dev m lit vs h
   }"

fun print_gdt :: "device \<Rightarrow> mem \<Rightarrow> (u8 list \<Rightarrow> addr) \<Rightarrow> gdt_message \<Rightarrow> trace \<Rightarrow> trace option" where
  "print_gdt dev m lit (GLoading b l) h =
     printf (serial_put dev COM1) m (lit gdt_loading) [AInt (uint b), AInt (uint l)] h"
| "print_gdt dev m lit (GRsp0 v) h = printf (serial_put dev COM2) m (lit gdt_rsp0) [AInt (uint v)] h"
| "print_gdt dev m lit (GIsts vs) h = do {
     h \<leftarrow> say_lit (serial_put dev COM2) m lit gdt_ists h;
     h \<leftarrow> print_words dev m lit vs h;
     say_lit (serial_put dev COM2) m lit gdt_close h
   }"

definition gdt_say_io ::
  "device \<Rightarrow> mem \<Rightarrow> (u8 list \<Rightarrow> addr) \<Rightarrow> bool \<Rightarrow> gdt_message \<Rightarrow> trace \<Rightarrow> trace option"
where
  "gdt_say_io dev m lit debug msg h = (if debug then print_gdt dev m lit msg h else Some h)"

definition set_rsp0_io ::
  "device \<Rightarrow> mem \<Rightarrow> (u8 list \<Rightarrow> addr) \<Rightarrow> bool \<Rightarrow> u64 \<Rightarrow> gdt \<times> trace \<Rightarrow> (gdt \<times> trace) option"
where
  "set_rsp0_io dev m lit debug v = (\<lambda>(g, h). do {
     h \<leftarrow> gdt_say_io dev m lit debug (GRsp0 v) h;
     Some (set_rsp0 debug v g, h)
   })"

definition set_ists_io ::
  "device \<Rightarrow> mem \<Rightarrow> (u8 list \<Rightarrow> addr) \<Rightarrow> bool \<Rightarrow> u64 list \<Rightarrow> gdt \<times> trace \<Rightarrow> (gdt \<times> trace) option"
where
  "set_ists_io dev m lit debug v = (\<lambda>(g, h). do {
     h \<leftarrow> gdt_say_io dev m lit debug (GIsts (take 7 v)) h;
     g \<leftarrow> set_ists debug v g;
     Some (g, h)
   })"

definition gdt_load_io ::
  "device \<Rightarrow> mem \<Rightarrow> (u8 list \<Rightarrow> addr) \<Rightarrow> bool \<Rightarrow> segments \<Rightarrow> gdt \<times> trace \<Rightarrow> (segments \<times> gdt \<times> trace) option"
where
  "gdt_load_io dev m lit debug r = (\<lambda>(g, h). do {
     h \<leftarrow> gdt_say_io dev m lit debug (GLoading (gdt_ptr_base g) (ucast (gdt_ptr_size g))) h;
     (r, g) \<leftarrow> gdt_load debug g r;
     Some (r, g, h)
   })"

fun words_text :: "u64 list \<Rightarrow> u8 list" where
  "words_text [] = []"
| "words_text [v] = int_text (hex_spec 16) v"
| "words_text (v # vs) = int_text (hex_spec 16) v @ [44, 32] @ words_text vs"

fun gdt_console :: "gdt_message \<Rightarrow> u8 list" where
  "gdt_console (GLoading b l) =
     fmt_text [(bytes ''Loading GDT @ '', long_hex), (bytes '', size='', plain_hole)]
       (bytes '' bytes'' @ [10]) [b, ucast l]"
| "gdt_console _ = []"

fun gdt_logtext :: "gdt_message \<Rightarrow> u8 list" where
  "gdt_logtext (GLoading b l) = []"
| "gdt_logtext (GRsp0 v) = fmt_text [(bytes ''GDT: setting TSS.rsp0 = '', long_hex)] [10] [v]"
| "gdt_logtext (GIsts vs) = bytes ''GDT: setting TSS.ists = {'' @ words_text vs @ bytes ''}'' @ [13, 10]"

definition gdt_literals :: "u8 list list" where
  "gdt_literals = [gdt_loading, gdt_rsp0, gdt_ists, gdt_word, gdt_comma, gdt_close]"

lemma gdt_formats:
  "format_text (fmt_pieces [(bytes ''Loading GDT @ '', long_hex), (bytes '', size='', plain_hole)]
     (bytes '' bytes'' @ [10])) = gdt_loading"
  "format_text (fmt_pieces [(bytes ''GDT: setting TSS.rsp0 = '', long_hex)] [10]) = gdt_rsp0"
  "format_text (fmt_pieces [([], long_hex)] []) = gdt_word"
  by (simp_all add: gdt_loading_def gdt_rsp0_def gdt_word_def hex_spec_def
      plain_hole_def spec_text_def num_text_16 bytes_def)

lemma gdt_pieces_ok:
  "list_all piece_ok (fmt_pieces [(bytes ''Loading GDT @ '', long_hex), (bytes '', size='', plain_hole)]
     (bytes '' bytes'' @ [10]))"
  "list_all piece_ok (fmt_pieces [(bytes ''GDT: setting TSS.rsp0 = '', long_hex)] [10])"
  "list_all piece_ok (fmt_pieces [([], long_hex)] [])"
  by (simp_all add: bytes_def hex_spec_def plain_hole_def letter_type_def isalpha_def)

lemma print_words_transmits:
  assumes "cstr_at m (lit gdt_word) gdt_word" and "cstr_at m (lit gdt_comma) gdt_comma"
    and "both_ready dev" and "ports u1 u2 h c l"
  shows "\<exists>h'. print_words dev m lit vs h = Some h' \<and> ports u1 u2 h' c (l @ words_text vs)"
  using assms(4)
proof (induction vs arbitrary: h l rule: words_text.induct)
  case 1
  then show ?case by simp
next
  case (2 v)
  from log_printf [OF _ _ gdt_pieces_ok(3) gdt_formats(3) assms(1,3) 2, of "[v]"] show ?case
    by (simp add: crlf_def)
next
  case (3 v w vs)
  from log_printf [OF _ _ gdt_pieces_ok(3) gdt_formats(3) assms(1,3) "3.prems", of "[v]"]
  obtain h1 where h1: "printf (serial_put dev COM2) m (lit gdt_word) [u64_arg v] h = Some h1"
    "ports u1 u2 h1 c (l @ int_text (hex_spec 16) v)" by (auto simp: crlf_def)
  from log_say [where lit = lit, OF assms(2,3) h1(2)] obtain h2 where h2:
    "say_lit (serial_put dev COM2) m lit gdt_comma h1 = Some h2"
    "ports u1 u2 h2 c (l @ int_text (hex_spec 16) v @ [44, 32])"
    by (auto simp: gdt_comma_def bytes_def crlf_def)
  from "3.IH" [OF h2(2)] h1(1) h2(1) show ?case by simp
qed

lemma print_gdt_transmits:
  assumes "literals m lit gdt_literals" and "both_ready dev" and "ports u1 u2 h c l"
  shows "\<exists>h'. print_gdt dev m lit msg h = Some h'
    \<and> ports u1 u2 h' (c @ gdt_console msg) (l @ gdt_logtext msg)"
proof -
  have lits: "cstr_at m (lit t) t" if "t \<in> set gdt_literals" for t
    using assms(1) that by (auto simp: literals_def list_all_iff)
  have at: "cstr_at m (lit gdt_loading) gdt_loading" "cstr_at m (lit gdt_rsp0) gdt_rsp0"
    "cstr_at m (lit gdt_ists) gdt_ists" "cstr_at m (lit gdt_word) gdt_word"
    "cstr_at m (lit gdt_comma) gdt_comma" "cstr_at m (lit gdt_close) gdt_close"
    by (rule lits, simp add: gdt_literals_def)+
  show ?thesis
  proof (cases msg)
    case (GLoading b l)
    have "list_all (\<lambda>(l, p). is_hole p)
        [(bytes ''Loading GDT @ '', long_hex), (bytes '', size='', plain_hole)]"
      by (simp add: plain_hole_def)
    from console_printf [OF _ this gdt_pieces_ok(1) gdt_formats(1) at(1) assms(2,3), of "[b, ucast l]"]
    show ?thesis using GLoading by (simp add: u64_args)
  next
    case (GRsp0 v)
    from log_printf [OF _ _ gdt_pieces_ok(2) gdt_formats(2) at(2) assms(2,3), of "[v]"] GRsp0
    show ?thesis by (simp add: u64_args)
  next
    case (GIsts vs)
    have "crlf gdt_ists = gdt_ists" by (intro no_newline) (simp add: gdt_ists_def bytes_def)
    with log_say [where lit = lit, OF at(3) assms(2,3)] obtain h1 where h1:
      "say_lit (serial_put dev COM2) m lit gdt_ists h = Some h1" "ports u1 u2 h1 c (l @ gdt_ists)" by auto
    from print_words_transmits [where lit = lit, OF at(4,5) assms(2) h1(2)] obtain h2 where h2:
      "print_words dev m lit vs h1 = Some h2" "ports u1 u2 h2 c ((l @ gdt_ists) @ words_text vs)" by blast
    from log_say [where lit = lit, OF at(6) assms(2) h2(2)] h1(1) h2(1) GIsts show ?thesis
      by (simp add: gdt_ists_def gdt_close_def bytes_def)
  qed
qed

text \<open>
  C33: Loading the segment table and setting the stacks of the task state segment, with their
  output. Of the registers, the table register gets the table and its limit 63, the code segment
  register 8, the four data segment registers 16 and the task register 40, and no other changes.
  In memory the descriptor of the task state segment is marked busy, and the segment gets the
  stack pointer and the seven words; nothing else changes. In the debug configuration the first
  port sends the line about the table, the second the stack pointer and the seven words in
  hexadecimal.
\<close>

theorem gdt_operations_transmit:
  assumes "literals m lit gdt_literals" and "both_ready dev" and "length ws = 7"
    and "\<not> dlab (uart_after COM1 u1 h)" and "\<not> dlab (uart_after COM2 u2 h)"
  shows "\<exists>r' g1 h1 g2 h2 g3 h3. gdt_load_io dev m lit d r (gdt_start t a, h) = Some (r', g1, h1)
    \<and> set_rsp0_io dev m lit d v (g1, h1) = Some (g2, h2) \<and> set_ists_io dev m lit d ws (g2, h2) = Some (g3, h3)
    \<and> r' = r\<lparr>gdtr_limit := 63, gdtr_base := t, sel_cs := 8, sel_ds := 16, sel_es := 16, sel_fs := 16,
        sel_gs := 16, task_register := 40\<rparr>
    \<and> g3 = (gdt_start t a)\<lparr>gdt_log := (if d then [GLoading t 63, GRsp0 v, GIsts ws] else []),
        tss_entry := (tss_descriptor a)\<lparr>low_part := (low_part (tss_descriptor a))\<lparr>access := 0x8B\<rparr>\<rparr>,
        tss_instance := tss_start\<lparr>rsp0 := v, ists := ws\<rparr>\<rparr>
    \<and> sent (uart_after COM1 u1 h3) = sent (uart_after COM1 u1 h) @ (if d then gdt_console (GLoading t 63) else [])
    \<and> sent (uart_after COM2 u2 h3) = sent (uart_after COM2 u2 h)
        @ (if d then gdt_logtext (GRsp0 v) @ gdt_logtext (GIsts ws) else [])"
proof -
  let ?g = "gdt_start t a" and ?c = "sent (uart_after COM1 u1 h)" and ?l = "sent (uart_after COM2 u2 h)"
  have say: "\<exists>h'. gdt_say_io dev m lit d msg h = Some h'
      \<and> ports u1 u2 h' (c @ (if d then gdt_console msg else [])) (l @ (if d then gdt_logtext msg else []))"
    if "ports u1 u2 h c l" for msg h c l
    using print_gdt_transmits [OF assms(1,2) that] that by (simp add: gdt_say_io_def)
  have "ports u1 u2 h ?c ?l" using assms(4,5) by (simp add: ports_def)
  from say [OF this, of "GLoading (gdt_ptr_base ?g) (ucast (gdt_ptr_size ?g))"] obtain h1 where h1:
    "gdt_say_io dev m lit d (GLoading (gdt_ptr_base ?g) (ucast (gdt_ptr_size ?g))) h = Some h1"
    "ports u1 u2 h1 (?c @ (if d then gdt_console (GLoading t 63) else [])) ?l"
    by (cases d) (auto simp: gdt_start_def sizeof_gdt_table_def)
  obtain r' g1 where load: "gdt_load d ?g r = Some (r', g1)"
    "r' = r\<lparr>gdtr_limit := 63, gdtr_base := t, sel_cs := 8, sel_ds := 16, sel_es := 16, sel_fs := 16,
        sel_gs := 16, task_register := 40\<rparr>"
    "g1 = ?g\<lparr>gdt_log := (if d then [GLoading t 63] else []),
       tss_entry := (tss_descriptor a)\<lparr>low_part := (low_part (tss_descriptor a))\<lparr>access := 0x8B\<rparr>\<rparr>\<rparr>"
    using gdt_load_start by blast
  from say [OF h1(2), of "GRsp0 v"] obtain h2 where h2: "gdt_say_io dev m lit d (GRsp0 v) h1 = Some h2"
    "ports u1 u2 h2 (?c @ (if d then gdt_console (GLoading t 63) else []))
      (?l @ (if d then gdt_logtext (GRsp0 v) else []))" by (cases d) auto
  from say [OF h2(2), of "GIsts ws"] obtain h3 where h3: "gdt_say_io dev m lit d (GIsts ws) h2 = Some h3"
    "ports u1 u2 h3 (?c @ (if d then gdt_console (GLoading t 63) else []))
      (?l @ (if d then gdt_logtext (GRsp0 v) @ gdt_logtext (GIsts ws) else []))" by (cases d) auto
  let ?g3 = "?g\<lparr>gdt_log := (if d then [GLoading t 63, GRsp0 v, GIsts ws] else []),
        tss_entry := (tss_descriptor a)\<lparr>low_part := (low_part (tss_descriptor a))\<lparr>access := 0x8B\<rparr>\<rparr>,
        tss_instance := tss_start\<lparr>rsp0 := v, ists := ws\<rparr>\<rparr>"
  have "set_ists d ws (set_rsp0 d v g1) = Some ?g3"
    by (cases d) (simp_all add: load(3) set_ists_def set_rsp0_def gdt_say_def assms(3) gdt_start_def)
  then show ?thesis
    using h1(1) h2(1) h3 load(1,2) assms(3)
    by (intro exI [of _ r'] exI [of _ g1] exI [of _ h1] exI [of _ "set_rsp0 d v g1"] exI [of _ h2]
        exI [of _ ?g3] exI [of _ h3]) (simp add: gdt_load_io_def set_rsp0_io_def set_ists_io_def ports_def)
qed

lemma gdt_literals_placed:
  "literals (put_bytes Map.empty 4096 (literal_block gdt_literals)) (lit_at 4096 gdt_literals) gdt_literals"
proof (rule literals_block)
  show "length (literal_block gdt_literals) \<le> 2 ^ 64" "list_all (\<lambda>t. 0 \<notin> set t) gdt_literals"
    by (simp_all add: literal_block_def gdt_literals_def gdt_loading_def gdt_rsp0_def gdt_ists_def
        gdt_word_def gdt_comma_def gdt_close_def bytes_def)
qed

definition loader_segments :: segments where
  "loader_segments = \<lparr>gdtr_limit = 0x37, gdtr_base = 0x9000, sel_cs = 0x28, sel_ds = 0x30, sel_es = 0x30,
     sel_fs = 0x30, sel_gs = 0x30, sel_ss = 0x30, task_register = 0\<rparr>"

theorem gdt_operations_transmit_witness:
  "\<exists>r' g1 h1 g2 h2 g3 h3. gdt_load_io (\<lambda>h p. 32) (put_bytes Map.empty 4096 (literal_block gdt_literals))
        (lit_at 4096 gdt_literals) True loader_segments (gdt_start 0x5000 0x6000, []) = Some (r', g1, h1)
    \<and> set_rsp0_io (\<lambda>h p. 32) (put_bytes Map.empty 4096 (literal_block gdt_literals))
        (lit_at 4096 gdt_literals) True 0x8000 (g1, h1) = Some (g2, h2)
    \<and> set_ists_io (\<lambda>h p. 32) (put_bytes Map.empty 4096 (literal_block gdt_literals))
        (lit_at 4096 gdt_literals) True [1, 2, 3, 4, 5, 6, 7] (g2, h2) = Some (g3, h3)
    \<and> sel_cs r' = 8 \<and> gdtr_limit r' = 63 \<and> ists (tss_instance g3) = [1, 2, 3, 4, 5, 6, 7]"
  using gdt_operations_transmit [OF gdt_literals_placed always_ready, of "[1, 2, 3, 4, 5, 6, 7]" closed_uart "[]"
      closed_uart True loader_segments "0x5000" "0x6000" "0x8000"] closed_ports
  by auto

end
