(* ===== verification/PmmLog.thy ===== *)
theory PmmLog
  imports PmmProps DebugLog
begin

text \<open>
  What the physical memory manager (\<^verbatim>\<open>core/pmm.hh\<close>) says: the formatter's call for each message
  its theory keeps in a list, the text that arrives at the first port, and \<open>allocate\<close> and
  \<open>free\<close> with their warnings and with the panics that end them.
\<close>

subsection \<open>The messages\<close>

text \<open>The format each message is printed with, and its arguments.\<close>

fun pmm_literal :: "message \<Rightarrow> u8 list" where
  "pmm_literal MStart = bytes ''PMM debug: Starting initialization'' @ [10]"
| "pmm_literal (MCount c) = bytes ''PMM debug: Memory map contains {} entries'' @ [10]"
| "pmm_literal (MEntry i b l t) = bytes ''PMM debug: Entry {}: base={:#x} length={:#x} type={}'' @ [10]"
| "pmm_literal (MSkip a b) =
     bytes ''PMM debug: Skipping region [{:#x}-{:#x}) entirely below kMinPhysical ({:#x})'' @ [10]"
| "pmm_literal (MAdjust a) =
     bytes ''PMM debug: Adjusting region start from {:#x} to kMinPhysical ({:#x})'' @ [10]"
| "pmm_literal (MAdd a b n) = bytes ''PMM debug: Adding region [{:#x}-{:#x}) (size {:#x})'' @ [10]"
| "pmm_literal (MUnusable i t) = bytes ''PMM debug: Entry {} is not usable (type={}), skipping'' @ [10]"
| "pmm_literal (MDone t f) =
     bytes ''PMM debug: Initialization complete. Total pages: {}, Free pages: {}'' @ [10]"
| "pmm_literal (WNotAligned p) = bytes ''PMM warning: attempted to free non-aligned address {:#x}'' @ [10]"
| "pmm_literal (WDoubleFree p) = bytes ''PMM warning: double-free detected at {:#x}'' @ [10]"

fun pmm_args :: "message \<Rightarrow> u64 list" where
  "pmm_args MStart = []"
| "pmm_args (MCount c) = [c]"
| "pmm_args (MEntry i b l t) = [i, b, l, t]"
| "pmm_args (MSkip a b) = [a, b, kMinPhysical]"
| "pmm_args (MAdjust a) = [a, kMinPhysical]"
| "pmm_args (MAdd a b n) = [a, b, n]"
| "pmm_args (MUnusable i t) = [i, t]"
| "pmm_args (MDone t f) = [t, f]"
| "pmm_args (WNotAligned p) = [p]"
| "pmm_args (WDoubleFree p) = [p]"

definition print_pmm :: "device \<Rightarrow> mem \<Rightarrow> (u8 list \<Rightarrow> addr) \<Rightarrow> message \<Rightarrow> trace \<Rightarrow> trace option" where
  "print_pmm dev m lit msg h =
     printf (serial_put dev COM1) m (lit (pmm_literal msg)) (map u64_arg (pmm_args msg)) h"

subsection \<open>Their text\<close>

abbreviation hexa :: piece where
  "hexa \<equiv> Hole True \<lparr>alternate = True, zero_pad = False, width = 0, ftype = 120\<rparr>"

abbreviation deci :: piece where
  "deci \<equiv> Hole False \<lparr>alternate = False, zero_pad = False, width = 0, ftype = 0\<rparr>"

fun pmm_labels :: "message \<Rightarrow> (u8 list \<times> piece) list" where
  "pmm_labels MStart = []"
| "pmm_labels (MCount c) = [(bytes ''PMM debug: Memory map contains '', deci)]"
| "pmm_labels (MEntry i b l t) = [(bytes ''PMM debug: Entry '', deci), (bytes '': base='', hexa),
     (bytes '' length='', hexa), (bytes '' type='', deci)]"
| "pmm_labels (MSkip a b) = [(bytes ''PMM debug: Skipping region ['', hexa), (bytes ''-'', hexa),
     (bytes '') entirely below kMinPhysical ('', hexa)]"
| "pmm_labels (MAdjust a) = [(bytes ''PMM debug: Adjusting region start from '', hexa),
     (bytes '' to kMinPhysical ('', hexa)]"
| "pmm_labels (MAdd a b n) = [(bytes ''PMM debug: Adding region ['', hexa), (bytes ''-'', hexa),
     (bytes '') (size '', hexa)]"
| "pmm_labels (MUnusable i t) = [(bytes ''PMM debug: Entry '', deci), (bytes '' is not usable (type='', deci)]"
| "pmm_labels (MDone t f) = [(bytes ''PMM debug: Initialization complete. Total pages: '', deci),
     (bytes '', Free pages: '', deci)]"
| "pmm_labels (WNotAligned p) = [(bytes ''PMM warning: attempted to free non-aligned address '', hexa)]"
| "pmm_labels (WDoubleFree p) = [(bytes ''PMM warning: double-free detected at '', hexa)]"

fun pmm_end :: "message \<Rightarrow> u8 list" where
  "pmm_end MStart = bytes ''PMM debug: Starting initialization'' @ [10]"
| "pmm_end (MCount c) = bytes '' entries'' @ [10]"
| "pmm_end (MSkip a b) = bytes '')'' @ [10]"
| "pmm_end (MAdjust a) = bytes '')'' @ [10]"
| "pmm_end (MAdd a b n) = bytes '')'' @ [10]"
| "pmm_end (MUnusable i t) = bytes ''), skipping'' @ [10]"
| "pmm_end _ = [10]"

definition pmm_text :: "message \<Rightarrow> u8 list" where
  "pmm_text msg = fmt_text (pmm_labels msg) (pmm_end msg) (pmm_args msg)"

lemma pmm_format: "format_text (fmt_pieces (pmm_labels msg) (pmm_end msg)) = pmm_literal msg"
  by (cases msg) (simp_all add: bytes_def spec_text_def)

lemma pmm_pieces_ok: "list_all piece_ok (fmt_pieces (pmm_labels msg) (pmm_end msg))"
  by (cases msg) (simp_all add: bytes_def letter_type_def isalpha_def)

lemma pmm_labels_args: "length (pmm_labels msg) = length (pmm_args msg)"
  "list_all (\<lambda>(l, p). is_hole p) (pmm_labels msg)"
  by (cases msg; simp)+

text \<open>One message of each kind; the literals do not depend on the arguments.\<close>

definition pmm_literals :: "u8 list list" where
  "pmm_literals = map pmm_literal [MStart, MCount 0, MEntry 0 0 0 0, MSkip 0 0, MAdjust 0, MAdd 0 0 0,
     MUnusable 0 0, MDone 0 0, WNotAligned 0, WDoubleFree 0]"

lemma pmm_literal_in: "pmm_literal msg \<in> set pmm_literals"
  by (cases msg) (simp_all add: pmm_literals_def)

lemma print_pmm_transmits:
  assumes "literals m lit pmm_literals" and "both_ready dev" and "ports u1 u2 h c l"
  shows "\<exists>h'. print_pmm dev m lit msg h = Some h' \<and> ports u1 u2 h' (c @ pmm_text msg) l"
proof -
  have "cstr_at m (lit (pmm_literal msg)) (pmm_literal msg)"
    using assms(1) pmm_literal_in [of msg] by (auto simp: literals_def list_all_iff)
  from console_printf [OF pmm_labels_args pmm_pieces_ok pmm_format this assms(2,3)] show ?thesis
    by (simp add: print_pmm_def pmm_text_def)
qed

subsection \<open>Operations that report\<close>

text \<open>An operation returns, or panics and halts.\<close>

datatype 'a outcome = Returned 'a | Halted trace "cpu_event stream"

definition out_of_memory :: "u8 list" where
  "out_of_memory = bytes ''PhysicalMemoryManager: Out of physical memory''"

definition free_unaligned :: "u8 list" where
  "free_unaligned = bytes ''PhysicalMemoryManager::free: address {:#x} not 4 KiB-aligned''"

definition free_double :: "u8 list" where
  "free_double = bytes ''PhysicalMemoryManager::free: Double-free detected for page {:#x}''"

definition halted_on ::
  "device \<Rightarrow> mem \<Rightarrow> (u8 list \<Rightarrow> addr) \<Rightarrow> u8 list \<Rightarrow> u64 list \<Rightarrow> trace \<Rightarrow> 'a outcome option"
where
  "halted_on dev m lit fmt args h =
     map_option (\<lambda>(h, ev). Halted h ev) (kernel_panic dev m lit None (lit fmt) (map u64_arg args) h)"

definition allocate_io ::
  "device \<Rightarrow> mem \<Rightarrow> (u8 list \<Rightarrow> addr) \<Rightarrow> pmm_env \<Rightarrow> pmm \<times> trace \<Rightarrow> ((u64 \<times> addr) \<times> pmm \<times> trace) outcome option"
where
  "allocate_io dev m lit e = (\<lambda>(s, h).
     if freelist_head s = 0 then halted_on dev m lit out_of_memory [] h
     else do { (r, s) \<leftarrow> allocate e s; Some (Returned (r, s, h)) })"

definition free_io ::
  "device \<Rightarrow> mem \<Rightarrow> (u8 list \<Rightarrow> addr) \<Rightarrow> pmm_env \<Rightarrow> u64 \<Rightarrow> pmm \<times> trace \<Rightarrow> (pmm \<times> trace) outcome option"
where
  "free_io dev m lit e pa = (\<lambda>(s, h).
     if pa AND (PageSize - 1) \<noteq> 0 then
       (if kPanicOnError e then halted_on dev m lit free_unaligned [pa] h
        else do {
          h \<leftarrow> print_pmm dev m lit (WNotAligned pa) h;
          s \<leftarrow> free e pa s;
          Some (Returned (s, h))
        })
     else do {
       dup \<leftarrow> (if kDebugMode e \<or> kEnableDoubleFreeCheck
               then in_freelist e (freelist_head s) (pa + hhdm_offset e) s else Some False);
       if dup then
         (if kPanicOnError e then halted_on dev m lit free_double [pa] h
          else do {
            h \<leftarrow> print_pmm dev m lit (WDoubleFree pa) h;
            s \<leftarrow> free e pa s;
            Some (Returned (s, h))
          })
       else do { s \<leftarrow> free e pa s; Some (Returned (s, h)) }
     })"

definition pmm_panic_literals :: "u8 list list" where
  "pmm_panic_literals = panic_literals @ [out_of_memory, free_unaligned, free_double] @ pmm_literals"

lemma pmm_panic_literalsD:
  assumes "literals m lit pmm_panic_literals"
  shows "literals m lit panic_literals" and "literals m lit pmm_literals"
    and "cstr_at m (lit out_of_memory) out_of_memory" and "cstr_at m (lit free_unaligned) free_unaligned"
    and "cstr_at m (lit free_double) free_double"
  using assms by (simp_all add: literals_def pmm_panic_literals_def)

lemma halted_on_reports:
  assumes "literals m lit panic_literals" and "cstr_at m (lit f) f"
    and "format_text (fmt_pieces ls e) = f" and "list_all piece_ok (fmt_pieces ls e)"
    and "length ls = length vs" and "list_all (\<lambda>(l, p). is_hole p) ls"
    and "both_ready dev" and "ports u1 u2 h c l"
  shows "\<exists>h'. halted_on dev m lit f vs h = Some (Halted h' (Cli ## sconst Hlt))
    \<and> sent (uart_after COM1 u1 h') = c @ console_text (fmt_text ls e vs)
    \<and> sent (uart_after COM2 u2 h') = l @ log_text None (fmt_text ls e vs)"
  using kernel_panic_runs [OF assms(1) fmt_printf [OF assms(5,6)] assms(4), of "lit f" dev u1 h u2 None]
    assms(2,3,7,8)
  by (auto simp: halted_on_def ports_def both_ready_def halt_loop_sconst)

lemma panic_formats:
  "format_text (fmt_pieces [] out_of_memory) = out_of_memory"
  "format_text (fmt_pieces [(bytes ''PhysicalMemoryManager::free: address '', hexa)] (bytes '' not 4 KiB-aligned''))
     = free_unaligned"
  "format_text (fmt_pieces [(bytes ''PhysicalMemoryManager::free: Double-free detected for page '', hexa)] [])
     = free_double"
  by (simp_all add: out_of_memory_def free_unaligned_def free_double_def bytes_def spec_text_def)

lemma panic_pieces_ok:
  "list_all piece_ok (fmt_pieces [] out_of_memory)"
  "list_all piece_ok (fmt_pieces [(bytes ''PhysicalMemoryManager::free: address '', hexa)] (bytes '' not 4 KiB-aligned''))"
  "list_all piece_ok (fmt_pieces [(bytes ''PhysicalMemoryManager::free: Double-free detected for page '', hexa)] [])"
  by (simp_all add: out_of_memory_def bytes_def letter_type_def isalpha_def)

text \<open>The next page, where \<open>allocate\<close> returns one.\<close>

definition take_io ::
  "device \<Rightarrow> mem \<Rightarrow> (u8 list \<Rightarrow> addr) \<Rightarrow> pmm_env \<Rightarrow> pmm \<times> trace \<Rightarrow> (addr \<times> pmm \<times> trace) option"
where
  "take_io dev m lit e x = (case allocate_io dev m lit e x of
     Some (Returned ((p, v), s, h)) \<Rightarrow> Some (p, s, h) | _ \<Rightarrow> None)"

lemma take_io_pmm: "pmm_take e s = Some (p, s') \<Longrightarrow> take_io dev m lit e (s, h) = Some (p, s', h)"
proof -
  assume "pmm_take e s = Some (p, s')"
  then obtain v where v: "allocate e s = Some ((p, v), s')" by (auto simp: pmm_take_def)
  then have "freelist_head s \<noteq> 0" by (auto simp: allocate_def kpanic_def)
  with v show ?thesis by (simp add: take_io_def allocate_io_def)
qed

lemma take_io_pages:
  "take_pages (pmm_take e) n s = Some (qs, s')
    \<Longrightarrow> take_pages (take_io dev m lit e) n (s, h) = Some (qs, s', h)"
proof (induction n arbitrary: s qs)
  case (Suc n)
  then obtain p s1 ps where "pmm_take e s = Some (p, s1)" "take_pages (pmm_take e) n s1 = Some (ps, s')" "qs = p # ps"
    by (auto split: bind_splits)
  with Suc.IH show ?case by (simp add: take_io_pmm)
qed simp

text \<open>
  When memory runs out: from any pool exactly as many pages can be allocated as it holds, all
  different, and nothing is printed; the allocation after the last one does not return but
  reports on both ports that memory is out, without a register dump, and halts for ever with
  interrupts off.
\<close>

lemma pmm_exhaustion_reports:
  assumes "pool e s ps" and "literals m lit pmm_panic_literals" and "both_ready dev"
    and "\<not> dlab (uart_after COM1 u1 h)" and "\<not> dlab (uart_after COM2 u2 h)"
  shows "\<exists>qs s' h'. take_pages (take_io dev m lit e) (length ps) (s, h) = Some (qs, s', h) \<and> distinct qs \<and> set qs = set ps
    \<and> allocate_io dev m lit e (s', h) = Some (Halted h' (Cli ## sconst Hlt))
    \<and> sent (uart_after COM1 u1 h') = sent (uart_after COM1 u1 h) @ console_text (crlf out_of_memory)
    \<and> sent (uart_after COM2 u2 h') = sent (uart_after COM2 u2 h) @ log_text None (crlf out_of_memory)"
proof -
  from pmm_allocations_distinct [OF assms(1) order_refl]
  obtain qs s' xs where take: "take_pages (pmm_take e) (length ps) s = Some (qs, s')"
    "length qs = length ps" "distinct qs" "set qs \<subseteq> set ps" "pool e s' xs" "set xs = set ps - set qs"
    by blast
  have "set qs = set ps"
    using take(2-4) distinct_card [OF pool_distinct [OF assms(1)]]
    by (intro card_subset_eq) (simp_all add: distinct_card)
  with take(5,6) have "freelist_head s' = 0" by (simp add: pool_head)
  note lits = pmm_panic_literalsD [OF assms(2)]
  have "ports u1 u2 h (sent (uart_after COM1 u1 h)) (sent (uart_after COM2 u2 h))"
    using assms(4,5) by (simp add: ports_def)
  from halted_on_reports [OF lits(1,3) panic_formats(1) panic_pieces_ok(1) _ _ assms(3) this, of "[]"]
    \<open>freelist_head s' = 0\<close> take_io_pages [OF take(1)] take(3) \<open>set qs = set ps\<close> show ?thesis
    by (auto simp: allocate_io_def)
qed

text \<open>
  C8: What \<open>free\<close> refuses: an address that is not page aligned, and a page whose higher-half
  pointer is in the free list. Configured to panic, it reports the address and halts; otherwise
  the first port sends a warning with the address in hexadecimal, and the pool is as it was.
\<close>

theorem pmm_free_refused_reports:
  assumes "pool e s ps" and "\<not> aligned p \<or> p + hhdm_offset e \<in> set ps"
    and "literals m lit pmm_panic_literals" and "both_ready dev"
    and "\<not> dlab (uart_after COM1 u1 h)" and "\<not> dlab (uart_after COM2 u2 h)"
  shows "\<exists>h'. if kPanicOnError e then
      free_io dev m lit e p (s, h) = Some (Halted h' (Cli ## sconst Hlt))
      \<and> sent (uart_after COM1 u1 h') = sent (uart_after COM1 u1 h) @ console_text
          (if aligned p
           then fmt_text [(bytes ''PhysicalMemoryManager::free: Double-free detected for page '', hexa)] [] [p]
           else fmt_text [(bytes ''PhysicalMemoryManager::free: address '', hexa)] (bytes '' not 4 KiB-aligned'') [p])
    else \<exists>s'. free_io dev m lit e p (s, h) = Some (Returned (s', h')) \<and> pool e s' ps
      \<and> sent (uart_after COM1 u1 h') = sent (uart_after COM1 u1 h)
          @ pmm_text (if aligned p then WDoubleFree p else WNotAligned p)"
proof -
  note lits = pmm_panic_literalsD [OF assms(3)]
  have ports: "ports u1 u2 h (sent (uart_after COM1 u1 h)) (sent (uart_after COM2 u2 h))"
    using assms(5,6) by (simp add: ports_def)
  have run: "free_io dev m lit e p (s, h) =
      (if kPanicOnError e then halted_on dev m lit (if aligned p then free_double else free_unaligned) [p] h
       else do {
         h \<leftarrow> print_pmm dev m lit (if aligned p then WDoubleFree p else WNotAligned p) h;
         s \<leftarrow> free e p s;
         Some (Returned (s, h)) })"
  proof (cases "aligned p")
    case True
    with assms(2) have listed: "p + hhdm_offset e \<in> set ps" by simp
    from path_nonzero [OF pool_path [OF assms(1)] this] have "p + hhdm_offset e \<noteq> 0" by simp
    from in_freelist_path [OF pool_path [OF assms(1)] this] listed True show ?thesis
      by (simp add: free_io_def aligned_def kEnableDoubleFreeCheck_def)
  qed (simp add: free_io_def aligned_def)
  show ?thesis
  proof (cases "kPanicOnError e")
    case True
    then show ?thesis
      using run halted_on_reports [OF lits(1,5) panic_formats(3) panic_pieces_ok(3) _ _ assms(4) ports, of "[p]"]
        halted_on_reports [OF lits(1,4) panic_formats(2) panic_pieces_ok(2) _ _ assms(4) ports, of "[p]"]
      by auto
  next
    case False
    from print_pmm_transmits [OF lits(2) assms(4) ports] obtain h1 where
      "print_pmm dev m lit (if aligned p then WDoubleFree p else WNotAligned p) h = Some h1"
      "sent (uart_after COM1 u1 h1) = sent (uart_after COM1 u1 h)
         @ pmm_text (if aligned p then WDoubleFree p else WNotAligned p)"
      by (auto simp: ports_def)
    with run False pmm_free_refuses [OF assms(1) False assms(2)] show ?thesis by auto
  qed
qed

lemma pmm_literals_placed:
  "literals (put_bytes Map.empty 4096 (literal_block pmm_panic_literals)) (lit_at 4096 pmm_panic_literals)
     pmm_panic_literals"
proof (rule literals_block)
  show "length (literal_block pmm_panic_literals) \<le> 2 ^ 64" "list_all (\<lambda>t. 0 \<notin> set t) pmm_panic_literals"
    by (simp_all add: literal_block_def pmm_panic_literals_def pmm_literals_def literal_defs
        out_of_memory_def free_unaligned_def free_double_def bytes_def)
qed

text \<open>A pool of one page: freeing the page again is refused.\<close>

theorem pmm_free_refused_reports_witness:
  "\<exists>h' s'. free_io (\<lambda>h p. 32) (put_bytes Map.empty 4096 (literal_block pmm_panic_literals))
       (lit_at 4096 pmm_panic_literals) (kernel_env None Some) 0x100000 (one_page 0x100000, [])
       = Some (Returned (s', h'))
    \<and> sent (uart_after COM1 closed_uart h') = pmm_text (WDoubleFree 0x100000)"
proof -
  have "pool (kernel_env None Some) (one_page 0x100000) [0x100000]"
    by (rule one_page_pool) (simp_all add: kernel_env_def)
  from pmm_free_refused_reports [OF this _ pmm_literals_placed always_ready,
      of "0x100000" closed_uart "[]" closed_uart] closed_ports
  show ?thesis by (auto simp: kernel_env_def hhdm_offset_def aligned_def PageSize_def)
qed

end
