(* ===== verification/PmmStart.thy ===== *)
theory PmmStart
  imports PmmLog
begin

text \<open>
  The start of the physical memory manager (\<^verbatim>\<open>init\<close> in \<^verbatim>\<open>core/pmm.hh\<close>) with its output: each
  message is printed where the code prints it, and the panic without a memory map is the report
  and the halt. It refines \<open>pmm_init\<close>, whose messages are a list.
\<close>

definition no_memory_map :: "u8 list" where
  "no_memory_map = bytes ''PhysicalMemoryManager: Limine memory map not available''"

definition pmm_say_io ::
  "device \<Rightarrow> mem \<Rightarrow> (u8 list \<Rightarrow> addr) \<Rightarrow> pmm_env \<Rightarrow> message \<Rightarrow> pmm \<times> trace \<Rightarrow> (pmm \<times> trace) option"
where
  "pmm_say_io dev m lit e msg = (\<lambda>(s, h).
     if kDebugMode e then do { h \<leftarrow> print_pmm dev m lit msg h; Some (say msg s, h) } else Some (s, h))"

definition init_entry_io ::
  "device \<Rightarrow> mem \<Rightarrow> (u8 list \<Rightarrow> addr) \<Rightarrow> pmm_env \<Rightarrow> usize \<Rightarrow> memmap_entry \<Rightarrow> pmm \<times> trace \<Rightarrow> (pmm \<times> trace) option"
where
  "init_entry_io dev m lit e i entry sh = do {
     sh \<leftarrow> pmm_say_io dev m lit e (MEntry i (entry_base entry) (entry_length entry) (entry_type entry)) sh;
     if entry_type entry = 0 then
       (let start = entry_base entry; stop = entry_base entry + entry_length entry
        in if stop \<le> kMinPhysical then pmm_say_io dev m lit e (MSkip start stop) sh
           else do {
             sh \<leftarrow> (if start < kMinPhysical then pmm_say_io dev m lit e (MAdjust start) sh else Some sh);
             let start = (if start < kMinPhysical then kMinPhysical else start);
             (s, h) \<leftarrow> pmm_say_io dev m lit e (MAdd start stop (stop - start)) sh;
             s \<leftarrow> addRegion e start (stop - start) s;
             Some (s, h)
           })
     else pmm_say_io dev m lit e (MUnusable i (entry_type entry)) sh
   }"

fun init_entries_io ::
  "device \<Rightarrow> mem \<Rightarrow> (u8 list \<Rightarrow> addr) \<Rightarrow> pmm_env \<Rightarrow> usize \<Rightarrow> memmap_entry list \<Rightarrow> pmm \<times> trace \<Rightarrow> (pmm \<times> trace) option"
where
  "init_entries_io dev m lit e i [] sh = Some sh"
| "init_entries_io dev m lit e i (x # xs) sh = do {
     sh \<leftarrow> init_entry_io dev m lit e i x sh;
     init_entries_io dev m lit e (i + 1) xs sh
   }"

definition pmm_init_io ::
  "device \<Rightarrow> mem \<Rightarrow> (u8 list \<Rightarrow> addr) \<Rightarrow> pmm_env \<Rightarrow> memmap_entry list option \<Rightarrow> pmm \<times> trace
     \<Rightarrow> (pmm \<times> trace) outcome option"
where
  "pmm_init_io dev m lit e memmap sh = (case memmap of
     None \<Rightarrow> halted_on dev m lit no_memory_map [] (snd sh)
   | Some entries \<Rightarrow> do {
       sh \<leftarrow> pmm_say_io dev m lit e MStart sh;
       sh \<leftarrow> pmm_say_io dev m lit e (MCount (of_nat (length entries))) sh;
       (s, h) \<leftarrow> init_entries_io dev m lit e 0 entries sh;
       sh \<leftarrow> pmm_say_io dev m lit e (MDone (total_pages s) (free_pages s)) (s, h);
       Some (Returned sh)
     })"

subsection \<open>Output and log agree\<close>

text \<open>Adding pages says nothing.\<close>

lemma add_page_log: "add_page e a s = Some s' \<Longrightarrow> log s' = log s"
  by (auto simp: add_page_def store_next_def store_flags_def Let_def split: bind_splits if_splits)

lemma add_pages_log: "add_pages e a stop s = Some s' \<Longrightarrow> log s' = log s"
proof (erule add_pages.raw_induct [where P = "\<lambda>e a stop s s'. log s' = log s", rotated])
  fix loop e a stop s s'
  assume IH: "\<And>e a stop s s'. loop e a stop s = Some s' \<Longrightarrow> log s' = log s"
    and "(if a < stop then add_page e a s \<bind> loop e (a + PageSize) stop else Some s) = Some s'"
  then show "log s' = log s" using add_page_log by (fastforce split: if_splits bind_splits)
qed

lemma addRegion_log: "addRegion e b l s = Some s' \<Longrightarrow> log s' = log s"
  by (auto simp: addRegion_def Let_def add_pages_log split: if_splits)

text \<open>What both ports have sent agrees with the log.\<close>

definition pmm_logged :: "uart \<Rightarrow> uart \<Rightarrow> u8 list \<Rightarrow> u8 list \<Rightarrow> pmm \<Rightarrow> trace \<Rightarrow> bool" where
  "pmm_logged u1 u2 c l s h \<longleftrightarrow> ports u1 u2 h (c @ concat (map pmm_text (log s))) l"

text \<open>A run with output does what the run without does, and keeps the two in step.\<close>

definition mirrors ::
  "(pmm \<Rightarrow> trace \<Rightarrow> bool) \<Rightarrow> (pmm \<times> trace \<Rightarrow> (pmm \<times> trace) option) \<Rightarrow> (pmm \<Rightarrow> pmm option) \<Rightarrow> bool"
where
  "mirrors ok f g \<longleftrightarrow> (\<forall>s h. ok s h \<longrightarrow> (case g s of
     None \<Rightarrow> f (s, h) = None
   | Some s' \<Rightarrow> \<exists>h'. f (s, h) = Some (s', h') \<and> ok s' h'))"

lemma mirrorsD: "mirrors ok f g \<Longrightarrow> ok s h \<Longrightarrow> g s = Some s' \<Longrightarrow> \<exists>h'. f (s, h) = Some (s', h') \<and> ok s' h'"
  by (fastforce simp: mirrors_def)

lemma mirrors_None: "mirrors ok f g \<Longrightarrow> ok s h \<Longrightarrow> g s = None \<Longrightarrow> f (s, h) = None"
  by (fastforce simp: mirrors_def)

lemma mirrorsI:
  assumes "\<And>s h. ok s h \<Longrightarrow> g s = None \<Longrightarrow> f (s, h) = None"
    and "\<And>s h s'. ok s h \<Longrightarrow> g s = Some s' \<Longrightarrow> \<exists>h'. f (s, h) = Some (s', h') \<and> ok s' h'"
  shows "mirrors ok f g"
  using assms by (auto simp: mirrors_def split: option.split)

lemma mirrors_bind:
  assumes "mirrors ok f1 g1" and "mirrors ok f2 g2"
  shows "mirrors ok (\<lambda>sh. f1 sh \<bind> f2) (\<lambda>s. g1 s \<bind> g2)"
proof (rule mirrorsI)
  fix s h assume ok: "ok s h" and "g1 s \<bind> g2 = None"
  then show "f1 (s, h) \<bind> f2 = None"
    using mirrorsD [OF assms(1) ok] mirrors_None [OF assms(1) ok] mirrors_None [OF assms(2)]
    by (cases "g1 s") fastforce+
next
  fix s h s' assume ok: "ok s h" and "g1 s \<bind> g2 = Some s'"
  then obtain s1 where s1: "g1 s = Some s1" "g2 s1 = Some s'" by (auto split: bind_splits)
  from mirrorsD [OF assms(1) ok s1(1)] obtain h1 where "f1 (s, h) = Some (s1, h1)" "ok s1 h1" by blast
  with mirrorsD [OF assms(2) _ s1(2)] show "\<exists>h'. f1 (s, h) \<bind> f2 = Some (s', h') \<and> ok s' h'" by auto
qed

lemma mirrors_if: "mirrors ok f1 g1 \<Longrightarrow> mirrors ok f2 g2
    \<Longrightarrow> mirrors ok (\<lambda>sh. if b then f1 sh else f2 sh) (\<lambda>s. if b then g1 s else g2 s)"
  by (cases b) simp_all

lemma mirrors_return: "mirrors ok Some Some"
  by (simp add: mirrors_def)

lemma say_mirrors:
  assumes "literals m lit pmm_literals" and "both_ready dev"
  shows "mirrors (pmm_logged u1 u2 c l) (pmm_say_io dev m lit e msg) (\<lambda>s. Some (debug e msg s))"
proof (rule mirrorsI)
  fix s h s' assume "pmm_logged u1 u2 c l s h" and "Some (debug e msg s) = Some s'"
  then show "\<exists>h'. pmm_say_io dev m lit e msg (s, h) = Some (s', h') \<and> pmm_logged u1 u2 c l s' h'"
    using print_pmm_transmits [OF assms, of u1 u2 h _ l msg]
    by (fastforce simp: pmm_say_io_def debug_def say_def pmm_logged_def)
qed simp

lemma region_mirrors:
  "mirrors (pmm_logged u1 u2 c l) (\<lambda>(s, h). do { s \<leftarrow> addRegion e b n s; Some (s, h) }) (addRegion e b n)"
  by (rule mirrorsI) (auto simp: pmm_logged_def dest: addRegion_log)

lemma init_entry_mirrors:
  assumes "literals m lit pmm_literals" and "both_ready dev"
  shows "mirrors (pmm_logged u1 u2 c l) (init_entry_io dev m lit e i x) (init_entry e i x)"
proof -
  let ?say = "\<lambda>msg s. Some (debug e msg s)"
  let ?start = "entry_base x" and ?stop = "entry_base x + entry_length x"
  let ?low = "if ?start < kMinPhysical then kMinPhysical else ?start"
  have "init_entry e i x = (\<lambda>s. ?say (MEntry i ?start (entry_length x) (entry_type x)) s \<bind> (\<lambda>s.
      if entry_type x = 0 then
        if ?stop \<le> kMinPhysical then ?say (MSkip ?start ?stop) s
        else (if ?start < kMinPhysical then ?say (MAdjust ?start) s else Some s) \<bind> (\<lambda>s.
          ?say (MAdd ?low ?stop (?stop - ?low)) s \<bind> addRegion e ?low (?stop - ?low))
      else ?say (MUnusable i (entry_type x)) s))"
    by (simp add: fun_eq_iff init_entry_def Let_def)
  moreover have "init_entry_io dev m lit e i x =
      (\<lambda>sh. pmm_say_io dev m lit e (MEntry i ?start (entry_length x) (entry_type x)) sh \<bind> (\<lambda>sh.
      if entry_type x = 0 then
        if ?stop \<le> kMinPhysical then pmm_say_io dev m lit e (MSkip ?start ?stop) sh
        else (if ?start < kMinPhysical then pmm_say_io dev m lit e (MAdjust ?start) sh else Some sh) \<bind> (\<lambda>sh.
          pmm_say_io dev m lit e (MAdd ?low ?stop (?stop - ?low)) sh
            \<bind> (\<lambda>(s, h). do { s \<leftarrow> addRegion e ?low (?stop - ?low) s; Some (s, h) }))
      else pmm_say_io dev m lit e (MUnusable i (entry_type x)) sh))"
    by (rule ext) (simp only: init_entry_io_def Let_def)
  ultimately show ?thesis
    by (simp only:) (intro mirrors_bind mirrors_if mirrors_return region_mirrors say_mirrors assms)
qed

lemma init_entries_mirrors:
  assumes "literals m lit pmm_literals" and "both_ready dev"
  shows "mirrors (pmm_logged u1 u2 c l) (init_entries_io dev m lit e i xs) (init_entries e i xs)"
proof (induction xs arbitrary: i)
  case Nil
  have "init_entries_io dev m lit e i [] = Some" "init_entries e i [] = Some" by (simp_all add: fun_eq_iff)
  then show ?case by (simp only: mirrors_return)
next
  case (Cons x xs)
  have "init_entries_io dev m lit e i (x # xs)
      = (\<lambda>sh. init_entry_io dev m lit e i x sh \<bind> init_entries_io dev m lit e (i + 1) xs)"
    "init_entries e i (x # xs) = (\<lambda>s. init_entry e i x s \<bind> init_entries e (i + 1) xs)"
    by (simp_all add: fun_eq_iff)
  then show ?case by (simp only:) (intro mirrors_bind init_entry_mirrors assms Cons.IH)
qed

subsection \<open>Initialisation\<close>

definition pmm_start_literals :: "u8 list list" where
  "pmm_start_literals = no_memory_map # pmm_panic_literals"

lemma pmm_start_literalsD:
  assumes "literals m lit pmm_start_literals"
  shows "literals m lit panic_literals" and "literals m lit pmm_literals"
    and "cstr_at m (lit no_memory_map) no_memory_map"
proof -
  have "literals m lit pmm_panic_literals" using assms by (simp add: literals_def pmm_start_literals_def)
  then show "literals m lit panic_literals" and "literals m lit pmm_literals"
    by (rule pmm_panic_literalsD)+
  show "cstr_at m (lit no_memory_map) no_memory_map"
    using assms by (simp add: literals_def pmm_start_literals_def)
qed

lemma no_memory_map_pieces:
  "format_text (fmt_pieces [] no_memory_map) = no_memory_map"
  "list_all piece_ok (fmt_pieces [] no_memory_map)"
  by (simp_all add: no_memory_map_def bytes_def)

text \<open>A run with output, after its lists.\<close>

lemma pmm_init_mirrors:
  assumes "literals m lit pmm_literals" and "both_ready dev"
  shows "mirrors (pmm_logged u1 u2 c l)
    (\<lambda>sh. do {
       sh \<leftarrow> pmm_say_io dev m lit e MStart sh;
       sh \<leftarrow> pmm_say_io dev m lit e (MCount (of_nat (length xs))) sh;
       (s, h) \<leftarrow> init_entries_io dev m lit e 0 xs sh;
       pmm_say_io dev m lit e (MDone (total_pages s) (free_pages s)) (s, h) })
    (pmm_init e (Some xs))"
proof -
  have last: "mirrors (pmm_logged u1 u2 c l)
      (\<lambda>(s, h). pmm_say_io dev m lit e (MDone (total_pages s) (free_pages s)) (s, h))
      (\<lambda>s. Some (debug e (MDone (total_pages s) (free_pages s)) s))"
    using say_mirrors [OF assms] by (simp add: mirrors_def)
  have "pmm_init e (Some xs) = (\<lambda>s. Some (debug e MStart s) \<bind> (\<lambda>s.
      Some (debug e (MCount (of_nat (length xs))) s) \<bind> (\<lambda>s. init_entries e 0 xs s \<bind>
      (\<lambda>s. Some (debug e (MDone (total_pages s) (free_pages s)) s)))))"
    by (simp add: fun_eq_iff pmm_init_def)
  then show ?thesis
    by (simp only:) (intro mirrors_bind say_mirrors init_entries_mirrors last assms)
qed

text \<open>
  C16: Starting the memory manager with its output refines the start that keeps a list: on any
  memory map it ends when that does and in the same state, and the first port has sent the text
  of every message of the list in its order, the second nothing. Without a memory map it
  reports that on both ports and halts for ever with interrupts off.
\<close>

theorem pmm_init_transmits_log:
  assumes "literals m lit pmm_start_literals" and "both_ready dev" and "log s = []"
    and "\<not> dlab (uart_after COM1 u1 h)" and "\<not> dlab (uart_after COM2 u2 h)"
  shows "case memmap of
      None \<Rightarrow> \<exists>h'. pmm_init_io dev m lit e memmap (s, h) = Some (Halted h' (Cli ## sconst Hlt))
        \<and> sent (uart_after COM1 u1 h') = sent (uart_after COM1 u1 h) @ console_text (crlf no_memory_map)
        \<and> sent (uart_after COM2 u2 h') = sent (uart_after COM2 u2 h) @ log_text None (crlf no_memory_map)
    | Some xs \<Rightarrow> (case pmm_init e memmap s of
        None \<Rightarrow> pmm_init_io dev m lit e memmap (s, h) = None
      | Some s' \<Rightarrow> \<exists>h'. pmm_init_io dev m lit e memmap (s, h) = Some (Returned (s', h'))
          \<and> sent (uart_after COM1 u1 h') = sent (uart_after COM1 u1 h) @ concat (map pmm_text (log s'))
          \<and> sent (uart_after COM2 u2 h') = sent (uart_after COM2 u2 h))"
proof -
  let ?c = "sent (uart_after COM1 u1 h)" and ?l = "sent (uart_after COM2 u2 h)"
  note lits = pmm_start_literalsD [OF assms(1)]
  have ports: "ports u1 u2 h ?c ?l" using assms(4,5) by (simp add: ports_def)
  show ?thesis
  proof (cases memmap)
    case None
    then show ?thesis
      using halted_on_reports [OF lits(1,3) no_memory_map_pieces _ _ assms(2) ports, of "[]"]
      by (simp add: pmm_init_io_def)
  next
    case (Some xs)
    have "pmm_logged u1 u2 ?c ?l s h" using ports assms(3) by (simp add: pmm_logged_def)
    note run = mirrorsD [OF pmm_init_mirrors [OF lits(2) assms(2)] this]
      mirrors_None [OF pmm_init_mirrors [OF lits(2) assms(2)] this]
    show ?thesis
      using run [of e xs] Some
      by (fastforce simp: pmm_init_io_def pmm_logged_def ports_def split: option.split bind_splits)
  qed
qed

lemma pmm_start_literals_placed:
  "literals (put_bytes Map.empty 4096 (literal_block pmm_start_literals)) (lit_at 4096 pmm_start_literals)
     pmm_start_literals"
proof (rule literals_block)
  show "length (literal_block pmm_start_literals) \<le> 2 ^ 64" "list_all (\<lambda>t. 0 \<notin> set t) pmm_start_literals"
    by (simp_all add: literal_block_def pmm_start_literals_def no_memory_map_def pmm_panic_literals_def
        pmm_literals_def literal_defs out_of_memory_def free_unaligned_def free_double_def)
qed

text \<open>A memory map whose one entry is reserved.\<close>

theorem pmm_init_transmits_log_witness:
  "\<exists>s' h'. pmm_init_io (\<lambda>h p. 32) (put_bytes Map.empty 4096 (literal_block pmm_start_literals))
       (lit_at 4096 pmm_start_literals) (kernel_env None Some)
       (Some [\<lparr>entry_base = 0, entry_length = 0x2000, entry_type = 1\<rparr>])
       (pmm_start (\<lambda>_. \<lparr>link = 7, flags = 7\<rparr>), []) = Some (Returned (s', h'))
    \<and> sent (uart_after COM1 closed_uart h') = concat (map pmm_text
        [MStart, MCount 1, MEntry 0 0 0x2000 1, MUnusable 0 1, MDone 0 0])"
proof -
  let ?s = "pmm_start (\<lambda>_. \<lparr>link = 7, flags = 7\<rparr>)" and ?x = "\<lparr>entry_base = 0, entry_length = 0x2000, entry_type = 1\<rparr>"
  have "pmm_init (kernel_env None Some) (Some [?x]) ?s
      = Some (?s\<lparr>log := [MStart, MCount 1, MEntry 0 0 0x2000 1, MUnusable 0 1, MDone 0 0]\<rparr>)"
    by (simp add: pmm_init_def init_entry_def kernel_env_def debug_def say_def pmm_start_def)
  with pmm_init_transmits_log [OF pmm_start_literals_placed always_ready, of ?s closed_uart "[]" closed_uart
      "kernel_env None Some" "Some [?x]"] closed_ports
  show ?thesis by (auto simp: pmm_start_def)
qed

end
