(* ===== verification/PortIo.thy ===== *)
theory PortIo
  imports Serial
begin

text \<open>
  \<^verbatim>\<open>io::out\<close> and \<^verbatim>\<open>io::in\<close> of \<^verbatim>\<open>arch/io.hh\<close> for every operand: templates that choose the instruction
  by the size of the type. Serial uses their instances at one byte, with which \<open>io_out\<close> and
  \<open>io_in\<close> of that theory agree. An instantiation that does not compile, or does not
  assemble, is \<open>None\<close>.
\<close>

subsection \<open>Operands of every size\<close>

datatype operand = Byte u8 | Word16 u16 | Dword u32

datatype port_access = PortIn u16 operand | PortOut u16 operand

type_synonym accesses = "port_access list"

text \<open>What a device answers to a read of so many bytes, from the accesses so far.\<close>

type_synonym wide_device = "accesses \<Rightarrow> u16 \<Rightarrow> nat \<Rightarrow> u32"

text \<open>
  An instruction takes the port from \<^verbatim>\<open>dx\<close>, so the upper half of the parameter is lost. There is no
  \<^verbatim>\<open>outq\<close> and no \<^verbatim>\<open>inq\<close>. The assertion in the last branch holds for the sizes 3, 5, 6 and 7,
  which then access nothing, and fails for larger ones.
\<close>

definition port_out :: "nat \<Rightarrow> u32 \<Rightarrow> u64 \<Rightarrow> accesses \<Rightarrow> accesses option" where
  "port_out size_of_T port v h =
     (if size_of_T = 1 then Some (h @ [PortOut (ucast port) (Byte (ucast v))])
      else if size_of_T = 2 then Some (h @ [PortOut (ucast port) (Word16 (ucast v))])
      else if size_of_T = 4 then Some (h @ [PortOut (ucast port) (Dword (ucast v))])
      else if size_of_T = 8 then None
      else if size_of_T \<le> 8 then Some h
      else None)"

definition port_in :: "nat \<Rightarrow> wide_device \<Rightarrow> u32 \<Rightarrow> accesses \<Rightarrow> (u64 \<times> accesses) option" where
  "port_in size_of_T dev port h =
     (let p = ucast port :: u16; r = dev h p size_of_T in
      if size_of_T = 1 then Some (ucast (ucast r :: u8), h @ [PortIn p (Byte (ucast r))])
      else if size_of_T = 2 then Some (ucast (ucast r :: u16), h @ [PortIn p (Word16 (ucast r))])
      else if size_of_T = 4 then Some (ucast r, h @ [PortIn p (Dword r)])
      else if size_of_T = 8 then None
      else if size_of_T \<le> 8 then Some (0, h)
      else None)"

subsection \<open>The instances of the driver\<close>

fun byte_access :: "io_event \<Rightarrow> port_access" where
  "byte_access (In p v) = PortIn p (Byte v)"
| "byte_access (Out p v) = PortOut p (Byte v)"

text \<open>A byte device answers reads of one byte.\<close>

definition byte_device :: "wide_device \<Rightarrow> device \<Rightarrow> bool" where
  "byte_device wide dev \<longleftrightarrow> (\<forall>h p. wide (map byte_access h) p 1 = ucast (dev h p))"

lemma port_out_byte:
  "port_out 1 port v (map byte_access h) = Some (map byte_access (io_out (ucast port) (ucast v) h))"
  by (simp add: port_out_def io_out_def)

lemma port_in_byte:
  assumes "byte_device wide dev" and "io_in dev (ucast port) h = (v, h')"
  shows "port_in 1 wide port (map byte_access h) = Some (ucast v, map byte_access h')"
proof -
  have "ucast (ucast b :: u32) = b" for b :: u8 by (rule bit_word_eqI) (auto simp: bit_simps)
  with assms show ?thesis by (auto simp: port_in_def io_in_def byte_device_def Let_def)
qed

text \<open>Ports that differ in the upper half of the parameter are one port.\<close>

lemma port_out_truncates: "port_out n port v h = port_out n (ucast (ucast port :: u16)) v h"
proof -
  have "ucast (ucast (ucast port :: u16) :: u32) = (ucast port :: u16)"
    by (rule bit_word_eqI) (auto simp: bit_simps)
  then show ?thesis by (simp add: port_out_def)
qed

text \<open>A value of one, two or four bytes reaches the port whole.\<close>

fun operand_value :: "operand \<Rightarrow> u64" where
  "operand_value (Byte v) = ucast v"
| "operand_value (Word16 v) = ucast v"
| "operand_value (Dword v) = ucast v"

lemma port_out_value:
  assumes "n \<in> {1, 2, 4}" and "uint v < 2 ^ (8 * n)"
  shows "\<exists>x. port_out n port v h = Some (h @ [PortOut (ucast port) x]) \<and> operand_value x = v"
proof -
  have "ucast (ucast v :: u8) = v" if "n = 1"
    using assms(2) that by (intro word_uint_eqI) (simp add: unsigned_ucast_eq unsigned_take_bit_eq take_bit_int_eq_self)
  moreover have "ucast (ucast v :: u16) = v" if "n = 2"
    using assms(2) that by (intro word_uint_eqI) (simp add: unsigned_ucast_eq unsigned_take_bit_eq take_bit_int_eq_self)
  moreover have "ucast (ucast v :: u32) = v" if "n = 4"
    using assms(2) that by (intro word_uint_eqI) (simp add: unsigned_ucast_eq unsigned_take_bit_eq take_bit_int_eq_self)
  ultimately show ?thesis using assms(1) by (auto simp: port_out_def)
qed

text \<open>Operands of three, five, six and seven bytes: nothing is written, and zeros are read.\<close>

lemma odd_sizes_silent:
  "n \<in> {3, 5, 6, 7} \<Longrightarrow> port_out n port v h = Some h \<and> port_in n dev port h = Some (0, h)"
  by (auto simp: port_out_def port_in_def Let_def)

end
