(* ===== verification/TypeTraits.thy ===== *)
theory TypeTraits
  imports Prelude
begin

text \<open>
  \<^verbatim>\<open>ktl/type_traits\<close>: computation on types. The types of the language are a datatype, a template
  is a function on them, and a partial specialisation is a case; an instantiation the compiler
  refuses is \<open>None\<close>. The traits that ask for the constructors and operators of a class
  (\<^verbatim>\<open>is_convertible\<close> and the \<^verbatim>\<open>noexcept\<close> traits) are in TypeConv; a class is only its name and the
  types it is instantiated with.
\<close>

subsection \<open>The types of the language\<close>

text \<open>The arithmetic types, on x86-64.\<close>

datatype arith = TBool | TChar | TSChar | TUChar | TWChar | TChar8 | TChar16 | TChar32
  | TShort | TUShort | TInt | TUInt | TLong | TULong | TLLong | TULLong | TFloat | TDouble | TLDouble

text \<open>
  A type is its two qualifiers and what they qualify. The qualifiers of an array are those of its
  elements, references and functions have none. The last component of a function is \<^verbatim>\<open>noexcept\<close>,
  which is part of its type; the one before says whether it is variadic.
\<close>

datatype cty = Cty (is_c: bool) (is_v: bool) (base_of: cbase)
and cbase = BVoid | BNullptr | BArith arith | BClass string "cty list" | BPtr cty | BLRef cty | BRRef cty
  | BArr cty "nat option" | BFun cty "cty list" bool bool

abbreviation plain :: "cbase \<Rightarrow> cty" where
  "plain b \<equiv> Cty False False b"

fun is_refb :: "cbase \<Rightarrow> bool" where
  "is_refb (BLRef t) = True"
| "is_refb (BRRef t) = True"
| "is_refb _ = False"

fun is_funb :: "cbase \<Rightarrow> bool" where
  "is_funb (BFun r ps va nx) = True"
| "is_funb _ = False"

fun is_arrb :: "cbase \<Rightarrow> bool" where
  "is_arrb (BArr t n) = True"
| "is_arrb _ = False"

text \<open>The types there are: no reference to a reference or \<^verbatim>\<open>void\<close>, no array of functions, and so on.\<close>

fun wf_ty :: "cty \<Rightarrow> bool" and wf_base :: "cbase \<Rightarrow> bool" where
  "wf_ty (Cty c v b) = (wf_base b \<and> (is_refb b \<or> is_funb b \<or> is_arrb b \<longrightarrow> \<not> c \<and> \<not> v))"
| "wf_base (BClass nm ts) = list_all wf_ty ts"
| "wf_base (BPtr t) = (wf_ty t \<and> \<not> is_refb (base_of t))"
| "wf_base (BLRef t) = (wf_ty t \<and> \<not> is_refb (base_of t) \<and> base_of t \<noteq> BVoid)"
| "wf_base (BRRef t) = (wf_ty t \<and> \<not> is_refb (base_of t) \<and> base_of t \<noteq> BVoid)"
| "wf_base (BArr t n) = (wf_ty t \<and> \<not> is_refb (base_of t) \<and> \<not> is_funb (base_of t) \<and> base_of t \<noteq> BVoid)"
| "wf_base (BFun r ps va nx) = (wf_ty r \<and> \<not> is_arrb (base_of r) \<and> \<not> is_funb (base_of r) \<and> list_all wf_ty ps)"
| "wf_base _ = True"

text \<open>
  What matches the pattern \<^verbatim>\<open>const T\<close>, and the \<open>T\<close> it matches with: an array is const when its
  elements are.
\<close>

fun top_const :: "cty \<Rightarrow> bool" where
  "top_const (Cty c v (BArr t n)) = top_const t"
| "top_const (Cty c v b) = c"

fun drop_const :: "cty \<Rightarrow> cty" where
  "drop_const (Cty c v (BArr t n)) = Cty c v (BArr (drop_const t) n)"
| "drop_const (Cty c v b) = Cty False v b"

fun top_volatile :: "cty \<Rightarrow> bool" where
  "top_volatile (Cty c v (BArr t n)) = top_volatile t"
| "top_volatile (Cty c v b) = v"

fun drop_volatile :: "cty \<Rightarrow> cty" where
  "drop_volatile (Cty c v (BArr t n)) = Cty c v (BArr (drop_volatile t) n)"
| "drop_volatile (Cty c v b) = Cty c False b"

subsection \<open>Conditions\<close>

definition enable_if :: "bool \<Rightarrow> cty \<Rightarrow> cty option" where
  "enable_if b t = (if b then Some t else None)"

definition conditional :: "bool \<Rightarrow> cty \<Rightarrow> cty \<Rightarrow> cty" where
  "conditional b t f = (if b then t else f)"

definition is_same :: "cty \<Rightarrow> cty \<Rightarrow> bool" where
  "is_same t u = (t = u)"

subsection \<open>Qualifiers and references\<close>

definition remove_const :: "cty \<Rightarrow> cty" where
  "remove_const t = (if top_const t then drop_const t else t)"

definition remove_volatile :: "cty \<Rightarrow> cty" where
  "remove_volatile t = (if top_volatile t then drop_volatile t else t)"

definition remove_cv :: "cty \<Rightarrow> cty" where
  "remove_cv t = remove_volatile (remove_const t)"

definition remove_reference :: "cty \<Rightarrow> cty" where
  "remove_reference t = (case base_of t of BLRef u \<Rightarrow> u | BRRef u \<Rightarrow> u | _ \<Rightarrow> t)"

text \<open>References collapse; there is none to \<^verbatim>\<open>void\<close>.\<close>

definition add_lvalue_reference :: "cty \<Rightarrow> cty option" where
  "add_lvalue_reference t =
     (case base_of t of
        BVoid \<Rightarrow> None
      | BLRef u \<Rightarrow> Some t
      | BRRef u \<Rightarrow> Some (plain (BLRef u))
      | _ \<Rightarrow> Some (plain (BLRef t)))"

definition add_rvalue_reference :: "cty \<Rightarrow> cty option" where
  "add_rvalue_reference t =
     (case base_of t of
        BVoid \<Rightarrow> None
      | BLRef u \<Rightarrow> Some t
      | BRRef u \<Rightarrow> Some t
      | _ \<Rightarrow> Some (plain (BRRef t)))"

definition remove_cvref :: "cty \<Rightarrow> cty" where
  "remove_cvref t = remove_cv (remove_reference t)"

definition is_const :: "cty \<Rightarrow> bool" where
  "is_const t = top_const t"

definition is_volatile :: "cty \<Rightarrow> bool" where
  "is_volatile t = top_volatile t"

definition is_lvalue_reference :: "cty \<Rightarrow> bool" where
  "is_lvalue_reference t = (case base_of t of BLRef u \<Rightarrow> True | _ \<Rightarrow> False)"

definition is_rvalue_reference :: "cty \<Rightarrow> bool" where
  "is_rvalue_reference t = (case base_of t of BRRef u \<Rightarrow> True | _ \<Rightarrow> False)"

definition is_reference :: "cty \<Rightarrow> bool" where
  "is_reference t = (is_lvalue_reference t \<or> is_rvalue_reference t)"

subsection \<open>Kinds of types\<close>

text \<open>The specialisations name unqualified types only.\<close>

definition is_void :: "cty \<Rightarrow> bool" where
  "is_void t = (t = plain BVoid)"

definition is_null_pointer :: "cty \<Rightarrow> bool" where
  "is_null_pointer t = (t = plain BNullptr)"

definition integral_types :: "arith list" where
  "integral_types = [TBool, TChar, TSChar, TUChar, TWChar, TShort, TUShort, TInt, TUInt, TLong, TULong,
     TLLong, TULLong]"

definition floating_types :: "arith list" where
  "floating_types = [TFloat, TDouble, TLDouble]"

definition is_integral :: "cty \<Rightarrow> bool" where
  "is_integral t = (t \<in> set (map (\<lambda>k. plain (BArith k)) integral_types))"

definition is_floating_point :: "cty \<Rightarrow> bool" where
  "is_floating_point t = (t \<in> set (map (\<lambda>k. plain (BArith k)) floating_types))"

definition is_arithmetic :: "cty \<Rightarrow> bool" where
  "is_arithmetic t = (is_integral t \<or> is_floating_point t)"

text \<open>The value of \<^verbatim>\<open>(T)i\<close>: \<^verbatim>\<open>bool\<close> is whether \<open>i\<close> is not 0, an integer type wraps to its width.\<close>

fun arith_bits :: "arith \<Rightarrow> (bool \<times> nat) option" where
  "arith_bits TChar = Some (True, 8)"
| "arith_bits TSChar = Some (True, 8)"
| "arith_bits TUChar = Some (False, 8)"
| "arith_bits TWChar = Some (True, 32)"
| "arith_bits TChar8 = Some (False, 8)"
| "arith_bits TChar16 = Some (False, 16)"
| "arith_bits TChar32 = Some (False, 32)"
| "arith_bits TShort = Some (True, 16)"
| "arith_bits TUShort = Some (False, 16)"
| "arith_bits TInt = Some (True, 32)"
| "arith_bits TUInt = Some (False, 32)"
| "arith_bits TLong = Some (True, 64)"
| "arith_bits TULong = Some (False, 64)"
| "arith_bits TLLong = Some (True, 64)"
| "arith_bits TULLong = Some (False, 64)"
| "arith_bits _ = None"

definition cast_to :: "arith \<Rightarrow> int \<Rightarrow> int" where
  "cast_to k i =
     (if k = TBool then of_bool (i \<noteq> 0)
      else case arith_bits k of
        Some (True, w) \<Rightarrow> signed_take_bit (w - 1) i
      | Some (False, w) \<Rightarrow> take_bit w i
      | None \<Rightarrow> i)"

text \<open>
  The casts to the right of \<^verbatim>\<open>&&\<close> have to compile for every type, but are evaluated only for an
  integral one. They compile for arithmetic types, pointers, and references a temporary number
  can be bound to.
\<close>

fun is_arithb :: "cbase \<Rightarrow> bool" where
  "is_arithb (BArith k) = True"
| "is_arithb _ = False"

definition signed_test :: "(arith \<Rightarrow> bool) \<Rightarrow> cty \<Rightarrow> bool option" where
  "signed_test below t =
     (case base_of t of
        BArith k \<Rightarrow> Some (is_integral t \<and> below k)
      | BPtr u \<Rightarrow> Some False
      | BLRef u \<Rightarrow> if is_arithb (base_of u) \<and> is_c u \<and> \<not> is_v u then Some False else None
      | BRRef u \<Rightarrow> if is_arithb (base_of u) then Some False else None
      | _ \<Rightarrow> None)"

definition is_signed :: "cty \<Rightarrow> bool option" where
  "is_signed t = signed_test (\<lambda>k. cast_to k (-1) < cast_to k 0) t"

definition is_unsigned :: "cty \<Rightarrow> bool option" where
  "is_unsigned t = signed_test (\<lambda>k. cast_to k 0 < cast_to k (-1)) t"

subsection \<open>Pointers, arrays and functions\<close>

definition is_pointer :: "cty \<Rightarrow> bool" where
  "is_pointer t = (case t of Cty False False (BPtr u) \<Rightarrow> True | _ \<Rightarrow> False)"

definition remove_pointer :: "cty \<Rightarrow> cty" where
  "remove_pointer t = (case t of Cty False False (BPtr u) \<Rightarrow> u | _ \<Rightarrow> t)"

definition add_pointer :: "cty \<Rightarrow> cty" where
  "add_pointer t = plain (BPtr (remove_reference t))"

definition is_array :: "cty \<Rightarrow> bool" where
  "is_array t = (case base_of t of BArr u n \<Rightarrow> True | _ \<Rightarrow> False)"

definition remove_extent :: "cty \<Rightarrow> cty" where
  "remove_extent t = (case base_of t of BArr u n \<Rightarrow> u | _ \<Rightarrow> t)"

fun remove_all_extents :: "cty \<Rightarrow> cty" where
  "remove_all_extents (Cty c v (BArr u n)) = remove_all_extents u"
| "remove_all_extents t = t"

text \<open>The two specialisations, without and with an ellipsis, name functions that may throw.\<close>

definition is_function :: "cty \<Rightarrow> bool" where
  "is_function t = (case base_of t of BFun r ps va False \<Rightarrow> True | _ \<Rightarrow> False)"

definition decay :: "cty \<Rightarrow> cty" where
  "decay t =
     (let u = remove_cvref t
      in conditional (is_array u) (plain (BPtr (remove_extent u)))
           (conditional (is_function u) (add_pointer u) u))"

subsection \<open>Sequences of integers, instances of templates\<close>

fun make_index_sequence_impl :: "nat \<Rightarrow> nat list \<Rightarrow> nat list" where
  "make_index_sequence_impl 0 is = is"
| "make_index_sequence_impl (Suc n) is = make_index_sequence_impl n (n # is)"

definition make_index_sequence :: "nat \<Rightarrow> nat list" where
  "make_index_sequence n = make_index_sequence_impl n []"

definition index_sequence_for :: "cty list \<Rightarrow> nat list" where
  "index_sequence_for ts = make_index_sequence (length ts)"

definition is_instantiation_of :: "string \<Rightarrow> cty \<Rightarrow> bool" where
  "is_instantiation_of template t = (case t of Cty False False (BClass nm ts) \<Rightarrow> nm = template | _ \<Rightarrow> False)"

subsection \<open>Moving and forwarding\<close>

text \<open>The type a parameter \<^verbatim>\<open>T&&\<close> deduces for an lvalue or an rvalue of type \<open>u\<close>.\<close>

definition deduce :: "bool \<Rightarrow> cty \<Rightarrow> cty" where
  "deduce lvalue u = (if lvalue then plain (BLRef u) else u)"

definition move_type :: "cty \<Rightarrow> cty option" where
  "move_type t = add_rvalue_reference (remove_reference t)"

text \<open>\<^verbatim>\<open>forward<T>\<close> of an lvalue or an rvalue: the second overload refuses to turn an rvalue into an lvalue.\<close>

definition forward_type :: "cty \<Rightarrow> bool \<Rightarrow> cty option" where
  "forward_type t rvalue =
     (if rvalue \<and> is_lvalue_reference t then None else add_rvalue_reference t)"

text \<open>
  \<^verbatim>\<open>swap\<close> of two objects of a store, through a temporary; \<open>moved\<close> is what the assignment and the
  constructor leave in the object they move from.
\<close>

definition ktl_swap :: "('v \<Rightarrow> 'v) \<Rightarrow> 'a \<Rightarrow> 'a \<Rightarrow> ('a \<Rightarrow> 'v) \<Rightarrow> 'a \<Rightarrow> 'v" where
  "ktl_swap moved a b s =
     (let tmp = s a; s = s(a := moved (s a));
          v = s b; s = s(b := moved (s b)); s = s(a := v)
      in s(b := tmp))"

subsection \<open>Qualifiers come off\<close>

lemma base_drops:
  "is_arrb (base_of (drop_const t)) = is_arrb (base_of t)"
  "is_refb (base_of (drop_const t)) = is_refb (base_of t)"
  "is_funb (base_of (drop_const t)) = is_funb (base_of t)"
  "base_of (drop_const t) = BVoid \<longleftrightarrow> base_of t = BVoid"
  "is_arrb (base_of (drop_volatile t)) = is_arrb (base_of t)"
  "is_refb (base_of (drop_volatile t)) = is_refb (base_of t)"
  "is_funb (base_of (drop_volatile t)) = is_funb (base_of t)"
  "base_of (drop_volatile t) = BVoid \<longleftrightarrow> base_of t = BVoid"
  by (induction t rule: drop_const.induct; simp)+

lemma wf_drop_const: "wf_ty t \<Longrightarrow> wf_ty (drop_const t)"
  by (induction t rule: drop_const.induct) (simp_all add: base_drops)

lemma wf_drop_volatile: "wf_ty t \<Longrightarrow> wf_ty (drop_volatile t)"
  by (induction t rule: drop_volatile.induct) (simp_all add: base_drops)

lemma top_drop:
  "\<not> top_const (drop_const t)" "\<not> top_volatile (drop_volatile t)"
  "top_const (drop_volatile t) = top_const t"
  by (induction t rule: drop_const.induct) simp_all

lemma remove_cv_clears:
  "\<not> top_const (remove_cv t)" "\<not> top_volatile (remove_cv t)"
  by (simp_all add: remove_cv_def remove_const_def remove_volatile_def top_drop)

lemma remove_cv_wf: "wf_ty t \<Longrightarrow> wf_ty (remove_cv t)"
  by (simp add: remove_cv_def remove_const_def remove_volatile_def wf_drop_const wf_drop_volatile)

lemma remove_cv_base:
  "is_refb (base_of (remove_cv t)) = is_refb (base_of t)"
  "is_arrb (base_of (remove_cv t)) = is_arrb (base_of t)"
  by (simp_all add: remove_cv_def remove_const_def remove_volatile_def base_drops)

lemma remove_cv_id: "\<not> top_const t \<Longrightarrow> \<not> top_volatile t \<Longrightarrow> remove_cv t = t"
  by (simp add: remove_cv_def remove_const_def remove_volatile_def)

text \<open>The qualifiers of an array are taken from its elements.\<close>

lemma remove_cv_array: "remove_cv (plain (BArr u n)) = plain (BArr (remove_cv u) n)"
  by (simp add: remove_cv_def remove_const_def remove_volatile_def)

lemma remove_reference_wf: "wf_ty t \<Longrightarrow> wf_ty (remove_reference t) \<and> \<not> is_refb (base_of (remove_reference t))"
  by (cases t; cases "base_of t") (auto simp: remove_reference_def)

lemma remove_reference_id: "\<not> is_refb (base_of t) \<Longrightarrow> remove_reference t = t"
  by (cases "base_of t") (auto simp: remove_reference_def)

lemma reference_iff: "is_reference t = is_refb (base_of t)"
  by (cases "base_of t") (auto simp: is_reference_def is_lvalue_reference_def is_rvalue_reference_def)

lemma array_iff: "is_array t = is_arrb (base_of t)"
  by (cases "base_of t") (auto simp: is_array_def)

lemma remove_cvref_normal:
  assumes "wf_ty t"
  shows "wf_ty (remove_cvref t)" and "\<not> is_refb (base_of (remove_cvref t))"
    and "\<not> top_const (remove_cvref t)" and "\<not> top_volatile (remove_cvref t)"
  using remove_reference_wf [OF assms]
  by (simp_all add: remove_cvref_def remove_cv_wf remove_cv_clears remove_cv_base)

subsection \<open>Decay\<close>

lemma wf_element: "wf_ty t \<Longrightarrow> is_array t \<Longrightarrow> wf_ty (remove_extent t) \<and> \<not> is_refb (base_of (remove_extent t))"
  by (cases t; cases "base_of t") (auto simp: is_array_def remove_extent_def)

lemma decay_cases:
  obtains "is_array (remove_cvref t)" "decay t = plain (BPtr (remove_extent (remove_cvref t)))"
  | "is_function (remove_cvref t)" "decay t = add_pointer (remove_cvref t)"
  | "\<not> is_array (remove_cvref t)" "\<not> is_function (remove_cvref t)" "decay t = remove_cvref t"
  by (cases "is_array (remove_cvref t)"; cases "is_function (remove_cvref t)")
    (simp_all add: decay_def conditional_def Let_def)

lemma decay_pointer: "decay (plain (BPtr u)) = plain (BPtr u)"
  by (simp add: decay_def conditional_def remove_cvref_def remove_reference_def remove_cv_id is_array_def
      is_function_def)

text \<open>
  C40: Decay takes the reference and the qualifiers off, and gives of an array the pointer to its
  elements, of a function that may throw the pointer to it, and else what is left. The result is
  well formed, no reference, no array and no function that may throw, has no qualifier, and
  stays as it is under a further decay.
\<close>

theorem decay_normalises:
  assumes "wf_ty t"
  shows "decay t = (case base_of (remove_cvref t) of
       BArr w n \<Rightarrow> plain (BPtr w)
     | BFun r ps va False \<Rightarrow> plain (BPtr (remove_cvref t))
     | _ \<Rightarrow> remove_cvref t)
    \<and> wf_ty (decay t) \<and> \<not> is_reference (decay t) \<and> \<not> is_array (decay t) \<and> \<not> is_function (decay t)
    \<and> \<not> is_const (decay t) \<and> \<not> is_volatile (decay t) \<and> decay (decay t) = decay t"
proof -
  note u = remove_cvref_normal [OF assms]
  have shape: "decay t = (case base_of (remove_cvref t) of BArr w n \<Rightarrow> plain (BPtr w)
     | BFun r ps va False \<Rightarrow> plain (BPtr (remove_cvref t)) | _ \<Rightarrow> remove_cvref t)"
    using u(2) by (cases rule: decay_cases [of t])
      (auto simp: is_array_def remove_extent_def is_function_def add_pointer_def remove_reference_id
        split: cbase.splits bool.splits)
  let ?normal = "wf_ty (decay t) \<and> \<not> is_reference (decay t) \<and> \<not> is_array (decay t) \<and> \<not> is_function (decay t)
    \<and> \<not> is_const (decay t) \<and> \<not> is_volatile (decay t) \<and> decay (decay t) = decay t"
  have ptr: ?normal if "decay t = plain (BPtr w)" "wf_ty w" "\<not> is_refb (base_of w)" for w
    using that by (simp add: decay_pointer is_const_def is_volatile_def is_reference_def
        is_lvalue_reference_def is_rvalue_reference_def is_array_def is_function_def)
  have ?normal
  proof (cases rule: decay_cases [of t])
    case 1
    with ptr wf_element [OF u(1)] show ?thesis by simp
  next
    case 2
    with ptr u(1,2) show ?thesis by (simp add: add_pointer_def remove_reference_id)
  next
    case 3
    have "decay (remove_cvref t) = remove_cvref t"
      using 3(1,2) u remove_cv_id [OF u(3,4)]
      by (simp add: decay_def conditional_def remove_cvref_def [of "remove_cvref t"] remove_reference_id)
    with 3 u show ?thesis by (simp add: is_const_def is_volatile_def reference_iff)
  qed
  with shape show ?thesis by blast
qed

text \<open>A reference to an array of three constant characters.\<close>

theorem decay_normalises_witness:
  "decay (plain (BLRef (plain (BArr (Cty True False (BArith TChar)) (Some 3)))))
     = plain (BPtr (plain (BArith TChar)))
   \<and> wf_ty (decay (plain (BLRef (plain (BArr (Cty True False (BArith TChar)) (Some 3))))))"
proof -
  let ?t = "plain (BLRef (plain (BArr (Cty True False (BArith TChar)) (Some 3))))"
  have wf: "wf_ty ?t" by simp
  have "remove_cvref ?t = plain (BArr (plain (BArith TChar)) (Some 3))"
    by (simp add: remove_cvref_def remove_reference_def remove_cv_def remove_const_def remove_volatile_def)
  then show ?thesis using decay_normalises [OF wf] by simp
qed

text \<open>
  The qualifiers go first, so an array of constants decays to a pointer to elements that can be
  written; and a function that may not throw does not decay at all.
\<close>

lemma decay_array: "base_of (remove_reference t) = BArr u n \<Longrightarrow> wf_ty t \<Longrightarrow> decay t = plain (BPtr (remove_cv u))"
  using remove_reference_wf [of t] remove_cv_array [of u n]
  by (cases "remove_reference t")
    (auto simp: decay_def conditional_def remove_cvref_def is_array_def remove_extent_def)

lemma decay_drops_const:
  "decay (plain (BLRef (plain (BArr (Cty True False (BArith TChar)) n)))) = plain (BPtr (plain (BArith TChar)))"
  by (simp add: decay_array remove_reference_def remove_cv_def remove_const_def remove_volatile_def)

lemma decay_noexcept: "decay (plain (BFun r ps va True)) = plain (BFun r ps va True)"
  by (simp add: decay_def conditional_def remove_cvref_def remove_reference_def remove_cv_id is_array_def
      is_function_def)

subsection \<open>Integers\<close>

text \<open>Every integral type is either signed or unsigned, \<^verbatim>\<open>bool\<close> unsigned.\<close>

lemma signed_or_unsigned:
  "k \<in> set integral_types \<Longrightarrow> \<exists>b. is_signed (plain (BArith k)) = Some b \<and> is_unsigned (plain (BArith k)) = Some (\<not> b)"
  by (auto simp: integral_types_def is_signed_def is_unsigned_def signed_test_def is_integral_def cast_to_def
      mask_eq_exp_minus_1)

lemma index_sequence: "make_index_sequence_impl n is = [0..<n] @ is"
  by (induction n arbitrary: "is") simp_all

lemma make_index_sequence_upt: "make_index_sequence n = [0..<n]"
  by (simp add: make_index_sequence_def index_sequence)

subsection \<open>Forwarding keeps what it is given\<close>

lemma forward_keeps:
  assumes "\<not> is_refb (base_of u)" and "base_of u \<noteq> BVoid"
  shows "forward_type (deduce lvalue u) False = Some (plain (if lvalue then BLRef u else BRRef u))"
    and "move_type (deduce lvalue u) = Some (plain (BRRef u))"
  using assms
  by (cases "base_of u"; simp add: forward_type_def move_type_def deduce_def add_rvalue_reference_def
      remove_reference_def)+

lemma ktl_swap_exchanges: "ktl_swap moved a b s = s(a := s b, b := s a)" if "a \<noteq> b"
  using that by (auto simp: ktl_swap_def Let_def fun_eq_iff)

lemma ktl_swap_self: "ktl_swap moved a a s = s"
  by (auto simp: ktl_swap_def Let_def fun_eq_iff)

end
