(* ===== verification/Tuple.thy ===== *)
theory Tuple
  imports TypeTraits Slice
begin

text \<open>
  \<^verbatim>\<open>ktl/tuple\<close> and \<^verbatim>\<open>ktl/initializer_list\<close>. A tuple is its head and the tuple of the rest; a value
  of the datatype carries the values of the components, the list of types is beside it. An index
  past the end has no \<^verbatim>\<open>TupleElement\<close>, and the use does not compile: \<open>None\<close>.
\<close>

subsection \<open>Tuples\<close>

datatype 'v tuple = TupleEnd | TupleNode (tuple_value: 'v) (tuple_rest: "'v tuple")

fun tuple_element :: "nat \<Rightarrow> cty list \<Rightarrow> cty option" where
  "tuple_element 0 (head # tail) = Some head"
| "tuple_element (Suc i) (head # tail) = tuple_element i tail"
| "tuple_element i [] = None"

text \<open>\<open>get\<close> returns a reference: what is read through it, and what a write through it does.\<close>

fun tuple_get :: "nat \<Rightarrow> 'v tuple \<Rightarrow> 'v option" where
  "tuple_get 0 (TupleNode v r) = Some v"
| "tuple_get (Suc i) (TupleNode v r) = tuple_get i r"
| "tuple_get i TupleEnd = None"

fun tuple_put :: "nat \<Rightarrow> 'v \<Rightarrow> 'v tuple \<Rightarrow> 'v tuple option" where
  "tuple_put 0 w (TupleNode v r) = Some (TupleNode w r)"
| "tuple_put (Suc i) w (TupleNode v r) = map_option (TupleNode v) (tuple_put i w r)"
| "tuple_put i w TupleEnd = None"

definition tuple_size :: "cty list \<Rightarrow> nat" where
  "tuple_size ts = length ts"

text \<open>The constructor forwards each argument to its component.\<close>

fun tuple_of :: "'v list \<Rightarrow> 'v tuple" where
  "tuple_of [] = TupleEnd"
| "tuple_of (v # vs) = TupleNode v (tuple_of vs)"

text \<open>
  \<open>make_tuple\<close> instantiates the tuple with the types it deduces for its arguments, each an lvalue
  or an rvalue of a type.
\<close>

definition make_tuple_types :: "(bool \<times> cty) list \<Rightarrow> cty list" where
  "make_tuple_types ps = map (\<lambda>(lvalue, u). deduce lvalue u) ps"

subsection \<open>Initializer lists\<close>

record initializer_list =
  il_data :: addr
  il_count :: usize

definition il_empty :: initializer_list where
  "il_empty = \<lparr>il_data = nullptr, il_count = 0\<rparr>"

definition make_initializer_list :: "addr \<Rightarrow> usize \<Rightarrow> initializer_list" where
  "make_initializer_list p sz = \<lparr>il_data = p, il_count = sz\<rparr>"

text \<open>\<open>w\<close> is the size of an element.\<close>

definition il_begin :: "initializer_list \<Rightarrow> addr" where
  "il_begin l = il_data l"

definition il_end :: "u64 \<Rightarrow> initializer_list \<Rightarrow> addr" where
  "il_end w l = il_data l + il_count l * w"

definition il_size :: "initializer_list \<Rightarrow> usize" where
  "il_size l = il_count l"

subsection \<open>Components\<close>

lemma tuple_element_nth: "tuple_element i ts = (if i < tuple_size ts then Some (ts ! i) else None)"
  by (induction i ts rule: tuple_element.induct) (auto simp: tuple_size_def)

lemma tuple_get_of: "tuple_get i (tuple_of vs) = (if i < length vs then Some (vs ! i) else None)"
proof (induction vs arbitrary: i)
  case (Cons v vs)
  then show ?case by (cases i) auto
qed simp

lemma tuple_put_of: "tuple_put i w (tuple_of vs) = (if i < length vs then Some (tuple_of (vs[i := w])) else None)"
proof (induction vs arbitrary: i)
  case (Cons v vs)
  then show ?case by (cases i) auto
qed simp

text \<open>A write through \<open>get\<close> is read back, and no other component changes.\<close>

lemma tuple_get_put: "tuple_put i w t = Some t' \<Longrightarrow> tuple_get j t' = (if j = i then Some w else tuple_get j t)"
proof (induction i w t arbitrary: j t' rule: tuple_put.induct)
  case (1 w v r)
  then show ?case by (cases j) auto
next
  case (2 i w v r)
  then show ?case by (cases j) auto
qed simp

text \<open>
  An lvalue argument of \<open>make_tuple\<close> makes a component that is a reference to the argument, and
  \<open>get\<close> gives that reference.
\<close>

lemma make_tuple_lvalue:
  "i < length ps \<Longrightarrow> ps ! i = (True, u) \<Longrightarrow> tuple_element i (make_tuple_types ps) = Some (plain (BLRef u))"
  by (simp add: tuple_element_nth tuple_size_def make_tuple_types_def deduce_def)

text \<open>
  An initializer list and the slice made of it have the same ends; from \<open>begin\<close> the elements lie
  one behind the other up to \<open>end\<close>.
\<close>

lemma il_slice:
  "\<exists>s. sl_of_list dynamic_extent (il_begin l) (il_size l) = Some s \<and> sl_data s = il_begin l \<and> sl_end w s = il_end w l"
  by (simp add: sl_of_list_def sl_end_def il_begin_def il_end_def il_size_def)

lemma il_elements:
  assumes "elems_at rd w p xs" and "length xs < 2 ^ 64"
  shows "\<exists>s. sl_of_list dynamic_extent (il_begin (make_initializer_list p (of_nat (length xs))))
      (il_size (make_initializer_list p (of_nat (length xs)))) = Some s \<and> sl_elems rd w s xs"
  using assms by (simp add: sl_elems_def sl_of_list_def il_begin_def il_size_def make_initializer_list_def unat_of_nat)

end
