(* ===== verification/TypeConv.thy ===== *)
theory TypeConv
  imports TypeTraits Slice
begin

text \<open>
  The traits of \<^verbatim>\<open>ktl/type_traits\<close> that ask what the language does with values of a type:
  \<^verbatim>\<open>is_convertible\<close> and the three for \<^verbatim>\<open>noexcept\<close>; and what they decide for \<^verbatim>\<open>ktl/slice\<close>, whose
  conversions ask whether a pointer to an array of the one element type converts to a pointer to
  an array of the other, and for the constructors of \<^verbatim>\<open>ktl/optional\<close> and \<^verbatim>\<open>ktl/pair\<close> that convert.

  The conversions between arithmetic types and pointers are those of the language. What a class
  converts to, and how references bind, is a parameter, for the classes are those of the clients.
\<close>

subsection \<open>Conversions of the language\<close>

fun is_classb :: "cbase \<Rightarrow> bool" where
  "is_classb (BClass nm ts) = True"
| "is_classb _ = False"

text \<open>
  What an expression of a type is as a value, and what a parameter of a type is: an array is a
  pointer to its first element, a function a pointer to it, and qualifiers of the value are gone.
\<close>

definition value_type :: "cty \<Rightarrow> cty" where
  "value_type t = (case base_of t of
     BArr u n \<Rightarrow> plain (BPtr u)
   | BFun r ps va nx \<Rightarrow> plain (BPtr t)
   | b \<Rightarrow> plain b)"

text \<open>
  Qualification conversion of what a pointer points to. A qualifier can be added, under the first
  pointer only where every pointer on the way to it becomes constant (\<open>k\<close>); so can the bound of
  an array be lost.
\<close>

function qual_conv :: "bool \<Rightarrow> cty \<Rightarrow> cty \<Rightarrow> bool" where
  "qual_conv k t u =
     ((is_c t \<longrightarrow> is_c u) \<and> (is_v t \<longrightarrow> is_v u) \<and> (k \<or> is_c t = is_c u \<and> is_v t = is_v u)
      \<and> (case base_of t of
           BPtr t' \<Rightarrow> (case base_of u of BPtr u' \<Rightarrow> qual_conv (k \<and> is_c u) t' u' | _ \<Rightarrow> False)
         | BArr t' n \<Rightarrow> (case base_of u of
             BArr u' m \<Rightarrow> (n = m \<or> m = None \<and> k) \<and> qual_conv k t' u' | _ \<Rightarrow> False)
         | b \<Rightarrow> b = base_of u))"
  by pat_completeness auto
termination
proof (relation "measure (\<lambda>(k, t, u). size t)")
  show "((k \<and> is_c u, t', u'), k, t, u) \<in> measure (\<lambda>(k, t, u). size t)" if "base_of t = BPtr t'"
    for k :: bool and t u t' u' :: cty
    using that by (cases t) simp
  show "((k, t', u'), k, t, u) \<in> measure (\<lambda>(k, t, u). size t)" if "base_of t = BArr t' n"
    for k :: bool and t u t' u' :: cty and n
    using that by (cases t) simp
qed simp

declare qual_conv.simps [simp del]

text \<open>A pointer converts by its target's qualifiers, to a pointer to \<^verbatim>\<open>void\<close>, or by losing \<^verbatim>\<open>noexcept\<close>.\<close>

definition pointer_conv :: "cty \<Rightarrow> cty \<Rightarrow> bool" where
  "pointer_conv t u =
     (qual_conv True t u
      \<or> base_of u = BVoid \<and> \<not> is_funb (base_of t) \<and> (top_const t \<longrightarrow> is_c u) \<and> (top_volatile t \<longrightarrow> is_v u)
      \<or> (case (base_of t, base_of u) of
           (BFun r ps va True, BFun r' ps' va' False) \<Rightarrow> r = r' \<and> ps = ps' \<and> va = va'
         | _ \<Rightarrow> False))"

definition std_conv :: "cty \<Rightarrow> cty \<Rightarrow> bool" where
  "std_conv t u = (case (base_of t, base_of u) of
     (BArith k, BArith l) \<Rightarrow> True
   | (BPtr a, BArith k) \<Rightarrow> k = TBool
   | (BPtr a, BPtr b) \<Rightarrow> pointer_conv a b
   | (BNullptr, BPtr b) \<Rightarrow> True
   | (BNullptr, BNullptr) \<Rightarrow> True
   | _ \<Rightarrow> False)"

text \<open>
  \<open>user\<close> decides for classes and references, and whether a pointer to a class converts to a pointer
  to another one, which has to be its base; its first argument tells an lvalue.
\<close>

definition class_pointers :: "cty \<Rightarrow> cty \<Rightarrow> bool" where
  "class_pointers t p = (case (base_of t, base_of p) of
     (BPtr a, BPtr b) \<Rightarrow> is_classb (base_of a) \<and> is_classb (base_of b) \<and> base_of a \<noteq> base_of b
   | _ \<Rightarrow> False)"

definition implicit_conv :: "(bool \<Rightarrow> cty \<Rightarrow> cty \<Rightarrow> bool) \<Rightarrow> bool \<Rightarrow> cty \<Rightarrow> cty \<Rightarrow> bool" where
  "implicit_conv user lvalue t p =
     (if is_classb (base_of t) \<or> is_classb (base_of p) \<or> is_refb (base_of p) \<or> class_pointers (value_type t) p
      then user lvalue t p
      else std_conv (value_type t) p)"

subsection \<open>The traits\<close>

text \<open>
  \<^verbatim>\<open>test(declval<From>())\<close> takes the overload with a parameter of type \<open>To\<close> when the argument
  converts to it. Neither type can be \<^verbatim>\<open>void\<close>: there is no parameter of that type and no reference
  to it, and the instantiation is refused. Both are types that exist (\<open>wf_ty\<close>): a pointer to an
  array of \<^verbatim>\<open>void\<close>, of references or of functions is refused before the trait is asked.
\<close>

definition is_convertible :: "(bool \<Rightarrow> cty \<Rightarrow> cty \<Rightarrow> bool) \<Rightarrow> cty \<Rightarrow> cty \<Rightarrow> bool option" where
  "is_convertible user from to_type = do {
     f \<leftarrow> add_rvalue_reference from;
     if base_of to_type = BVoid then None
     else Some (implicit_conv user (is_lvalue_reference f) (remove_reference f) (value_type to_type))
   }"

text \<open>
  \<^verbatim>\<open>T(declval<T>())\<close>, and the assignment of a \<open>T\<close> to a \<open>T\<close>. \<open>cls\<close> decides for classes, and for the
  arrays whose first element the argument could initialise: whether the expression compiles and
  what it promises.
\<close>

definition is_nothrow_move_constructible :: "(cty \<Rightarrow> bool option) \<Rightarrow> cty \<Rightarrow> bool option" where
  "is_nothrow_move_constructible cls t = do {
     f \<leftarrow> add_rvalue_reference t;
     case base_of t of
       BClass nm ts \<Rightarrow> cls t
     | BArr u n \<Rightarrow> cls t
     | BFun r ps va nx \<Rightarrow> None
     | _ \<Rightarrow> Some True
   }"

definition is_nothrow_move_assignable :: "(cty \<Rightarrow> bool option) \<Rightarrow> cty \<Rightarrow> bool option" where
  "is_nothrow_move_assignable cls t = do {
     f \<leftarrow> add_lvalue_reference t;
     let u = remove_reference f;
     case base_of u of
       BClass nm ts \<Rightarrow> cls u
     | BArr w n \<Rightarrow> None
     | BFun r ps va nx \<Rightarrow> None
     | _ \<Rightarrow> if is_c u then None else Some True
   }"

text \<open>
  \<^verbatim>\<open>swap(declval<T&>(), declval<T&>())\<close> names no function declared before it, \<^verbatim>\<open>ktl::swap\<close> comes at
  the end of the file; so the function is looked for where the classes of the argument are. These
  are the classes in its type.
\<close>

fun classes_of :: "cty \<Rightarrow> string list" and classes_of_base :: "cbase \<Rightarrow> string list" where
  "classes_of (Cty c v b) = classes_of_base b"
| "classes_of_base (BClass nm ts) = nm # concat (map classes_of ts)"
| "classes_of_base (BPtr t) = classes_of t"
| "classes_of_base (BLRef t) = classes_of t"
| "classes_of_base (BRRef t) = classes_of t"
| "classes_of_base (BArr t n) = classes_of t"
| "classes_of_base (BFun r ps va nx) = classes_of r @ concat (map classes_of ps)"
| "classes_of_base _ = []"

definition is_nothrow_swappable :: "(cty \<Rightarrow> bool option) \<Rightarrow> cty \<Rightarrow> bool option" where
  "is_nothrow_swappable cls t = do {
     f \<leftarrow> add_lvalue_reference t;
     if classes_of t = [] then None else cls t
   }"

text \<open>What \<^verbatim>\<open>optional<T>::swap\<close> promises: both traits are instantiated.\<close>

definition optional_swap_noexcept :: "(cty \<Rightarrow> bool option) \<Rightarrow> (cty \<Rightarrow> bool option) \<Rightarrow> cty \<Rightarrow> bool option" where
  "optional_swap_noexcept mv sw t = do {
     a \<leftarrow> is_nothrow_move_constructible mv t;
     b \<leftarrow> is_nothrow_swappable sw t;
     Some (a \<and> b)
   }"

text \<open>What the move constructor and the move assignment promise.\<close>

definition optional_move_noexcept :: "(cty \<Rightarrow> bool option) \<Rightarrow> cty \<Rightarrow> bool option" where
  "optional_move_noexcept mv t = is_nothrow_move_constructible mv t"

definition optional_assign_noexcept ::
  "(cty \<Rightarrow> bool option) \<Rightarrow> (cty \<Rightarrow> bool option) \<Rightarrow> cty \<Rightarrow> bool option"
where
  "optional_assign_noexcept mv as t = do {
     a \<leftarrow> is_nothrow_move_constructible mv t;
     b \<leftarrow> is_nothrow_move_assignable as t;
     Some (a \<and> b)
   }"

subsection \<open>The constructors that convert\<close>

text \<open>
  \<^verbatim>\<open>optional<T>\<close> takes a value as \<^verbatim>\<open>U&&\<close>, in its constructor and in its assignment, unless that is an
  \<^verbatim>\<open>optional<T>\<close> itself. \<open>u\<close> is what \<open>U\<close> is deduced as.
\<close>

definition optional_accepts :: "(bool \<Rightarrow> cty \<Rightarrow> cty \<Rightarrow> bool) \<Rightarrow> cty \<Rightarrow> cty \<Rightarrow> bool option" where
  "optional_accepts user t u = do {
     r \<leftarrow> add_rvalue_reference u;
     c \<leftarrow> is_convertible user r t;
     Some (\<not> is_same (remove_cvref u) (plain (BClass ''optional'' [t])) \<and> c)
   }"

text \<open>\<^verbatim>\<open>pair<T1, T2>\<close> takes two values as \<^verbatim>\<open>U1&&\<close> and \<^verbatim>\<open>U2&&\<close>, or a pair of a \<open>u1\<close> and a \<open>u2\<close>.\<close>

definition pair_accepts :: "(bool \<Rightarrow> cty \<Rightarrow> cty \<Rightarrow> bool) \<Rightarrow> cty \<times> cty \<Rightarrow> cty \<Rightarrow> cty \<Rightarrow> bool option" where
  "pair_accepts user = (\<lambda>(t1, t2) u1 u2. do {
     r1 \<leftarrow> add_rvalue_reference u1;
     r2 \<leftarrow> add_rvalue_reference u2;
     a \<leftarrow> is_convertible user r1 t1;
     b \<leftarrow> is_convertible user r2 t2;
     Some (a \<and> b)
   })"

text \<open>\<^verbatim>\<open>const T\<close>: of an array the elements, and nothing for references and functions.\<close>

fun add_const :: "cty \<Rightarrow> cty" where
  "add_const (Cty c v (BArr t n)) = Cty c v (BArr (add_const t) n)"
| "add_const (Cty c v b) = (if is_refb b \<or> is_funb b then Cty c v b else Cty True v b)"

definition pair_converts :: "(bool \<Rightarrow> cty \<Rightarrow> cty \<Rightarrow> bool) \<Rightarrow> cty \<times> cty \<Rightarrow> cty \<times> cty \<Rightarrow> bool option" where
  "pair_converts user = (\<lambda>(t1, t2) (u1, u2). do {
     r1 \<leftarrow> add_lvalue_reference (add_const u1);
     r2 \<leftarrow> add_lvalue_reference (add_const u2);
     a \<leftarrow> is_convertible user r1 t1;
     b \<leftarrow> is_convertible user r2 t2;
     Some (a \<and> b)
   })"

text \<open>The pair \<^verbatim>\<open>make_pair\<close> makes of two arguments, each an lvalue or an rvalue of a type.\<close>

definition make_pair_types :: "bool \<times> cty \<Rightarrow> bool \<times> cty \<Rightarrow> cty \<times> cty" where
  "make_pair_types = (\<lambda>(l1, u1) (l2, u2). (deduce l1 u1, deduce l2 u2))"

subsection \<open>The conversions of slices\<close>

text \<open>\<^verbatim>\<open>is_convertible_v<U (*)[], T (*)[]>\<close>.\<close>

definition slice_types_convert :: "(bool \<Rightarrow> cty \<Rightarrow> cty \<Rightarrow> bool) \<Rightarrow> cty \<Rightarrow> cty \<Rightarrow> bool option" where
  "slice_types_convert user from to_type =
     is_convertible user (plain (BPtr (plain (BArr from None)))) (plain (BPtr (plain (BArr to_type None))))"

text \<open>\<^verbatim>\<open>c_str\<close> and \<^verbatim>\<open>as_writable_bytes\<close> are there for the element types that meet their conditions.\<close>

definition sl_c_str :: "cty \<Rightarrow> slice \<Rightarrow> addr option" where
  "sl_c_str t s =
     (if is_same t (plain (BArith TChar)) \<or> is_same t (Cty True False (BArith TChar))
      then Some (sl_data s) else None)"

definition sl_as_writable_bytes :: "cty \<Rightarrow> u64 \<Rightarrow> slice \<Rightarrow> slice option" where
  "sl_as_writable_bytes t w s = (if \<not> is_const t then Some (sl_as_bytes w s) else None)"

subsection \<open>What they decide\<close>

text \<open>Without a class in them optional values have no \<^verbatim>\<open>swap\<close> that compiles.\<close>

lemma optional_swap_refused: "classes_of t = [] \<Longrightarrow> optional_swap_noexcept mv sw t = None"
  by (auto simp: optional_swap_noexcept_def is_nothrow_swappable_def split: bind_splits)

lemma convertible_void: "is_convertible user t (plain BVoid) = None" "is_convertible user (plain BVoid) t = None"
  by (auto simp: is_convertible_def add_rvalue_reference_def split: bind_splits)

text \<open>
  An arithmetic value converts to every arithmetic type, also where it loses its value; a pointer
  to \<^verbatim>\<open>bool\<close>.
\<close>

lemma convertible_arith:
  "is_convertible user (deduce l (Cty c v (BArith j))) (Cty c' v' (BArith k)) = Some True"
  "is_convertible user (deduce l (Cty c v (BPtr u))) (Cty c' v' (BArith k)) = Some (k = TBool)"
  by (cases l; simp add: is_convertible_def deduce_def add_rvalue_reference_def remove_reference_def
      implicit_conv_def class_pointers_def value_type_def std_conv_def)+

lemma convertible_forwarded:
  "add_rvalue_reference u = Some r \<Longrightarrow> is_convertible user r t = is_convertible user u t"
  by (cases u) (auto simp: is_convertible_def add_rvalue_reference_def split: cbase.splits)

lemma optional_accepts_eq:
  "optional_accepts user t u = map_option (\<lambda>c. \<not> is_same (remove_cvref u) (plain (BClass ''optional'' [t])) \<and> c)
     (is_convertible user u t)"
proof (cases "add_rvalue_reference u")
  case None
  then show ?thesis by (simp add: optional_accepts_def is_convertible_def)
next
  case (Some r)
  then show ?thesis
    by (cases "is_convertible user u t") (simp_all add: optional_accepts_def convertible_forwarded)
qed

text \<open>
  What \<open>allocate\<close> returns: a physical address and a pointer, both lvalues, for a pair of an
  address and a pointer to \<^verbatim>\<open>void\<close>; and \<open>0\<close> with a null pointer in \<open>tryAllocate\<close>.
\<close>

lemma allocate_pair:
  "pair_accepts user (plain (BArith TULong), plain (BPtr (plain BVoid)))
     (deduce True (plain (BArith TULong))) (deduce True (plain (BPtr (plain BVoid)))) = Some True"
  "pair_accepts user (plain (BArith TULong), plain (BPtr (plain BVoid)))
     (deduce False (plain (BArith TInt))) (deduce False (plain BNullptr)) = Some True"
  by (simp_all add: pair_accepts_def is_convertible_def deduce_def add_rvalue_reference_def
      remove_reference_def implicit_conv_def class_pointers_def value_type_def std_conv_def pointer_conv_def)

text \<open>A pointer to a class converts to a pointer to another one exactly when the classes say so.\<close>

lemma convertible_class_pointers:
  "m \<noteq> m' \<Longrightarrow> is_convertible user (plain (BPtr (plain (BClass m ts)))) (plain (BPtr (plain (BClass m' ts'))))
    = Some (user False (plain (BPtr (plain (BClass m ts)))) (plain (BPtr (plain (BClass m' ts')))))"
  by (simp add: is_convertible_def add_rvalue_reference_def remove_reference_def implicit_conv_def
      class_pointers_def value_type_def is_lvalue_reference_def)

text \<open>A pair made of variables is one of references to them.\<close>

lemma make_pair_lvalue: "make_pair_types (True, t) (True, u) = (plain (BLRef t), plain (BLRef u))"
  by (simp add: make_pair_types_def deduce_def)

lemma slice_types_convert_iff: "slice_types_convert user t u = Some (qual_conv True t u)"
proof -
  have "qual_conv True (plain (BArr t None)) (plain (BArr u None)) = qual_conv True t u"
    by (subst qual_conv.simps) simp
  then show ?thesis
    by (simp add: slice_types_convert_def is_convertible_def add_rvalue_reference_def remove_reference_def
        implicit_conv_def class_pointers_def value_type_def std_conv_def pointer_conv_def)
qed

subsection \<open>Qualifiers are only added\<close>

text \<open>
  The levels of a type from the outside in: the qualifiers of a pointer or of the innermost type,
  the bound of an array. What a conversion may do to a level, and whether the level is one no
  value can be stored to.
\<close>

datatype level = Quals bool bool | Bound "nat option"

fun levels :: "cty \<Rightarrow> level list" where
  "levels (Cty c v (BPtr t)) = Quals c v # levels t"
| "levels (Cty c v (BArr t n)) = Bound n # levels t"
| "levels (Cty c v b) = [Quals c v]"

fun innermost :: "cty \<Rightarrow> cbase" where
  "innermost (Cty c v (BPtr t)) = innermost t"
| "innermost (Cty c v (BArr t n)) = innermost t"
| "innermost (Cty c v b) = b"

fun grows :: "level \<Rightarrow> level \<Rightarrow> bool" where
  "grows (Quals c v) (Quals c' v') = ((c \<longrightarrow> c') \<and> (v \<longrightarrow> v'))"
| "grows (Bound n) (Bound m) = (n = m \<or> m = None)"
| "grows _ _ = False"

fun fixed :: "level \<Rightarrow> bool" where
  "fixed (Quals c v) = c"
| "fixed (Bound n) = True"

definition guarded :: "bool \<Rightarrow> level list \<Rightarrow> level list \<Rightarrow> bool" where
  "guarded k xs ys \<longleftrightarrow> list_all2 grows xs ys
     \<and> (\<forall>i < length xs. xs ! i \<noteq> ys ! i \<longrightarrow> k \<and> (\<forall>j < i. fixed (ys ! j)))"

lemma guarded_Cons:
  "guarded k (x # xs) (y # ys) \<longleftrightarrow> grows x y \<and> (x = y \<or> k) \<and> guarded (k \<and> fixed y) xs ys"
  by (auto simp: guarded_def All_less_Suc2)

lemma guarded_Nil [simp]: "guarded k [] ys \<longleftrightarrow> ys = []" "guarded k xs [] \<longleftrightarrow> xs = []"
  by (auto simp: guarded_def)

lemma levels_not_Nil [simp]: "levels t \<noteq> []"
  by (induction t rule: levels.induct) simp_all

text \<open>One step of the conversion, by what the two types are.\<close>

fun same_kind :: "cbase \<Rightarrow> cbase \<Rightarrow> bool" where
  "same_kind (BPtr t) (BPtr u) = True"
| "same_kind (BArr t n) (BArr u m) = True"
| "same_kind a b = (a = b)"

lemma qual_conv_step:
  "qual_conv k (Cty c v (BPtr t)) (Cty c' v' (BPtr u)) \<longleftrightarrow>
     (c \<longrightarrow> c') \<and> (v \<longrightarrow> v') \<and> (k \<or> c = c' \<and> v = v') \<and> qual_conv (k \<and> c') t u"
  "qual_conv k (Cty c v (BArr t n)) (Cty c' v' (BArr u m)) \<longleftrightarrow>
     (c \<longrightarrow> c') \<and> (v \<longrightarrow> v') \<and> (k \<or> c = c' \<and> v = v') \<and> (n = m \<or> m = None \<and> k) \<and> qual_conv k t u"
  by (subst qual_conv.simps; simp)+

lemma qual_conv_kinds: "qual_conv k (Cty c v a) (Cty c' v' b) \<Longrightarrow> same_kind a b"
  by (subst (asm) qual_conv.simps) (cases a; cases b; simp)

lemma qual_conv_base: "levels (Cty c v a) = [Quals c v] \<Longrightarrow>
    qual_conv k (Cty c v a) (Cty c' v' a) \<longleftrightarrow> (c \<longrightarrow> c') \<and> (v \<longrightarrow> v') \<and> (k \<or> c = c' \<and> v = v')"
  by (subst qual_conv.simps) (cases a; auto)

lemma guarded_kinds:
  "\<not> same_kind a b \<Longrightarrow> guarded k (levels (Cty c v a)) (levels (Cty c' v' b))
    \<Longrightarrow> innermost (Cty c v a) \<noteq> innermost (Cty c' v' b)"
  by (cases a; cases b; simp add: guarded_Cons)

lemma qual_conv_guarded:
  "wf_ty t \<Longrightarrow> wf_ty u \<Longrightarrow> qual_conv k t u \<longleftrightarrow> innermost t = innermost u \<and> guarded k (levels t) (levels u)"
proof (induction k t u rule: qual_conv.induct)
  case (1 k t u)
  obtain c v a c' v' b where tu: "t = Cty c v a" "u = Cty c' v' b" by (cases t; cases u)
  show ?case
  proof (cases "same_kind a b")
    case True
    then consider s s' where "a = BPtr s" "b = BPtr s'" | s n s' m where "a = BArr s n" "b = BArr s' m"
      | "a = b" "levels (Cty c v a) = [Quals c v]" "levels (Cty c' v' a) = [Quals c' v']"
        "innermost (Cty c v a) = a" "innermost (Cty c' v' a) = a"
      by (cases a; cases b; auto)
    then show ?thesis
    proof cases
      case 1
      with "1.IH"(1) [of s s'] "1.prems" show ?thesis
        by (auto simp: tu qual_conv_step guarded_Cons)
    next
      case 2
      with "1.IH"(2) [of s n s' m] "1.prems" show ?thesis
        by (auto simp: tu qual_conv_step guarded_Cons)
    next
      case 3
      then show ?thesis by (auto simp: tu qual_conv_base guarded_Cons)
    qed
  next
    case False
    then show ?thesis using qual_conv_kinds guarded_kinds by (auto simp: tu simp del: levels.simps innermost.simps)
  qed
qed

text \<open>
  C39: A slice of one element type converts to a slice of another exactly when the types differ in
  qualifiers and lost array bounds alone, each level of the new type has the qualifiers the old
  one has there, and where a level below the first changes no level above it can be stored to.
  So a slice of constants never becomes a slice of anything that can be written.
\<close>

theorem slice_conversion_adds_qualifiers:
  assumes "wf_ty t" and "wf_ty u"
  shows "slice_types_convert user t u = Some (innermost t = innermost u
    \<and> list_all2 grows (levels t) (levels u)
    \<and> (\<forall>i < length (levels t). levels t ! i \<noteq> levels u ! i \<longrightarrow> (\<forall>j < i. fixed (levels u ! j))))"
  using qual_conv_guarded [OF assms, of True] by (simp add: slice_types_convert_iff guarded_def)

text \<open>Pointers to characters, to pointers to constant characters: not without a constant pointer.\<close>

theorem slice_conversion_adds_qualifiers_witness:
  "slice_types_convert (\<lambda>l t u. False) (plain (BPtr (plain (BArith TChar))))
      (Cty True False (BPtr (Cty True False (BArith TChar)))) = Some True
    \<and> slice_types_convert (\<lambda>l t u. False) (plain (BPtr (plain (BArith TChar))))
      (plain (BPtr (Cty True False (BArith TChar)))) = Some False"
  using slice_conversion_adds_qualifiers [of "plain (BPtr (plain (BArith TChar)))"
      "Cty True False (BPtr (Cty True False (BArith TChar)))" "\<lambda>l t u. False"]
    slice_conversion_adds_qualifiers [of "plain (BPtr (plain (BArith TChar)))"
      "plain (BPtr (Cty True False (BArith TChar)))" "\<lambda>l t u. False"]
  by (simp add: All_less_Suc2)

end
