(* ===== verification/Spec2Isabelle.thy ===== *)
theory Spec2Isabelle
  imports StrMem StrFun StrTok Ctype NumConv Serial Format PmmProps Idt Gdt PmmBoot EfiMap
    AutoLock CallOnce Optional Pair Boot Assert Panic Stub DebugLog PmmStart PortIo Tuple TypeConv
begin

text \<open>
  A verification library for the Yerp kernel (\<^verbatim>\<open>src/kernel/Source\<close>): a small x86-64 kernel
  started by the Limine boot loader. Paths below are relative to that directory.

  \<^bold>\<open>The program.\<close> \<^verbatim>\<open>core/_start.cc\<close> is the entry point. It programs two serial ports
  (\<^verbatim>\<open>arch/serial.hh\<close> over \<^verbatim>\<open>arch/io.hh\<close>), prints through the formatter (\<^verbatim>\<open>core/format.hh\<close>) and
  halts. The interrupt descriptor table (\<^verbatim>\<open>arch/idt.hh\<close>) leads through assembly stubs
  (\<^verbatim>\<open>arch/idt.S\<close>) to a table of handlers, whose default is a panic that prints and halts; the
  global descriptor table and task state segment are in \<^verbatim>\<open>arch/gdt.hh\<close>. The physical memory
  manager (\<^verbatim>\<open>core/pmm.hh\<close>) builds its free list from the boot loader's memory map
  (\<^verbatim>\<open>core/limine.hh\<close>); \<^verbatim>\<open>arch/efi.hh\<close> wraps the firmware. \<^verbatim>\<open>util/string.c\<close> is the C library,
  \<^verbatim>\<open>ktl\<close> the template library. At this commit the bodies of \<^verbatim>\<open>limine.hh\<close>, \<^verbatim>\<open>efi.hh\<close> and
  \<^verbatim>\<open>pmm.hh\<close> are inside \<^verbatim>\<open>#if 0\<close> ("trying to debug memmap being zero"): they are modelled as they
  stand, and the entry point as it is compiled.

  \<^bold>\<open>Conventions.\<close> An integer is a word of its width, a pointer a 64-bit word (Prelude). Memory
  is a partial map from addresses to bytes (Memory); an access outside it is \<open>None\<close>, and so are
  a loop that never ends, a failed assertion and what C leaves undefined. A loop that counts to
  a bound is a total function with a measure; one that waits for a byte or a device is a
  \<open>partial_function (option)\<close>, so that ending is something the theorems prove. No loop has
  fuel. C strings are stated with \<open>cstr_at m p s\<close>: the characters \<open>s\<close> and a NUL lie at \<open>p\<close>.

  \<^bold>\<open>Theories.\<close>
  \<^item> Prelude, Memory: vocabulary, \<open>named_theorems\<close> collections, shared lemmas on words, loops,
    regions and little-endian reads.
  \<^item> StrMem, StrFun, StrTok, Ctype, NumConv (\<^verbatim>\<open>util/string.c\<close>): one definition per function and
    per loop. Lemmas: the effect of each routine on content and on the rest of memory, moves of
    overlapping regions, comparison as lexicographic order, tokens of a string over successive
    calls, round trip of \<open>itoa\<close> and \<open>atoi\<close>, saturation of \<open>strtol\<close>.
  \<^item> Sink: the locale \<open>char_sink\<close>, what the formatter needs of a port; Serial
    (\<^verbatim>\<open>arch/serial.hh\<close>, \<^verbatim>\<open>arch/io.hh\<close>) interprets it. The state is the trace of port accesses, the
    device a function of that trace; what the bytes written mean is stated over the registers
    of a 16550 UART. PortIo: the templates of \<^verbatim>\<open>io\<close> for operands of every size.
  \<^item> FmtNum, Format (\<^verbatim>\<open>core/format.hh\<close>): number texts, \<open>print\<close>, format specifications, \<open>printf\<close>.
    Lemmas are inside \<open>char_sink\<close>; \<open>printf_text\<close> is the abstract specification of what a format
    and its arguments transmit, \<open>denotes\<close> of the text of a number.
  \<^item> Pmm, PmmProps (\<^verbatim>\<open>core/pmm.hh\<close>): the free list. \<open>pool\<close> is its invariant; the locales
    \<open>page_source\<close> and \<open>page_pool\<close> are the contract of an allocator and are interpreted on the code.
    Its messages are a list there; PmmLog and PmmStart have the formatter's call for each,
    what arrives at the ports, \<open>allocate\<close> and \<open>free\<close> with their panics and warnings, and \<open>init\<close>
    with its output, which refines \<open>init\<close> with the list.
  \<^item> StringView, Slice (\<^verbatim>\<open>ktl/string_view\<close>, \<^verbatim>\<open>ktl/slice\<close>): views of memory and their content.
  \<^item> Limine, LimineProps (\<^verbatim>\<open>core/limine.hh\<close>): every class and accessor; the locale \<open>boot_table\<close>
    is the contract of its three tables of pointers. PmmBoot composes it with the memory
    manager and proves that \<open>init\<close> on the boot loader's structures refines \<open>init\<close> on the list of
    usable regions.
  \<^item> Efi, EfiMap (\<^verbatim>\<open>arch/efi.hh\<close>): layouts of the firmware's tables, the wrappers as the calls they
    make, the iterator over runtime descriptors.
  \<^item> Idt (\<^verbatim>\<open>arch/idt.hh\<close>, \<^verbatim>\<open>arch/idt.S\<close>), Gdt (\<^verbatim>\<open>arch/gdt.hh\<close>): tables, their initialisation, the stubs
    over the stack, and what the processor reads back. Debug output there is a list of messages;
    DebugLog has the same operations with the calls of the formatter in their places, and proves
    that they do the same and send the text of that list.
  \<^item> Machine, Stub (\<^verbatim>\<open>arch/idt.S\<close>): the part of the processor the stubs use, registers and memory,
    and the stubs as lists of instructions on it. Their entry builds in memory the words Idt
    states, their exit restores the registers from them. What the processor does at an interrupt
    and at \<^verbatim>\<open>iretq\<close> is its documented behaviour, for an interrupt without a change of privilege.
  \<^item> Steps: interleavings, \<open>reach\<close>, and the locale \<open>step_system\<close> for invariants. Atomic, SpinLock,
    AutoLock (\<^verbatim>\<open>ktl/atomic\<close>) and CallOnce (\<^verbatim>\<open>ktl/call_once\<close>): any number of threads as inductive
    step relations, with mutual exclusion, refinement of an abstract lock, and that a waiting
    thread can always still get through. The locale \<open>lockable\<close> is what \<open>AutoLock\<close> needs of a lock.
  \<^item> Optional, Pair (\<^verbatim>\<open>ktl/optional\<close>, \<^verbatim>\<open>ktl/pair\<close>, \<^verbatim>\<open>ktl/algorythm\<close>): refinement of an optional value
    with the lifetime of its object, and the order of pairs.
  \<^item> TypeTraits (\<^verbatim>\<open>ktl/type_traits\<close>): the types of the language as a datatype, the traits as functions
    on it; what \<open>decay\<close> leaves, and that forwarding keeps lvalues and rvalues. Tuple
    (\<^verbatim>\<open>ktl/tuple\<close>, \<^verbatim>\<open>ktl/initializer_list\<close>): components by index, and the ends of a list.
    TypeConv: \<^verbatim>\<open>is_convertible\<close> and the \<^verbatim>\<open>noexcept\<close> traits over the conversions of the language, and
    what they decide for slices, optional values and pairs; that a conversion of slices only
    adds qualifiers.
  \<^item> Boot (\<^verbatim>\<open>core/_start.cc\<close>), Assert (\<^verbatim>\<open>ktl/assert.cc\<close>), Panic (\<open>kpanic\<close> in \<^verbatim>\<open>arch/idt.hh\<close>): whole paths
    through formatter and driver, over one trace with two ports that do not disturb each other.
    What a panic sends is written out (\<open>console_text\<close>, \<open>log_text\<close>, \<open>dump_text\<close>) apart from the literals
    and the lines of the dump in the code's model.
  \<^item> This theory: an interrupt from the stub to the last halt, over Idt and Panic, and one with a
    registered handler from the interrupted instruction back to it, over Idt and Stub; and the
    memory manager from the boot loader's answer to the report that memory is out, over PmmBoot
    and PmmLog.

  \<^bold>\<open>Parameters.\<close> What is not under \<^verbatim>\<open>src/\<close> is an argument: the devices, the boot loader's structures
  (\<^verbatim>\<open>limine.h\<close> is fetched by the build), the firmware's functions, page tables, the addresses the
  linker chooses and what belongs to clients (handlers, the function of \<open>call_once\<close>, the
  constructors and operators of classes, and how references bind). Of the firmware's memory map
  one theorem asks what UEFI documents and the code does not test: a stride with room for a
  descriptor, and a map that does not wrap around the address space.

  \<^bold>\<open>Where theorems show a defect.\<close> Some theorems state what the code does although it does not
  mean to: the stub indexes the handler table with \<^verbatim>\<open>r10\<close>, the register dump is shifted, three
  vectors lack their error code, a page that is freed twice at the head of the list is not
  noticed, the limit of the task state segment depends on its address. Their texts say so.

  \<^bold>\<open>Not modelled.\<close> Memory ordering weaker than sequential consistency; functions
  \<^verbatim>\<open>util/string.h\<close> declares without a body (\<^verbatim>\<open>strdup\<close>); an interrupt inside the memory manager or the
  formatter; paging and the execution of user code, of which the repository has none.
\<close>

subsection \<open>An interrupt, from the stub to the last halt\<close>

text \<open>
  The stub of vector \<open>n\<close> builds the frame and calls an entry of the handler table (\<^verbatim>\<open>idt.S\<close>).
  A registered function is a parameter. An entry outside the table and the null pointer, which
  the processor would follow out of the program, are \<open>None\<close>.
\<close>

definition take_interrupt ::
  "(u64 \<Rightarrow> u64 list \<Rightarrow> trace \<Rightarrow> (trace \<times> cpu_event stream) option) \<Rightarrow> device \<Rightarrow> mem
     \<Rightarrow> (u8 list \<Rightarrow> addr) \<Rightarrow> idt \<Rightarrow> cpu \<Rightarrow> nat \<Rightarrow> u64 list \<Rightarrow> trace
     \<Rightarrow> (trace \<times> cpu_event stream) option"
where
  "take_interrupt custom dev m lit s c n hw h =
     (let ctx = save_regs c (isr_stub n hw) in
      case dispatch s ctx of
        Some DefaultInterruptHandler \<Rightarrow> default_handler dev m lit ctx h
      | Some HaltCatchFire \<Rightarrow> Some (haltCatchFire h)
      | Some (Custom f) \<Rightarrow> custom f ctx h
      | _ \<Rightarrow> None)"

text \<open>
  C2: Once \<open>init\<close> has filled the tables, an interrupt of any vector \<open>n\<close> ends in a report. The
  first port sends the panic with the vector in hexadecimal and, for an exception, its name. The
  second port sends the same sentence and a register dump, whose every field is stated: what it
  calls \<^verbatim>\<open>RAX\<close> is \<^verbatim>\<open>r9\<close> of the interrupted code, what it calls \<^verbatim>\<open>R9\<close> is \<^verbatim>\<open>rax\<close>, and so on; only
  \<^verbatim>\<open>R8\<close>, and for all but three vectors the five words the processor pushed, stand under their
  own names. For vectors 21, 29 and 30 the error code is shown as \<^verbatim>\<open>RIP\<close> and those words one
  field late. Then the processor halts for ever with interrupts off. All this holds as long as
  the interrupted code has a number below 256 in \<^verbatim>\<open>r10\<close>, with which the stub indexes the table;
  otherwise the stub calls through memory behind it.
\<close>

theorem interrupt_after_init_reports:
  assumes "n < 256" and "literals m lit handler_literals"
    and "eventually_ready dev COM1" and "eventually_ready dev COM2"
    and "\<not> dlab (uart_after COM1 u1 h)" and "\<not> dlab (uart_after COM2 u2 h)"
  shows "\<exists>s. idt_init d useTrap True stubs a idt_start = Some s
    \<and> (if unat (r10 c) < 256 then
         \<exists>h'. take_interrupt custom dev m lit s c n (hw_words n err ip cseg fl sp sseg) h = Some (h', Cli ## sconst Hlt)
           \<and> sent (uart_after COM1 u1 h') = sent (uart_after COM1 u1 h) @ console_text (cause_text n)
           \<and> sent (uart_after COM2 u2 h') = sent (uart_after COM2 u2 h)
               @ log_text (Some (if n \<in> {21, 29, 30} then dump_text c err ip cseg fl sp
                   else dump_text c ip cseg fl sp sseg)) (cause_text n)
       else take_interrupt custom dev m lit s c n (hw_words n err ip cseg fl sp sseg) h = None)"
proof -
  let ?hw = "hw_words n err ip cseg fl sp sseg"
  obtain s where s: "idt_init d useTrap True stubs a idt_start = Some s"
    "real_handler_table s = map (\<lambda>i. DefaultInterruptHandler) [0..<256]"
    using idt_init_tables [of d useTrap True stubs a] by (auto simp del: upt_rec_numeral)
  then have "dispatch s (frame c n ?hw) = (if unat (r10 c) < 256 then Some DefaultInterruptHandler else None)"
    by (simp add: dispatch_def handler_index_def frame_nth Let_def del: upt_rec_numeral)
  then have "take_interrupt custom dev m lit s c n ?hw h
      = (if unat (r10 c) < 256 then default_handler dev m lit (frame c n ?hw) h else None)"
    by (simp add: take_interrupt_def frame_def Let_def)
  with s(1) default_handler_reports [OF assms, of c ?hw] show ?thesis
    unfolding lines_text_frame by auto
qed

text \<open>A page fault, with error code 6, whose interrupted code holds 0 in every register.\<close>

theorem interrupt_after_init_reports_witness:
  "\<exists>s h'. idt_init True True True (\<lambda>n. of_nat n * 16) 0x1000 idt_start = Some s
     \<and> take_interrupt (\<lambda>f ctx h. None) (\<lambda>h p. 32) (put_bytes Map.empty 4096 (literal_block handler_literals))
        (lit_at 4096 handler_literals) s zero_cpu 14 (hw_words 14 6 0x100000 8 2 0x8000 16) []
        = Some (h', Cli ## sconst Hlt)
     \<and> sent (uart_after COM1 closed_uart h') = console_text (cause_text 14)
     \<and> sent (uart_after COM2 closed_uart h')
        = log_text (Some (dump_text zero_cpu 0x100000 8 2 0x8000 16)) (cause_text 14)"
proof -
  have "eventually_ready (\<lambda>h p. 32) base" for base by (simp add: eventually_ready_def status_def)
  moreover have "\<not> dlab (uart_after base closed_uart [])" "sent (uart_after base closed_uart []) = []" for base
    by (simp_all add: closed_uart_def uart_after_def dlab_def)
  moreover have "unat (r10 zero_cpu) < 256" by (simp add: zero_cpu_def)
  ultimately show ?thesis
    using interrupt_after_init_reports [OF _ handler_literals_placed, of 14 "\<lambda>h p. 32" closed_uart "[]" closed_uart
        True True "\<lambda>n. of_nat n * 16" "0x1000" zero_cpu "\<lambda>f ctx h. None" 6 "0x100000" 8 2 "0x8000" 16]
    by auto
qed

subsection \<open>A registered handler\<close>

text \<open>
  C31: After \<open>init\<close> and one \<open>registerHandler\<close>, an interrupt of any vector but 21, 29 and 30 that
  finds the number of the registered vector in \<^verbatim>\<open>r10\<close> calls the registered function, and if this
  keeps the calling convention, resumes the interrupted code with every register but the
  segment and control registers and all memory of its stack as before. With another number
  below 256 there the interrupted code is not resumed, whatever the vector.
\<close>

theorem registered_handler_runs:
  assumes "unat v < 256" and "keeps_stack (custom f)" and "unat (regs M R10) < 256"
    and "mapped (ram M) (aligned_sp M - 240) 240" and "240 \<le> unat (aligned_sp M)"
    and "n \<notin> {21, 29, 30}"
  shows "\<exists>s s'. idt_init d useTrap panicOn stubs a idt_start = Some s
    \<and> registerHandler d v (Custom f) s = Some (True, s')
    \<and> (if regs M R10 = ucast v then
         \<exists>M'. interrupt (table_of custom s') ret (idt_table s' ! n) n err M = Some M'
           \<and> (\<forall>r. r \<notin> {DS, ES, CR0, CR2, CR3, CR4} \<longrightarrow> regs M' r = regs M r)
           \<and> (\<forall>q. unat (aligned_sp M) \<le> unat q \<longrightarrow> ram M' q = ram M q)
       else interrupt (table_of custom s') ret (idt_table s' ! n) n err M = None)"
proof -
  obtain s where s: "idt_init d useTrap panicOn stubs a idt_start = Some s"
    "real_handler_table s = map (\<lambda>i. if \<not> panicOn \<and> i < 32 then HaltCatchFire else DefaultInterruptHandler) [0..<256]"
    using idt_init_tables [of d useTrap panicOn stubs a] by blast
  let ?s' = "idt_say d (MRegistered v) (s\<lparr>real_handler_table := (real_handler_table s)[unat v := Custom f]\<rparr>)"
  have reg: "registerHandler d v (Custom f) s = Some (True, ?s')"
    using assms(1) by (simp add: registerHandler_def s(2) Let_def del: upt_rec_numeral)
  have i: "regs M R10 = ucast v \<longleftrightarrow> unat (regs M R10) = unat v"
    using assms(1) by (simp add: word_unat_eq_iff unsigned_ucast_eq take_bit_nat_eq_self)
  have table: "table_of custom ?s' (regs M R10)
      = Some (if regs M R10 = ucast v then custom f else (\<lambda>M. None))"
    using assms(1,3) unfolding i by (simp add: table_of_def s(2) nth_list_update del: upt_rec_numeral)
  show ?thesis
  proof (cases "regs M R10 = ucast v")
    case True
    with table have "table_of custom ?s' (regs M R10) = Some (custom f)" by simp
    from interrupt_transparent [where tab = "table_of custom ?s'" and M = M, OF this assms(2,4,5), of ret "idt_table ?s' ! n" n err] assms(6) True s(1) reg
    show ?thesis by auto
  next
    case False
    with table have "table_of custom ?s' (regs M R10) = Some (\<lambda>M. None)" by simp
    from interrupt_no_return [where tab = "table_of custom ?s'", OF assms(4) this] False s(1) reg show ?thesis by auto
  qed
qed

text \<open>
  Vector 5 is registered; code that holds 5 in \<^verbatim>\<open>r10\<close> is interrupted by vector 32. The handler
  leaves 99 in every register.
\<close>

theorem registered_handler_runs_witness:
  "\<exists>s s' M'. idt_init True True True (\<lambda>n. of_nat n * 16) 0x1000 idt_start = Some s
    \<and> registerHandler True 5 (Custom 0x9000) s = Some (True, s')
    \<and> interrupt (table_of (\<lambda>f. spoiling_handler) s') 0x2000 (idt_table s' ! 32) 32 0 busy_machine = Some M'
    \<and> regs M' RIP = 0x4000 \<and> regs M' RSP = 0x1000 \<and> regs M' RAX = 7"
proof -
  have keeps: "keeps_stack spoiling_handler" by (simp add: keeps_stack_def spoiling_handler_def)
  have stack: "mapped (ram busy_machine) (aligned_sp busy_machine - 240) 240"
    by (simp add: busy_machine_def mapped_everywhere)
  have room: "240 \<le> unat (aligned_sp busy_machine)"
    by (simp add: busy_machine_def aligned_sp_def)
  have r10: "regs busy_machine R10 = ucast (5 :: u16)" "unat (regs busy_machine R10) < 256"
    and "regs busy_machine RIP = 0x4000" "regs busy_machine RSP = 0x1000" "regs busy_machine RAX = 7"
    by (simp_all add: busy_machine_def)
  from registered_handler_runs [of 5 "\<lambda>f. spoiling_handler" "0x9000" busy_machine 32 True True True
      "\<lambda>n. of_nat n * 16" "0x1000" "0x2000" 0, OF _ keeps r10(2) stack room]
  obtain s s' M' where "idt_init True True True (\<lambda>n. of_nat n * 16) 0x1000 idt_start = Some s"
    "registerHandler True 5 (Custom 0x9000) s = Some (True, s')"
    "interrupt (table_of (\<lambda>f. spoiling_handler) s') 0x2000 (idt_table s' ! 32) 32 0 busy_machine = Some M'"
    "\<forall>r. r \<notin> {DS, ES, CR0, CR2, CR3, CR4} \<longrightarrow> regs M' r = regs busy_machine r"
    unfolding if_P [OF r10(1)] by auto
  then show ?thesis
    using \<open>regs busy_machine RIP = 0x4000\<close> \<open>regs busy_machine RSP = 0x1000\<close> \<open>regs busy_machine RAX = 7\<close>
    by (intro exI [of _ s] exI [of _ s'] exI [of _ M']) simp
qed

subsection \<open>From the memory map to the last page\<close>

lemma pool_length: "pool e s ps \<Longrightarrow> length ps < 2 ^ 64"
proof -
  assume pool: "pool e s ps"
  then have "0 \<notin> set ps" using path_nonzero [OF pool_path] by blast
  then have "card (set ps) < CARD(addr)" by (intro psubset_card_mono) auto
  then show ?thesis by (simp add: distinct_card [OF pool_distinct [OF pool]] card_word)
qed

text \<open>
  C17: From the boot loader's answer to the end of memory. Started on a memory map whose usable
  entries lie apart, end before the last page and are mapped, the memory manager gives as many
  pages as \<open>freePages\<close> told after \<open>init\<close>: every 4 KiB frame that lies wholly inside a usable
  entry and not below 1 MiB, each once, and nothing else, without printing anything. The
  allocation after the last of them does not return: it reports on both ports that memory is
  out, without a register dump, and halts for ever with interrupts off.
\<close>

theorem boot_memory_exhausted:
  assumes "memmap_holds mm rd q entries"
    and "\<forall>x \<in> set entries. usable x \<longrightarrow> unat (entry_base x) + unat (entry_length x) + 4096 \<le> 2 ^ 64"
    and "\<forall>x \<in> set entries. \<forall>p. frame_of x p \<longrightarrow> xl p \<noteq> None"
    and "distinct (map (phys (boot_env xl hq)) (concat (map entry_frames entries)))"
    and "literals m lit pmm_panic_literals" and "both_ready dev"
    and "\<not> dlab (uart_after COM1 u1 h)" and "\<not> dlab (uart_after COM2 u2 h)"
  shows "\<exists>s qs s' h'. pmm_boot (boot_env xl hq) mm rd q (pmm_start g) = Some s
    \<and> take_pages (take_io dev m lit (boot_env xl hq)) (unat (freePages s)) (s, h) = Some (qs, s', h)
    \<and> distinct qs \<and> (\<forall>p. p \<in> set qs \<longleftrightarrow> (\<exists>x \<in> set entries. frame_of x p))
    \<and> allocate_io dev m lit (boot_env xl hq) (s', h) = Some (Halted h' (Cli ## sconst Hlt))
    \<and> sent (uart_after COM1 u1 h') = sent (uart_after COM1 u1 h) @ console_text (crlf out_of_memory)
    \<and> sent (uart_after COM2 u2 h') = sent (uart_after COM2 u2 h) @ log_text None (crlf out_of_memory)"
proof -
  let ?e = "boot_env xl hq"
  have "\<exists>s ps. pmm_init ?e (Some entries) (pmm_start g) = Some s \<and> pool ?e s ps
      \<and> (\<forall>p. p \<in> set ps \<longleftrightarrow> (\<exists>x \<in> set entries. frame_of x p))
      \<and> totalPages s = of_nat (length ps) \<and> freePages s = of_nat (length ps)"
    using assms(2-4) by (intro pmm_init_pool) (simp_all add: boot_env_def kernel_env_def)
  then obtain s ps where s: "pmm_init ?e (Some entries) (pmm_start g) = Some s" "pool ?e s ps"
    "\<forall>p. p \<in> set ps \<longleftrightarrow> (\<exists>x \<in> set entries. frame_of x p)" "freePages s = of_nat (length ps)"
    by blast
  have n: "unat (freePages s) = length ps"
    unfolding s(4) by (rule unat_of_nat_64 [OF pool_length [OF s(2)]])
  obtain qs s' h' where
    "take_pages (take_io dev m lit ?e) (length ps) (s, h) = Some (qs, s', h)" "distinct qs" "set qs = set ps"
    "allocate_io dev m lit ?e (s', h) = Some (Halted h' (Cli ## sconst Hlt))"
    "sent (uart_after COM1 u1 h') = sent (uart_after COM1 u1 h) @ console_text (crlf out_of_memory)"
    "sent (uart_after COM2 u2 h') = sent (uart_after COM2 u2 h) @ log_text None (crlf out_of_memory)"
    using pmm_exhaustion_reports [OF s(2) assms(5-8)] by blast
  then show ?thesis
    using s(1,3) unfolding pmm_boot_init [OF assms(1)]
    by (intro exI [of _ s] exI [of _ qs] exI [of _ s'] exI [of _ h']) (simp add: n)
qed

text \<open>One usable entry with one whole frame above 1 MiB; the second allocation halts.\<close>

theorem boot_memory_exhausted_witness:
  "\<exists>s qs s' h'. pmm_boot (boot_env Some (hhdm_request 3)) one_entry_map
        (\<lambda>_. Some \<lparr>entry_base = 0x100001, entry_length = 0x2000, entry_type = 0\<rparr>) one_entry_request
        (pmm_start (\<lambda>_. \<lparr>link = 7, flags = 7\<rparr>)) = Some s
    \<and> take_pages (take_io (\<lambda>h p. 32) (put_bytes Map.empty 4096 (literal_block pmm_panic_literals))
        (lit_at 4096 pmm_panic_literals) (boot_env Some (hhdm_request 3))) (unat (freePages s)) (s, []) = Some (qs, s', [])
    \<and> allocate_io (\<lambda>h p. 32) (put_bytes Map.empty 4096 (literal_block pmm_panic_literals))
        (lit_at 4096 pmm_panic_literals) (boot_env Some (hhdm_request 3)) (s', []) = Some (Halted h' (Cli ## sconst Hlt))
    \<and> sent (uart_after COM1 closed_uart h') = console_text (crlf out_of_memory)"
proof -
  let ?x = "\<lparr>entry_base = 0x100001, entry_length = 0x2000, entry_type = 0\<rparr> :: memmap_entry"
  have "region_frames 0x100001 0x2000 = [0x101000]"
    by (simp add: region_frames_def alignUp_def PageSize_def)
  then have "entry_frames ?x = [0x101000]" by (simp add: entry_frames_def kMinPhysical_def)
  then show ?thesis
    using boot_memory_exhausted [OF _ _ _ _ pmm_literals_placed always_ready, of one_entry_map "\<lambda>_. Some ?x" one_entry_request
        "[?x]" Some "hhdm_request 3" closed_uart "[]" closed_uart "\<lambda>_. \<lparr>link = 7, flags = 7\<rparr>"]
      one_entry_holds [of "\<lambda>_. Some ?x" ?x] closed_ports
    by auto
qed

end
